(* ===== verification/Gz_Prelude.thy ===== *)
theory Gz_Prelude
  imports Main "HOL-Library.Word"
begin

text \<open>
  The prelude of the gzOS development: machine types, the values that stand for the ways the kernel
  can stop (\<open>assert\<close>, \<open>panic\<close>, behaviour C leaves undefined), and the generic
  facts on lists, aligned intervals and powers of two that the components share.
\<close>

unbundle bit_operations_syntax

section \<open>Machine types and faults\<close>

type_synonym u8 = "8 word"
type_synonym u16 = "16 word"
type_synonym u32 = "32 word"
type_synonym u64 = "64 word"

text \<open>
  Kernel code does not throw: it stops. \<open>Assertion\<close> is a failed \<open>assert\<close>,
  \<open>Panic\<close> a call of \<open>panic\<close>, \<open>Undefined\<close> an access the C source makes
  outside of an object or a list operation on an element that is not in the list.
\<close>

datatype fault = Assertion string | Panic string | Undefined string

type_synonym 'a result = "fault + 'a"

abbreviation fails :: "'a result \<Rightarrow> bool" where
  "fails r \<equiv> (\<exists>e. r = Inl e)"

definition rbind :: "'a result \<Rightarrow> ('a \<Rightarrow> 'b result) \<Rightarrow> 'b result" where
  "rbind m f = (case m of Inl e \<Rightarrow> Inl e | Inr x \<Rightarrow> f x)"

lemma rbind_simps [simp]: "rbind (Inl e) f = Inl e" "rbind (Inr x) f = f x"
  by (simp_all add: rbind_def)

lemma rbind_Inr: "rbind m f = Inr y \<longleftrightarrow> (\<exists>x. m = Inr x \<and> f x = Inr y)"
  by (cases m) simp_all

definition rassert :: "bool \<Rightarrow> fault \<Rightarrow> 'a result \<Rightarrow> 'a result" where
  "rassert b e m = (if b then m else Inl e)"

lemma rassert_Inr: "rassert b e m = Inr y \<longleftrightarrow> b \<and> m = Inr y"
  by (simp add: rassert_def)

named_theorems seg_simps \<open>field equations of the physical memory segment\<close>
named_theorems heap_simps \<open>field equations of the kernel heap\<close>
named_theorems sched_simps \<open>field equations of the scheduler state\<close>
named_theorems tcp_simps \<open>field equations of a TCP session\<close>
named_theorems vfs_simps \<open>equations of the file system operations\<close>

text \<open>The macro of primitives/align.h: pointers are compared as signed numbers and the end of the range may wrap around.\<close>

definition pointer_is_in_range :: "u32 \<Rightarrow> u32 \<Rightarrow> u32 \<Rightarrow> bool" where
  "pointer_is_in_range ptr start len = (sint start \<le> sint ptr \<and> sint ptr < sint (start + len))"

lemma sint_small: "unat x < 2 ^ 31 \<Longrightarrow> sint x = int (unat x)" for x :: u32
proof -
  assume "unat x < 2 ^ 31"
  then have u: "uint x < 2 ^ 31" using nat_less_iff [OF uint_ge_0, of x "2 ^ 31"] by (simp flip: unat_eq_nat_uint)
  have "- (2 ^ 31) \<le> uint x" by (rule order_trans [OF _ uint_ge_0]) simp
  then have "signed_take_bit 31 (uint x) = uint x" using u by (rule signed_take_bit_int_eq_self)
  then show ?thesis by (simp add: sint_uint)
qed

section \<open>Lists\<close>

lemma nth_list_update_if [simp]:
  "(xs[i := v]) ! j = (if i = j \<and> i < length xs then v else xs ! j)"
  by (cases "i < length xs") (auto simp: list_update_beyond)

lemma set_remove1_distinct [simp]: "distinct xs \<Longrightarrow> set (remove1 x xs) = set xs - {x}"
  by (simp add: set_remove1_eq)

text \<open>Apply \<open>f\<close> to the entries \<open>p, \<dots>, p + n - 1\<close> of a list.\<close>

definition map_range :: "(nat \<Rightarrow> bool) \<Rightarrow> ('a \<Rightarrow> 'a) \<Rightarrow> 'a list \<Rightarrow> 'a list" where
  "map_range P f xs = map (\<lambda>(i, x). if P i then f x else x) (zip [0..<length xs] xs)"

lemma length_map_range [simp]: "length (map_range P f xs) = length xs"
  by (simp add: map_range_def)

lemma nth_map_range [simp]:
  "i < length xs \<Longrightarrow> map_range P f xs ! i = (if P i then f (xs ! i) else xs ! i)"
  by (simp add: map_range_def)

section \<open>Powers of two and aligned blocks\<close>

text \<open>The pages \<open>p, \<dots>, p + 2^k - 1\<close>.\<close>

definition blk :: "nat \<Rightarrow> nat \<Rightarrow> nat set" where
  "blk p k = {p ..< p + 2 ^ k}"

lemma mem_blk: "q \<in> blk p k \<longleftrightarrow> p \<le> q \<and> q < p + 2 ^ k"
  by (auto simp: blk_def)

lemma blk_self [simp]: "p \<in> blk p k"
  by (simp add: mem_blk)

lemma blk_0 [simp]: "blk p 0 = {p}"
  by (auto simp: mem_blk)

lemma blk_Suc: "blk p (Suc k) = blk p k \<union> blk (p + 2 ^ k) k"
  by (auto simp: mem_blk)

lemma blk_halves_disjoint: "blk p k \<inter> blk (p + 2 ^ k) k = {}"
  by (auto simp: mem_blk)

lemma card_blk [simp]: "card (blk p k) = 2 ^ k"
  by (simp add: blk_def)

lemma finite_blk [simp]: "finite (blk p k)"
  by (simp add: blk_def)

lemma diff_power2_less: "2 ^ i \<le> t \<Longrightarrow> t - 2 ^ i < (t :: nat)"
  by (rule diff_less) (auto intro: less_le_trans [of 0 "2 ^ i"])

lemma dvd_gap:
  fixes m :: nat
  assumes "m dvd p" and "m dvd q" and "p < q"
  shows "p + m \<le> q"
proof -
  from assms(1,2) have "m dvd q - p" by (rule dvd_diff_nat [rotated])
  with assms(3) have "m \<le> q - p" by (simp add: dvd_imp_le)
  with assms(3) show ?thesis by simp
qed

text \<open>Two aligned blocks are nested or disjoint.\<close>

lemma aligned_blk_nested:
  assumes "i \<le> j" and "2 ^ i dvd p" and "2 ^ j dvd q" and "blk p i \<inter> blk q j \<noteq> {}"
  shows "blk p i \<subseteq> blk q j"
proof -
  have "2 ^ i dvd q" using assms(1,3) by (rule power_le_dvd [rotated])
  moreover have "2 ^ i dvd q + 2 ^ j"
    using \<open>2 ^ i dvd q\<close> assms(1) by (simp add: le_imp_power_dvd)
  moreover from assms(4) obtain r where "p \<le> r" "r < p + 2 ^ i" "q \<le> r" "r < q + 2 ^ j"
    by (auto simp: mem_blk)
  ultimately have "q \<le> p" and "p + 2 ^ i \<le> q + 2 ^ j"
    using dvd_gap [OF assms(2) \<open>2 ^ i dvd q\<close>] dvd_gap [of "2 ^ i" p "q + 2 ^ j"] assms(2)
    by fastforce+
  then show ?thesis by (auto simp: mem_blk)
qed

lemma aligned_blk_same:
  assumes "2 ^ i dvd p" and "2 ^ i dvd q" and "p \<noteq> q"
  shows "blk p i \<inter> blk q i = {}"
proof (cases "p < q")
  case True
  from dvd_gap [OF assms(1,2) True] show ?thesis by (auto simp: mem_blk)
next
  case False
  with assms(3) have "q < p" by simp
  from dvd_gap [OF assms(2,1) this] show ?thesis by (auto simp: mem_blk)
qed

lemma dvd_double_or_odd:
  fixes p :: nat
  assumes "2 ^ k dvd p" and "p mod 2 ^ Suc k \<noteq> 0"
  shows "2 ^ k \<le> p" and "2 ^ Suc k dvd p - 2 ^ k"
proof -
  from assms(1) obtain c where c: "p = 2 ^ k * c" by (auto elim: dvdE)
  have "odd c"
  proof
    assume "even c"
    then obtain d where "c = 2 * d" by (auto elim: evenE)
    with c have "p = 2 ^ Suc k * d" by simp
    with assms(2) show False by simp
  qed
  then obtain d where d: "c = 2 * d + 1" by (auto elim: oddE)
  with c have p: "p = 2 ^ Suc k * d + 2 ^ k" by (simp add: algebra_simps)
  then show "2 ^ k \<le> p" and "2 ^ Suc k dvd p - 2 ^ k" by simp_all
qed

text \<open>\<open>powerof2(x)\<close> and \<open>log2(x)\<close> of align.h; \<open>log2\<close> is the index of the lowest set bit.\<close>

definition powerof2 :: "nat \<Rightarrow> bool" where
  "powerof2 x \<longleftrightarrow> (x - 1) AND x = 0"

fun ctz :: "nat \<Rightarrow> nat" where
  "ctz n = (if n = 0 then 0 else if odd n then 0 else Suc (ctz (n div 2)))"

declare ctz.simps [simp del]

definition ffs :: "nat \<Rightarrow> nat" where
  "ffs n = (if n = 0 then 0 else Suc (ctz n))"

definition log2 :: "nat \<Rightarrow> nat" where
  "log2 n = ffs n - 1"

lemma ctz_power2 [simp]: "ctz (2 ^ k) = k"
  by (induction k) (simp_all add: ctz.simps [of "2 * _"] ctz.simps [of "Suc 0"])

lemma log2_power2 [simp]: "log2 (2 ^ k) = k"
  by (simp add: log2_def ffs_def)

lemma powerof2_power2 [simp]: "powerof2 (2 ^ k)"
proof -
  have "(2 ^ k - 1) AND (2 ^ k :: nat) = take_bit k (2 ^ k)"
    by (simp add: take_bit_eq_mask mask_eq_exp_minus_1 ac_simps)
  then show ?thesis by (simp add: powerof2_def)
qed

text \<open>The \<open>align\<close> macro of align.h, on 32-bit numbers.\<close>

definition align_to :: "u32 \<Rightarrow> u32 \<Rightarrow> u32" where
  "align_to x a = (x + (a - 1)) AND - a"

lemma and_minus_power: fixes x :: "u32" shows "x AND - (2 ^ n) = push_bit n (drop_bit n x)"
proof -
  have "NOT (2 ^ n - 1 :: u32) = - (2 ^ n)" by (simp add: not_eq_complement)
  then have "- (2 ^ n) = NOT (mask n :: u32)" by (simp only: mask_eq_exp_minus_1)
  then show ?thesis by (simp only:) (rule bit_eqI, auto simp: bit_simps)
qed

lemma unat_align_to:
  assumes "n < 32"
  shows "unat (align_to x (2 ^ n)) = (unat x + (2 ^ n - 1)) mod 2 ^ 32 div 2 ^ n * 2 ^ n"
proof -
  let ?y = "x + (2 ^ n - 1)"
  have p: "(2::nat) ^ n < 2 ^ 32" using assms by (intro power_strict_increasing) auto
  have w: "unat (2 ^ n :: u32) = 2 ^ n" using p unat_of_nat [of "2 ^ n", where ?'a = 32] by simp
  have m: "unat (2 ^ n - 1 :: u32) = 2 ^ n - 1"
    using w by (simp add: unat_sub_if')
  have y: "unat ?y = (unat x + (2 ^ n - 1)) mod 2 ^ 32" by (simp add: unat_word_ariths m)
  have lt: "unat ?y div 2 ^ n * 2 ^ n < 2 ^ 32"
    by (rule le_less_trans [OF div_times_less_eq_dividend]) (use unsigned_less [of ?y] in simp)
  have "unat (drop_bit n ?y) = unat ?y div 2 ^ n" by (simp only: drop_bit_eq_div unat_div w)
  then have "unat (push_bit n (drop_bit n ?y)) = unat ?y div 2 ^ n * 2 ^ n mod 2 ^ 32"
    by (simp only: push_bit_eq_mult unat_word_ariths(2) w) (simp add: w)
  also have "\<dots> = unat ?y div 2 ^ n * 2 ^ n" using lt by (rule mod_less)
  finally have "unat (push_bit n (drop_bit n ?y)) = unat ?y div 2 ^ n * 2 ^ n" .
  then show ?thesis by (simp add: align_to_def and_minus_power y)
qed
end
