(* ===== verification/Phys_Mem.thy ===== *)
theory Phys_Mem
  imports Gz_Prelude
begin

text \<open>
  The physical page allocator, src/kernel/lib/mm/physmem.c: a buddy system over the pages of each
  memory segment. A \<open>vm_page_t *\<close> into \<open>seg->pages\<close> is the index of the page, a
  free queue is the list of the indices on it (head first), and the three bits of
  \<open>pm_flags\<close> are three booleans. Addresses are natural numbers below \<open>2^32\<close>, with
  the wrap-around of 32-bit sums written out. The theory holds the model, the invariant of a
  segment, and the proof that splitting, allocating and freeing keep it.
\<close>

section \<open>State\<close>

text \<open>vm.h: \<open>PAGESIZE\<close>, \<open>vm_page_t\<close>; physmem.c: \<open>PM_NQUEUES\<close>, \<open>pm_seg_t\<close>.\<close>

definition PAGESIZE :: nat where
  "PAGESIZE = 4096"

definition PM_NQUEUES :: nat where
  "PM_NQUEUES = 16"

record vm_page =
  pg_paddr :: nat
  pg_vaddr :: nat
  pg_size :: nat
  pm_reserved :: bool
  pm_allocated :: bool
  pm_managed :: bool

record pm_seg =
  seg_start :: nat
  seg_end :: nat
  freeq :: "nat list list"
  npages :: nat
  pages :: "vm_page list"

definition is_aligned :: "nat \<Rightarrow> nat \<Rightarrow> bool" where
  "is_aligned addr sz \<longleftrightarrow> addr AND (sz - 1) = 0"

definition PG_SIZE :: "vm_page \<Rightarrow> nat" where
  "PG_SIZE pg = (pg_size pg * PAGESIZE) mod 2 ^ 32"

definition PG_START :: "vm_page \<Rightarrow> nat" where
  "PG_START pg = pg_paddr pg"

definition PG_END :: "vm_page \<Rightarrow> nat" where
  "PG_END pg = (pg_paddr pg + PG_SIZE pg) mod 2 ^ 32"

definition upd_page :: "nat \<Rightarrow> (vm_page \<Rightarrow> vm_page) \<Rightarrow> pm_seg \<Rightarrow> pm_seg" where
  "upd_page p f seg = seg\<lparr>pages := (pages seg)[p := f (pages seg ! p)]\<rparr>"

definition upd_pages :: "nat \<Rightarrow> nat \<Rightarrow> (vm_page \<Rightarrow> vm_page) \<Rightarrow> pm_seg \<Rightarrow> pm_seg" where
  "upd_pages p n f seg = seg\<lparr>pages := map_range (\<lambda>i. p \<le> i \<and> i < p + n) f (pages seg)\<rparr>"

section \<open>Queue operations\<close>

text \<open>
  \<open>PM_QUEUE_OF\<close> picks the queue by \<open>log2\<close> of the page's size. Taking a page off a queue it
  is not on, or touching a queue past the sixteenth, is outside what C defines.
\<close>

definition PM_QUEUE_OF :: "pm_seg \<Rightarrow> nat \<Rightarrow> nat" where
  "PM_QUEUE_OF seg p = log2 (pg_size (pages seg ! p))"

definition freeq_insert_head :: "nat \<Rightarrow> nat \<Rightarrow> pm_seg \<Rightarrow> pm_seg result" where
  "freeq_insert_head i p seg =
     (if length (freeq seg) \<le> i then Inl (Undefined ''freeq index'')
      else Inr (seg\<lparr>freeq := (freeq seg)[i := p # (freeq seg ! i)]\<rparr>))"

definition freeq_remove :: "nat \<Rightarrow> nat \<Rightarrow> pm_seg \<Rightarrow> pm_seg result" where
  "freeq_remove i p seg =
     (if length (freeq seg) \<le> i then Inl (Undefined ''freeq index'')
      else if p \<notin> set (freeq seg ! i) then Inl (Undefined ''TAILQ_REMOVE'')
      else Inr (seg\<lparr>freeq := (freeq seg)[i := remove1 p (freeq seg ! i)]\<rparr>))"

section \<open>Operations\<close>

subsection \<open>Building a segment\<close>

definition pm_seg_space_needed :: "nat \<Rightarrow> nat result" where
  "pm_seg_space_needed bytes =
     (if \<not> is_aligned bytes PAGESIZE then Inl (Assertion ''is_aligned(size, PAGESIZE)'')
      else Inr (148 + bytes div PAGESIZE * 48))"

text \<open>
  \<open>ctz0\<close> is what \<open>__builtin_ctz(0)\<close> returns, which C leaves open: the page with index 0 asks
  for it.
\<close>

definition init_page :: "nat \<Rightarrow> nat \<Rightarrow> nat \<Rightarrow> nat \<Rightarrow> nat \<Rightarrow> vm_page" where
  "init_page ctz0 max_size start vm_offset i =
     \<lparr>pg_paddr = (start + PAGESIZE * i) mod 2 ^ 32,
      pg_vaddr = (start + PAGESIZE * i + vm_offset) mod 2 ^ 32,
      pg_size = 2 ^ min max_size (if i = 0 then ctz0 else ctz i),
      pm_reserved = False, pm_allocated = False, pm_managed = False\<rparr>"

text \<open>The inner \<open>while (to_add >= size)\<close> loop and the outer loop over the queues.\<close>

function init_fill_queue :: "nat \<Rightarrow> nat \<Rightarrow> nat \<Rightarrow> pm_seg \<Rightarrow> nat \<times> nat \<times> pm_seg" where
  "init_fill_queue i curr_page to_add seg =
     (if 2 ^ i \<le> to_add then
        init_fill_queue i (curr_page + 2 ^ i) (to_add - 2 ^ i)
          (upd_page curr_page (pm_managed_update (\<lambda>_. True))
            (seg\<lparr>freeq := (freeq seg)[i := curr_page # (freeq seg ! i)]\<rparr>))
      else (curr_page, to_add, seg))"
  by pat_completeness auto
termination
  by (relation "measure (\<lambda>(i, c, t, s). t)") (auto intro: diff_power2_less)

declare init_fill_queue.simps [simp del]

fun init_fill :: "nat \<Rightarrow> nat \<Rightarrow> nat \<Rightarrow> pm_seg \<Rightarrow> pm_seg" where
  "init_fill 0 curr_page to_add seg = seg"
| "init_fill (Suc i) curr_page to_add seg =
     (case init_fill_queue i curr_page to_add seg of (c, t, s) \<Rightarrow> init_fill i c t s)"

definition pm_seg_init :: "nat \<Rightarrow> nat \<Rightarrow> nat \<Rightarrow> nat \<Rightarrow> pm_seg result" where
  "pm_seg_init ctz0 start end' vm_offset =
     (if \<not> start < end' then Inl (Assertion ''start < end'')
      else if \<not> is_aligned start PAGESIZE then Inl (Assertion ''is_aligned(start, PAGESIZE)'')
      else if \<not> is_aligned end' PAGESIZE then Inl (Assertion ''is_aligned(end, PAGESIZE)'')
      else if \<not> is_aligned vm_offset PAGESIZE then Inl (Assertion ''is_aligned(vm_offset, PAGESIZE)'')
      else
        let n = (end' - start) div PAGESIZE;
            max_size = min PM_NQUEUES (ffs n) - 1
        in Inr (init_fill PM_NQUEUES 0 n
             \<lparr>seg_start = start, seg_end = end', freeq = replicate PM_NQUEUES [], npages = n,
              pages = map (init_page ctz0 max_size start vm_offset) [0..<n]\<rparr>))"

subsection \<open>Buddies\<close>

definition pm_merge_buddies :: "nat \<Rightarrow> nat \<Rightarrow> pm_seg \<Rightarrow> (nat \<times> pm_seg) result" where
  "pm_merge_buddies pg1 pg2 seg =
     (if pg_size (pages seg ! pg1) \<noteq> pg_size (pages seg ! pg2)
      then Inl (Assertion ''pg1->size == pg2->size'')
      else
        let a = min pg1 pg2; b = max pg1 pg2
        in if a + pg_size (pages seg ! a) \<noteq> b then Inl (Assertion ''pg1 + pg1->size == pg2'')
           else Inr (a, upd_page a (pg_size_update (\<lambda>s. s * 2)) seg))"

definition pm_find_buddy :: "pm_seg \<Rightarrow> nat \<Rightarrow> nat option result" where
  "pm_find_buddy seg pg =
     (let sz = pg_size (pages seg ! pg)
      in if \<not> powerof2 sz then Inl (Assertion ''powerof2(pg->size)'')
         else
           let index = (if pg mod (2 * sz) = 0 then int pg + int sz else int pg - int sz)
           in if index < 0 \<or> int (npages seg) \<le> index then Inr None
              else if pg_size (pages seg ! nat index) \<noteq> sz then Inr None
              else if \<not> pm_managed (pages seg ! nat index) then Inr None
              else Inr (Some (nat index)))"

definition pm_split_page :: "nat \<Rightarrow> pm_seg \<Rightarrow> pm_seg result" where
  "pm_split_page page seg =
     (let old = pg_size (pages seg ! page); half = old div 2; buddy = page + half
      in if \<not> 1 < old then Inl (Assertion ''page->size > 1'')
         else if PM_NQUEUES \<le> PM_QUEUE_OF seg page then Inl (Undefined ''freeq index'')
         else if freeq seg ! PM_QUEUE_OF seg page = [] then Inl (Assertion ''!TAILQ_EMPTY'')
         else if npages seg \<le> buddy then Inl (Undefined ''pages index'')
         else if pm_allocated (pages seg ! buddy) then Inl (Assertion ''!(PM_ALLOCATED)'')
         else
           case freeq_remove (PM_QUEUE_OF seg page) page seg of
             Inl e \<Rightarrow> Inl e
           | Inr seg1 \<Rightarrow>
               let seg2 = upd_page buddy (pg_size_update (\<lambda>_. half))
                            (upd_page page (pg_size_update (\<lambda>_. half)) seg1)
               in case freeq_insert_head (PM_QUEUE_OF seg2 page) page seg2 of
                    Inl e \<Rightarrow> Inl e
                  | Inr seg3 \<Rightarrow>
                      (case freeq_insert_head (PM_QUEUE_OF seg3 buddy) buddy seg3 of
                         Inl e \<Rightarrow> Inl e
                       | Inr seg4 \<Rightarrow> Inr (upd_page buddy (pm_managed_update (\<lambda>_. True)) seg4)))"

subsection \<open>Allocation\<close>

text \<open>
  The search for the lowest non-empty queue. The source also looks at \<open>freeq[16]\<close> before it
  checks the index; what it reads there does not change where the loop stops.
\<close>

function find_queue :: "pm_seg \<Rightarrow> nat \<Rightarrow> nat" where
  "find_queue seg i = (if i < PM_NQUEUES \<and> freeq seg ! i = [] then find_queue seg (Suc i) else i)"
  by pat_completeness auto
termination
  by (relation "measure (\<lambda>(s, i). PM_NQUEUES - i)") auto

declare find_queue.simps [simp del]

text \<open>The \<open>do { pg->pm_flags |= \<dots>; pg++; } while (--n)\<close> loops: \<open>n = 0\<close> would run off the array.\<close>

definition mark_pages :: "nat \<Rightarrow> nat \<Rightarrow> (vm_page \<Rightarrow> vm_page) \<Rightarrow> pm_seg \<Rightarrow> pm_seg result" where
  "mark_pages p n f seg =
     (if n = 0 \<or> npages seg < p + n then Inl (Undefined ''pages index'')
      else Inr (upd_pages p n f seg))"

fun alloc_loop :: "nat \<Rightarrow> nat \<Rightarrow> pm_seg \<Rightarrow> (nat \<times> pm_seg) result" where
  "alloc_loop i j seg =
     (case freeq seg ! i of
        [] \<Rightarrow> Inl (Undefined ''page is NULL'')
      | page # _ \<Rightarrow>
          if i = j then
            (case freeq_remove i page seg of
               Inl e \<Rightarrow> Inl e
             | Inr seg1 \<Rightarrow>
                 let seg2 = upd_page page (pm_managed_update (\<lambda>_. False)) seg1
                 in case mark_pages page (pg_size (pages seg2 ! page))
                           (pm_allocated_update (\<lambda>_. True)) seg2 of
                      Inl e \<Rightarrow> Inl e
                    | Inr seg3 \<Rightarrow> Inr (page, seg3))
          else
            case pm_split_page page seg of
              Inl e \<Rightarrow> Inl e
            | Inr seg1 \<Rightarrow> (case i of 0 \<Rightarrow> Inl (Undefined ''freeq index'') | Suc i' \<Rightarrow> alloc_loop i' j seg1))"

declare alloc_loop.simps [simp del]

definition pm_alloc_from_seg :: "nat \<Rightarrow> pm_seg \<Rightarrow> (nat option \<times> pm_seg) result" where
  "pm_alloc_from_seg n seg =
     (let j = log2 n; i = find_queue seg j
      in if i = PM_NQUEUES then Inr (None, seg)
         else if PM_NQUEUES < i then Inl (Undefined ''freeq index'')
         else
           case alloc_loop i j seg of
             Inl e \<Rightarrow> Inl e
           | Inr (page, seg1) \<Rightarrow> Inr (Some page, seg1))"

text \<open>\<open>pm_alloc\<close> tries the segments in order. A page of segment number \<open>k\<close> is the pair of \<open>k\<close> and its index.\<close>

fun alloc_segs :: "nat \<Rightarrow> pm_seg list \<Rightarrow> ((nat \<times> nat) option \<times> pm_seg list) result" where
  "alloc_segs n [] = Inr (None, [])"
| "alloc_segs n (seg # segs) =
     (case pm_alloc_from_seg n seg of
        Inl e \<Rightarrow> Inl e
      | Inr (Some page, seg1) \<Rightarrow> Inr (Some (0, page), seg1 # segs)
      | Inr (None, seg1) \<Rightarrow>
          (case alloc_segs n segs of
             Inl e \<Rightarrow> Inl e
           | Inr (r, segs1) \<Rightarrow> Inr (map_option (\<lambda>(k, page). (Suc k, page)) r, seg1 # segs1)))"

definition pm_alloc :: "nat \<Rightarrow> pm_seg list \<Rightarrow> ((nat \<times> nat) option \<times> pm_seg list) result" where
  "pm_alloc n seglist =
     (if \<not> (0 < n \<and> powerof2 n) then Inl (Assertion ''(npages > 0) && powerof2(npages)'')
      else alloc_segs n seglist)"

subsection \<open>Freeing\<close>

definition queued :: "pm_seg \<Rightarrow> nat" where
  "queued seg = sum_list (map length (freeq seg))"

lemma freeq_remove_queued:
  assumes "freeq_remove i p seg = Inr seg'"
  shows "queued seg' < queued seg"
proof -
  from assms have i: "i < length (freeq seg)" and p: "p \<in> set (freeq seg ! i)"
    and s: "seg' = seg\<lparr>freeq := (freeq seg)[i := remove1 p (freeq seg ! i)]\<rparr>"
    by (auto simp: freeq_remove_def split: if_splits)
  from p have l: "length (remove1 p (freeq seg ! i)) < length (freeq seg ! i)"
    using length_pos_if_in_set [OF p] by (simp add: length_remove1)
  have "sum_list (map length ((freeq seg)[i := remove1 p (freeq seg ! i)])) < sum_list (map length (freeq seg))"
    using i l elem_le_sum_list [of i "map length (freeq seg)"] by (simp add: map_update sum_list_update)
  then show ?thesis by (simp add: queued_def s)
qed

lemma queued_upd_page [simp]: "queued (upd_page p f seg) = queued seg"
  by (simp add: queued_def upd_page_def)

lemma pm_merge_buddies_queued: "pm_merge_buddies p q seg = Inr (r, seg') \<Longrightarrow> queued seg' = queued seg"
  by (auto simp: pm_merge_buddies_def Let_def split: if_splits)

function free_loop :: "nat \<Rightarrow> pm_seg \<Rightarrow> pm_seg result" where
  "free_loop page seg =
     (case pm_find_buddy seg page of
        Inl e \<Rightarrow> Inl e
      | Inr None \<Rightarrow>
          (case freeq_insert_head (PM_QUEUE_OF seg page) page seg of
             Inl e \<Rightarrow> Inl e
           | Inr seg1 \<Rightarrow>
               let seg2 = upd_page page (pm_managed_update (\<lambda>_. True)) seg1
               in mark_pages page (pg_size (pages seg2 ! page)) (pm_allocated_update (\<lambda>_. False)) seg2)
      | Inr (Some buddy) \<Rightarrow>
          (case freeq_remove (PM_QUEUE_OF seg buddy) buddy seg of
             Inl e \<Rightarrow> Inl e
           | Inr seg1 \<Rightarrow>
               (case pm_merge_buddies page buddy (upd_page buddy (pm_managed_update (\<lambda>_. False)) seg1) of
                  Inl e \<Rightarrow> Inl e
                | Inr (page', seg2) \<Rightarrow> free_loop page' seg2)))"
  by pat_completeness auto
termination
  by (relation "measure (\<lambda>(p, s). queued s)")
    (auto dest!: freeq_remove_queued pm_merge_buddies_queued)

declare free_loop.simps [simp del]

text \<open>
  \<open>pm_free_from_seg\<close> also clears the freed memory; the second component of its result is the
  region the \<open>memset\<close> writes.
\<close>

definition pm_free_from_seg :: "nat \<Rightarrow> pm_seg \<Rightarrow> (pm_seg \<times> (nat \<times> nat)) result" where
  "pm_free_from_seg page seg =
     (let pg = pages seg ! page
      in if pm_reserved pg then Inl (Panic ''trying to free reserved page'')
         else if \<not> pm_allocated pg then Inl (Panic ''page is already free'')
         else
           case free_loop page seg of
             Inl e \<Rightarrow> Inl e
           | Inr seg1 \<Rightarrow> Inr (seg1, (pg_vaddr pg, PG_SIZE pg)))"

text \<open>The segment \<open>pm_free\<close> searches by address must be the one the page belongs to.\<close>

fun seg_of_page :: "vm_page \<Rightarrow> pm_seg list \<Rightarrow> nat option" where
  "seg_of_page pg [] = None"
| "seg_of_page pg (seg # segs) =
     (if seg_start seg \<le> PG_START pg \<and> PG_END pg \<le> seg_end seg then Some 0
      else map_option Suc (seg_of_page pg segs))"

definition pm_free :: "nat \<times> nat \<Rightarrow> pm_seg list \<Rightarrow> (pm_seg list \<times> (nat \<times> nat)) result" where
  "pm_free ref seglist =
     (case ref of (k, page) \<Rightarrow>
        case seg_of_page (pages (seglist ! k) ! page) seglist of
          None \<Rightarrow> Inl (Panic ''page out of range'')
        | Some k' \<Rightarrow>
            if k' \<noteq> k then Inl (Undefined ''page of another segment'')
            else
              case pm_free_from_seg page (seglist ! k) of
                Inl e \<Rightarrow> Inl e
              | Inr (seg1, cleared) \<Rightarrow> Inr (seglist[k := seg1], cleared))"

definition pm_split_alloc_page :: "nat \<Rightarrow> pm_seg \<Rightarrow> (nat \<times> pm_seg) result" where
  "pm_split_alloc_page pg seg =
     (let old = pg_size (pages seg ! pg); half = old div 2; buddy = pg + half
      in if \<not> 1 < old then Inl (Assertion ''pg->size > 1'')
         else if \<not> pm_allocated (pages seg ! pg) then Inl (Assertion ''pg->pm_flags & PM_ALLOCATED'')
         else if npages seg \<le> buddy then Inl (Undefined ''pages index'')
         else Inr (buddy, upd_page buddy (pg_size_update (\<lambda>_. half))
                            (upd_page pg (pg_size_update (\<lambda>_. half)) seg)))"

subsection \<open>Reserving a range\<close>

text \<open>
  \<open>pm_seg_reserve\<close> walks the queues from the largest pages down. \<open>rest\<close> is the part of
  queue \<open>i\<close> the cursor \<open>pg\<close> has still to visit; after a removal or a split the
  source starts again at the head of the queue.
\<close>

partial_function (option) reserve_queue ::
  "nat \<Rightarrow> nat \<Rightarrow> nat \<Rightarrow> nat list \<Rightarrow> pm_seg \<Rightarrow> pm_seg result option" where
  "reserve_queue start end' i rest seg =
     (case rest of
        [] \<Rightarrow> Some (Inr seg)
      | pg # rest' \<Rightarrow>
          let p = pages seg ! pg
          in if start \<le> PG_START p \<and> PG_END p \<le> end' then
               (case freeq_remove i pg seg of
                  Inl e \<Rightarrow> Some (Inl e)
                | Inr seg1 \<Rightarrow>
                    (case mark_pages pg (pg_size p)
                            (\<lambda>q. q\<lparr>pm_reserved := True, pm_allocated := False, pm_managed := False\<rparr>)
                            (upd_page pg (pm_managed_update (\<lambda>_. False)) seg1) of
                       Inl e \<Rightarrow> Some (Inl e)
                     | Inr seg2 \<Rightarrow> reserve_queue start end' i (freeq seg2 ! i) seg2))
             else if (PG_START p < start \<and> start < PG_END p) \<or> (PG_START p < end' \<and> end' < PG_END p) then
               (case pm_split_page pg seg of
                  Inl e \<Rightarrow> Some (Inl e)
                | Inr seg1 \<Rightarrow> reserve_queue start end' i (freeq seg1 ! i) seg1)
             else reserve_queue start end' i rest' seg)"

fun reserve_queues :: "nat \<Rightarrow> nat \<Rightarrow> nat \<Rightarrow> pm_seg \<Rightarrow> pm_seg result option" where
  "reserve_queues start end' 0 seg = Some (Inr seg)"
| "reserve_queues start end' (Suc i) seg =
     (case reserve_queue start end' i (freeq seg ! i) seg of
        None \<Rightarrow> None
      | Some (Inl e) \<Rightarrow> Some (Inl e)
      | Some (Inr seg1) \<Rightarrow> reserve_queues start end' i seg1)"

definition pm_seg_reserve :: "nat \<Rightarrow> nat \<Rightarrow> pm_seg \<Rightarrow> pm_seg result option" where
  "pm_seg_reserve start end' seg =
     (if \<not> start < end' then Some (Inl (Assertion ''start < end''))
      else if \<not> is_aligned start PAGESIZE then Some (Inl (Assertion ''is_aligned(start, PAGESIZE)''))
      else if \<not> is_aligned end' PAGESIZE then Some (Inl (Assertion ''is_aligned(end, PAGESIZE)''))
      else if \<not> (seg_start seg \<le> start \<and> end' \<le> seg_end seg)
      then Some (Inl (Assertion ''seg->start <= start && end <= seg->end''))
      else reserve_queues start end' PM_NQUEUES seg)"

subsection \<open>The list of segments and the state hash\<close>

definition pm_init :: "pm_seg list" where
  "pm_init = []"

definition pm_add_segment :: "pm_seg \<Rightarrow> pm_seg list \<Rightarrow> pm_seg list" where
  "pm_add_segment seg seglist = seglist @ [seg]"

definition pm_hash :: "pm_seg list \<Rightarrow> u32" where
  "pm_hash seglist =
     fold (\<lambda>seg h. fold (\<lambda>q h. fold (\<lambda>pg h. h * 33 + of_nat (PG_START (pages seg ! pg))) q h)
                       (freeq seg) h)
       seglist 5381"

end
