(* ===== verification/Phys_Mem_Inv.thy ===== *)
theory Phys_Mem_Inv
  imports Phys_Mem
begin

text \<open>
  The invariant of the buddy allocator and the properties of its operations. \<open>seg_inv H seg\<close> is
  the invariant of a segment outside of a set \<open>H\<close> of pages an operation holds in its hands; between
  operations \<open>H\<close> is empty. Every operation is a sequence of a few moves (take a block off its
  queue, put one back, resize a page in \<open>H\<close>, change flags in \<open>H\<close>), each of which keeps the
  invariant.
\<close>

section \<open>The invariant\<close>

definition free_blocks :: "pm_seg \<Rightarrow> (nat \<times> nat) set" where
  "free_blocks seg = {(p, i). i < length (freeq seg) \<and> p \<in> set (freeq seg ! i)}"

abbreviation free_page :: "pm_seg \<Rightarrow> nat \<Rightarrow> bool" where
  "free_page seg q \<equiv> \<not> pm_allocated (pages seg ! q) \<and> \<not> pm_reserved (pages seg ! q)"

definition seg_layout :: "pm_seg \<Rightarrow> bool" where
  "seg_layout seg \<longleftrightarrow>
     length (freeq seg) = PM_NQUEUES \<and> length (pages seg) = npages seg \<and>
     (\<forall>i < PM_NQUEUES. distinct (freeq seg ! i)) \<and>
     seg_end seg = seg_start seg + PAGESIZE * npages seg \<and> seg_end seg < 2 ^ 32 \<and>
     PAGESIZE dvd seg_start seg \<and>
     (\<forall>q < npages seg. pg_paddr (pages seg ! q) = seg_start seg + PAGESIZE * q)"

definition seg_inv :: "nat set \<Rightarrow> pm_seg \<Rightarrow> bool" where
  "seg_inv H seg \<longleftrightarrow>
     seg_layout seg \<and>
     (\<forall>p i. (p, i) \<in> free_blocks seg \<longrightarrow>
        2 ^ i dvd p \<and> p + 2 ^ i \<le> npages seg \<and> pg_size (pages seg ! p) = 2 ^ i \<and>
        pm_managed (pages seg ! p) \<and> blk p i \<inter> H = {}) \<and>
     (\<forall>p < npages seg. pm_managed (pages seg ! p) \<longrightarrow> (\<exists>i. (p, i) \<in> free_blocks seg)) \<and>
     (\<forall>p i q j. (p, i) \<in> free_blocks seg \<longrightarrow> (q, j) \<in> free_blocks seg \<longrightarrow> (p, i) \<noteq> (q, j) \<longrightarrow>
        blk p i \<inter> blk q j = {}) \<and>
     (\<forall>q < npages seg. q \<notin> H \<longrightarrow>
        (\<exists>p i. (p, i) \<in> free_blocks seg \<and> q \<in> blk p i) = free_page seg q)"

text \<open>The abstraction: the set of pages that can still be handed out.\<close>

definition free_pages :: "pm_seg \<Rightarrow> nat set" where
  "free_pages seg = {q. q < npages seg \<and> free_page seg q}"

text \<open>The block a client holds after \<open>pm_alloc\<close>.\<close>

definition alloc_block :: "pm_seg \<Rightarrow> nat \<Rightarrow> nat \<Rightarrow> bool" where
  "alloc_block seg p k \<longleftrightarrow>
     2 ^ k dvd p \<and> p + 2 ^ k \<le> npages seg \<and> pg_size (pages seg ! p) = 2 ^ k \<and>
     (\<forall>q \<in> blk p k. pm_allocated (pages seg ! q) \<and> \<not> pm_reserved (pages seg ! q))"

text \<open>No two buddies are both free: what \<open>pm_free\<close> merges for.\<close>

definition coalesced :: "pm_seg \<Rightarrow> bool" where
  "coalesced seg \<longleftrightarrow>
     (\<forall>p k. 2 ^ Suc k dvd p \<longrightarrow> (p, k) \<in> free_blocks seg \<longrightarrow> (p + 2 ^ k, k) \<notin> free_blocks seg)"

section \<open>The moves\<close>

definition take_blk :: "nat \<Rightarrow> nat \<Rightarrow> pm_seg \<Rightarrow> pm_seg" where
  "take_blk p i seg =
     upd_page p (pm_managed_update (\<lambda>_. False)) (seg\<lparr>freeq := (freeq seg)[i := remove1 p (freeq seg ! i)]\<rparr>)"

definition put_blk :: "nat \<Rightarrow> nat \<Rightarrow> pm_seg \<Rightarrow> pm_seg" where
  "put_blk p i seg =
     upd_page p (pm_managed_update (\<lambda>_. True)) (seg\<lparr>freeq := (freeq seg)[i := p # (freeq seg ! i)]\<rparr>)"

definition resize :: "nat \<Rightarrow> nat \<Rightarrow> pm_seg \<Rightarrow> pm_seg" where
  "resize p n = upd_page p (pg_size_update (\<lambda>_. n))"

lemma upd_page_fields [simp]:
  "freeq (upd_page p f seg) = freeq seg" "npages (upd_page p f seg) = npages seg"
  "seg_start (upd_page p f seg) = seg_start seg" "seg_end (upd_page p f seg) = seg_end seg"
  "length (pages (upd_page p f seg)) = length (pages seg)"
  "q < length (pages seg) \<Longrightarrow>
     pages (upd_page p f seg) ! q = (if p = q then f (pages seg ! q) else pages seg ! q)"
  by (auto simp: upd_page_def)

lemma upd_pages_fields [simp]:
  "freeq (upd_pages p n f seg) = freeq seg" "npages (upd_pages p n f seg) = npages seg"
  "seg_start (upd_pages p n f seg) = seg_start seg" "seg_end (upd_pages p n f seg) = seg_end seg"
  "length (pages (upd_pages p n f seg)) = length (pages seg)"
  "q < length (pages seg) \<Longrightarrow>
     pages (upd_pages p n f seg) ! q =
       (if p \<le> q \<and> q < p + n then f (pages seg ! q) else pages seg ! q)"
  by (auto simp: upd_pages_def)

lemma seg_eqI:
  assumes "freeq s = freeq t" and "npages s = npages t" and "seg_start s = seg_start t"
    and "seg_end s = seg_end t" and "length (pages s) = length (pages t)"
    and "\<And>q. q < length (pages t) \<Longrightarrow> pages s ! q = pages t ! q"
  shows "s = (t :: pm_seg)"
  using assms by (intro pm_seg.equality) (auto intro: nth_equalityI)

lemma free_blocks_upd [simp]:
  "free_blocks (upd_page p f seg) = free_blocks seg"
  "free_blocks (upd_pages p n f seg) = free_blocks seg"
  "free_blocks (resize p n seg) = free_blocks seg"
  by (simp_all add: free_blocks_def resize_def)

lemma free_blocks_put:
  "i < length (freeq seg) \<Longrightarrow> free_blocks (put_blk p i seg) = insert (p, i) (free_blocks seg)"
  by (auto simp: free_blocks_def put_blk_def split: if_splits)

lemma free_blocks_take:
  "distinct (freeq seg ! i) \<Longrightarrow> free_blocks (take_blk p i seg) = free_blocks seg - {(p, i)}"
  by (auto simp: free_blocks_def take_blk_def split: if_splits)

lemma seg_invD:
  assumes "seg_inv H seg"
  shows "seg_layout seg"
    and "(p, i) \<in> free_blocks seg \<Longrightarrow> 2 ^ i dvd p"
    and "(p, i) \<in> free_blocks seg \<Longrightarrow> p + 2 ^ i \<le> npages seg"
    and "(p, i) \<in> free_blocks seg \<Longrightarrow> pg_size (pages seg ! p) = 2 ^ i"
    and "(p, i) \<in> free_blocks seg \<Longrightarrow> pm_managed (pages seg ! p)"
    and "(p, i) \<in> free_blocks seg \<Longrightarrow> blk p i \<inter> H = {}"
    and "p < npages seg \<Longrightarrow> pm_managed (pages seg ! p) \<Longrightarrow> \<exists>i. (p, i) \<in> free_blocks seg"
    and "(p, i) \<in> free_blocks seg \<Longrightarrow> (q, j) \<in> free_blocks seg \<Longrightarrow> (p, i) \<noteq> (q, j) \<Longrightarrow>
           blk p i \<inter> blk q j = {}"
    and "q < npages seg \<Longrightarrow> q \<notin> H \<Longrightarrow>
           (\<exists>p i. (p, i) \<in> free_blocks seg \<and> q \<in> blk p i) = free_page seg q"
  using assms unfolding seg_inv_def by blast+

lemma free_blocks_bound: "seg_layout seg \<Longrightarrow> (p, i) \<in> free_blocks seg \<Longrightarrow> i < PM_NQUEUES"
  by (simp add: free_blocks_def seg_layout_def)

lemma free_blocks_less:
  assumes "seg_inv H seg" "(p, i) \<in> free_blocks seg" shows "p < npages seg"
  using seg_invD(3) [OF assms] less_le_trans [of p "p + 2 ^ i"] by simp

lemma block_free:
  assumes "seg_inv H seg" "(p, i) \<in> free_blocks seg" "q \<in> blk p i"
  shows "free_page seg q" and "q < npages seg" and "q \<notin> H"
proof -
  show q: "q < npages seg" using seg_invD(3) [OF assms(1,2)] assms(3) by (simp add: mem_blk)
  show h: "q \<notin> H" using seg_invD(6) [OF assms(1,2)] assms(3) by blast
  show "free_page seg q" using seg_invD(9) [OF assms(1) q h] assms(2,3) by blast
qed

text \<open>A page in hand is not the head of a free block.\<close>

lemma hole_not_head:
  assumes "seg_inv H seg" "q \<in> H" shows "(q, i) \<notin> free_blocks seg"
  using seg_invD(6) [OF assms(1), of q i] assms(2) blk_self [of q i] by blast

lemma hole_not_managed:
  assumes "seg_inv H seg" "q \<in> H" "q < npages seg" shows "\<not> pm_managed (pages seg ! q)"
  using seg_invD(7) [OF assms(1,3)] hole_not_head [OF assms(1,2)] by blast

lemma take_blk_inv:
  assumes inv: "seg_inv H seg" and b: "(p, i) \<in> free_blocks seg"
  shows "seg_inv (H \<union> blk p i) (take_blk p i seg)"
proof -
  let ?s = "take_blk p i seg"
  have lay: "seg_layout seg" using inv by (rule seg_invD)
  have d: "distinct (freeq seg ! i)"
    using lay free_blocks_bound [OF lay b] by (simp add: seg_layout_def)
  note fb = free_blocks_take [OF d, of p]
  have pg: "pages ?s ! q = (if p = q then pm_managed_update (\<lambda>_. False) (pages seg ! q) else pages seg ! q)"
    if "q < npages seg" for q
    using that lay by (simp add: take_blk_def seg_layout_def)
  have n: "npages ?s = npages seg" by (simp add: take_blk_def)
  have lay': "seg_layout ?s"
    using lay unfolding seg_layout_def by (auto simp: take_blk_def)
  have single: "j = i" if "(p, j) \<in> free_blocks seg" for j
    using seg_invD(4) [OF inv b] seg_invD(4) [OF inv that] by simp
  have blocks: "2 ^ j dvd q \<and> q + 2 ^ j \<le> npages ?s \<and> pg_size (pages ?s ! q) = 2 ^ j \<and>
      pm_managed (pages ?s ! q) \<and> blk q j \<inter> (H \<union> blk p i) = {}"
    if "(q, j) \<in> free_blocks ?s" for q j
  proof -
    from that have qj: "(q, j) \<in> free_blocks seg" "(q, j) \<noteq> (p, i)" by (auto simp: fb)
    with single have "q \<noteq> p" by auto
    moreover note seg_invD(2-6) [OF inv qj(1)] seg_invD(8) [OF inv qj(1) b qj(2)]
      free_blocks_less [OF inv qj(1)]
    ultimately show ?thesis by (auto simp: pg n)
  qed
  have managed: "\<exists>j. (q, j) \<in> free_blocks ?s" if "q < npages ?s" "pm_managed (pages ?s ! q)" for q
    using that seg_invD(7) [OF inv, of q] by (auto simp: fb n pg split: if_splits)
  have cover: "(\<exists>a j. (a, j) \<in> free_blocks ?s \<and> q \<in> blk a j) = free_page ?s q"
    if "q < npages ?s" "q \<notin> H \<union> blk p i" for q
  proof -
    have "(\<exists>a j. (a, j) \<in> free_blocks ?s \<and> q \<in> blk a j) = (\<exists>a j. (a, j) \<in> free_blocks seg \<and> q \<in> blk a j)"
      using that(2) by (auto simp: fb)
    also have "\<dots> = free_page seg q" using seg_invD(9) [OF inv] that by (simp add: n)
    also have "\<dots> = free_page ?s q" using that(1) by (simp add: pg n)
    finally show ?thesis .
  qed
  show ?thesis
    unfolding seg_inv_def using lay' blocks managed cover seg_invD(8) [OF inv]
    by (auto simp: fb)
qed

lemma put_blk_inv:
  assumes inv: "seg_inv H seg" and i: "i < PM_NQUEUES" and al: "2 ^ i dvd p"
    and r: "p + 2 ^ i \<le> npages seg" and sz: "pg_size (pages seg ! p) = 2 ^ i" and h: "blk p i \<subseteq> H"
    and free: "\<And>q. q \<in> blk p i \<Longrightarrow> free_page seg q"
  shows "seg_inv (H - blk p i) (put_blk p i seg)"
proof -
  let ?s = "put_blk p i seg"
  have lay: "seg_layout seg" using inv by (rule seg_invD)
  have i': "i < length (freeq seg)" using lay i by (simp add: seg_layout_def)
  note fb = free_blocks_put [OF i', of p]
  have p: "p < npages seg" "p \<in> H" using less_le_trans [OF _ r] h blk_self by auto
  have pg: "pages ?s ! q = (if p = q then pm_managed_update (\<lambda>_. True) (pages seg ! q) else pages seg ! q)"
    if "q < npages seg" for q
    using that lay by (simp add: put_blk_def seg_layout_def)
  have n: "npages ?s = npages seg" by (simp add: put_blk_def)
  have fresh: "(p, j) \<notin> free_blocks seg" for j using hole_not_head [OF inv p(2)] .
  then have "p \<notin> set (freeq seg ! i)" using i' by (simp add: free_blocks_def)
  then have lay': "seg_layout ?s"
    using lay unfolding seg_layout_def by (auto simp: put_blk_def)
  have blocks: "2 ^ j dvd q \<and> q + 2 ^ j \<le> npages ?s \<and> pg_size (pages ?s ! q) = 2 ^ j \<and>
      pm_managed (pages ?s ! q) \<and> blk q j \<inter> (H - blk p i) = {}"
    if "(q, j) \<in> free_blocks ?s" for q j
  proof (cases "(q, j) = (p, i)")
    case True
    with al r sz p show ?thesis by (auto simp: pg n)
  next
    case False
    with that have qj: "(q, j) \<in> free_blocks seg" by (auto simp: fb)
    with seg_invD(2-6) [OF inv this] free_blocks_less [OF inv this] show ?thesis
      by (auto simp: pg n)
  qed
  have managed: "\<exists>j. (q, j) \<in> free_blocks ?s" if "q < npages ?s" "pm_managed (pages ?s ! q)" for q
    using that seg_invD(7) [OF inv, of q] by (auto simp: fb n pg split: if_splits)
  have apart: "blk p i \<inter> blk q j = {}" if "(q, j) \<in> free_blocks seg" for q j
    using seg_invD(6) [OF inv that] h by blast
  have cover: "(\<exists>a j. (a, j) \<in> free_blocks ?s \<and> q \<in> blk a j) = free_page ?s q"
    if "q < npages ?s" "q \<notin> H - blk p i" for q
  proof (cases "q \<in> blk p i")
    case True
    with free [OF True] that(1) show ?thesis by (auto simp: fb pg n)
  next
    case False
    then have "(\<exists>a j. (a, j) \<in> free_blocks ?s \<and> q \<in> blk a j) = free_page seg q"
      using seg_invD(9) [OF inv, of q] that by (auto simp: fb n)
    with that(1) show ?thesis by (simp add: pg n)
  qed
  have disj: "blk a j \<inter> blk b k = {}"
    if "(a, j) \<in> free_blocks ?s" "(b, k) \<in> free_blocks ?s" "(a, j) \<noteq> (b, k)" for a j b k
    using that apart seg_invD(8) [OF inv, of a j b k] by (auto simp: fb)
  show ?thesis
    unfolding seg_inv_def using lay' blocks managed cover disj by blast
qed

text \<open>
  Changes of pages in hand: \<open>f\<close> keeps the address and the \<open>PM_MANAGED\<close> bit of every page,
  and \<open>P\<close> picks pages of \<open>H\<close>.
\<close>

lemma hole_upd_inv:
  assumes inv: "seg_inv H seg" and n: "npages t = npages seg" and q: "freeq t = freeq seg"
    and s: "seg_start t = seg_start seg" "seg_end t = seg_end seg"
    and l: "length (pages t) = length (pages seg)"
    and out: "\<And>q. q < npages seg \<Longrightarrow> q \<notin> H \<Longrightarrow> pages t ! q = pages seg ! q"
    and ino: "\<And>q. q < npages seg \<Longrightarrow> q \<in> H \<Longrightarrow> pg_paddr (pages t ! q) = pg_paddr (pages seg ! q) \<and>
                pm_managed (pages t ! q) = pm_managed (pages seg ! q)"
  shows "seg_inv H t"
proof -
  have fb: "free_blocks t = free_blocks seg" by (simp add: free_blocks_def q)
  have lay: "seg_layout seg" using inv by (rule seg_invD)
  have addr: "pg_paddr (pages t ! q) = pg_paddr (pages seg ! q)" if "q < npages seg" for q
    using out [OF that] ino [OF that] by (cases "q \<in> H") auto
  with lay have lay': "seg_layout t"
    unfolding seg_layout_def by (simp add: n q s l)
  have same: "pages t ! p = pages seg ! p" if "(p, i) \<in> free_blocks seg" for p i
    using out [OF free_blocks_less [OF inv that]] hole_not_head [OF inv, of p i] that by blast
  have managed: "pm_managed (pages t ! q) = pm_managed (pages seg ! q)" if "q < npages seg" for q
    using out [OF that] ino [OF that] by (cases "q \<in> H") auto
  show ?thesis
    unfolding seg_inv_def
    using lay' seg_invD(2-8) [OF inv] seg_invD(9) [OF inv] same managed out
    by (auto simp: fb n)
qed

lemma resize_inv: "seg_inv H seg \<Longrightarrow> p \<in> H \<Longrightarrow> seg_inv H (resize p m seg)"
  unfolding resize_def
  by (rule hole_upd_inv, assumption) (auto dest!: seg_invD(1) simp: seg_layout_def split: if_splits)

lemma flags_inv:
  assumes "seg_inv H seg" and "{p ..< p + m} \<subseteq> H"
    and "\<And>x. pg_paddr (f x) = pg_paddr x" and "\<And>x. pm_managed (f x) = pm_managed x"
  shows "seg_inv H (upd_pages p m f seg)"
  using assms(1)
proof (rule hole_upd_inv)
  have l: "length (pages seg) = npages seg"
    using seg_invD(1) [OF assms(1)] by (simp add: seg_layout_def)
  fix q assume "q < npages seg"
  with assms(2-) l show "q \<notin> H \<Longrightarrow> pages (upd_pages p m f seg) ! q = pages seg ! q"
    and "pg_paddr (pages (upd_pages p m f seg) ! q) = pg_paddr (pages seg ! q) \<and>
          pm_managed (pages (upd_pages p m f seg) ! q) = pm_managed (pages seg ! q)"
    by (auto simp: subset_iff)
qed simp_all

text \<open>Pages that are allocated or reserved can leave or enter the set in hand.\<close>

lemma close_hole:
  assumes inv: "seg_inv H seg" and used: "\<And>q. q \<in> B \<Longrightarrow> q < npages seg \<Longrightarrow> \<not> free_page seg q"
    and "B \<subseteq> H"
  shows "seg_inv (H - B) seg"
proof -
  have "(\<exists>p i. (p, i) \<in> free_blocks seg \<and> q \<in> blk p i) = free_page seg q"
    if "q < npages seg" "q \<notin> H - B" for q
  proof (cases "q \<in> B")
    case True
    with assms(3) seg_invD(6) [OF inv] have "\<not> (\<exists>p i. (p, i) \<in> free_blocks seg \<and> q \<in> blk p i)" by blast
    with used [OF True that(1)] show ?thesis by blast
  next
    case False
    with that seg_invD(9) [OF inv] show ?thesis by blast
  qed
  then show ?thesis
    unfolding seg_inv_def using seg_invD(1-8) [OF inv] by blast
qed

lemma open_hole:
  assumes inv: "seg_inv H seg" and used: "\<And>q. q \<in> B \<Longrightarrow> q < npages seg \<and> \<not> free_page seg q"
    and "H \<inter> B = {}"
  shows "seg_inv (H \<union> B) seg"
proof -
  have "blk p i \<inter> (H \<union> B) = {}" if "(p, i) \<in> free_blocks seg" for p i
    using seg_invD(6) [OF inv that] seg_invD(9) [OF inv] used assms(3) that by blast
  then show ?thesis
    unfolding seg_inv_def using seg_invD(1-5,7-9) [OF inv] by blast
qed

section \<open>Operations as sequences of moves\<close>

lemma layout_lengths:
  assumes "seg_layout seg"
  shows "length (freeq seg) = PM_NQUEUES" "length (pages seg) = npages seg"
    "i < PM_NQUEUES \<Longrightarrow> distinct (freeq seg ! i)"
  using assms by (simp_all add: seg_layout_def)

lemma freeq_remove_ok:
  assumes "seg_layout seg" "(p, i) \<in> free_blocks seg"
  shows "freeq_remove i p seg = Inr (seg\<lparr>freeq := (freeq seg)[i := remove1 p (freeq seg ! i)]\<rparr>)"
  using assms by (auto simp: freeq_remove_def free_blocks_def)

lemma queue_of_block:
  assumes "seg_inv H seg" "(p, i) \<in> free_blocks seg" shows "PM_QUEUE_OF seg p = i"
  using seg_invD(4) [OF assms] by (simp add: PM_QUEUE_OF_def)

text \<open>The fields of a page other than its size and its \<open>PM_MANAGED\<close> bit.\<close>

definition same_flags :: "pm_seg \<Rightarrow> pm_seg \<Rightarrow> bool" where
  "same_flags s t \<longleftrightarrow> npages s = npages t \<and>
     (\<forall>q < npages t. pm_allocated (pages s ! q) = pm_allocated (pages t ! q) \<and>
        pm_reserved (pages s ! q) = pm_reserved (pages t ! q))"

lemma same_flags_trans: "same_flags s t \<Longrightarrow> same_flags t u \<Longrightarrow> same_flags s u"
  by (auto simp: same_flags_def)

lemma same_flags_moves:
  assumes "length (pages seg) = npages seg"
  shows "same_flags (take_blk p i seg) seg" "same_flags (put_blk p i seg) seg"
    "same_flags (resize p m seg) seg"
  using assms by (simp_all add: same_flags_def take_blk_def put_blk_def resize_def)

lemma moves_fields [simp]:
  "npages (take_blk p i seg) = npages seg" "npages (put_blk p i seg) = npages seg"
  "npages (resize p m seg) = npages seg"
  "seg_start (take_blk p i seg) = seg_start seg" "seg_start (put_blk p i seg) = seg_start seg"
  "seg_start (resize p m seg) = seg_start seg"
  "length (pages (take_blk p i seg)) = length (pages seg)"
  "length (pages (put_blk p i seg)) = length (pages seg)"
  "length (pages (resize p m seg)) = length (pages seg)"
  "length (freeq (take_blk p i seg)) = length (freeq seg)"
  "length (freeq (put_blk p i seg)) = length (freeq seg)"
  "freeq (resize p m seg) = freeq seg"
  "q < length (pages seg) \<Longrightarrow> pg_size (pages (take_blk p i seg) ! q) = pg_size (pages seg ! q)"
  "q < length (pages seg) \<Longrightarrow> pg_size (pages (put_blk p i seg) ! q) = pg_size (pages seg ! q)"
  "q < length (pages seg) \<Longrightarrow>
     pg_size (pages (resize p m seg) ! q) = (if p = q then m else pg_size (pages seg ! q))"
  by (simp_all add: take_blk_def put_blk_def resize_def)

subsection \<open>Splitting\<close>

definition split_blk :: "nat \<Rightarrow> nat \<Rightarrow> pm_seg \<Rightarrow> pm_seg" where
  "split_blk p i seg =
     put_blk (p + 2 ^ i) i (put_blk p i
       (resize (p + 2 ^ i) (2 ^ i) (resize p (2 ^ i) (take_blk p (Suc i) seg))))"

lemma pm_split_page_eq:
  assumes inv: "seg_inv H seg" and b: "(p, Suc i) \<in> free_blocks seg"
  shows "pm_split_page p seg = Inr (split_blk p i seg)"
proof -
  have lay: "seg_layout seg" using inv by (rule seg_invD)
  have sz: "pg_size (pages seg ! p) = 2 ^ Suc i" using inv b by (rule seg_invD)
  have i: "Suc i < PM_NQUEUES" using lay b by (rule free_blocks_bound)
  have r: "p + 2 ^ Suc i \<le> npages seg" using inv b by (rule seg_invD)
  have p: "p < npages seg" using inv b by (rule free_blocks_less)
  have bd: "p + 2 ^ i < npages seg" using less_le_trans [OF _ r, of "p + 2 ^ i"] by simp
  have head: "p \<in> set (freeq seg ! Suc i)" using b by (simp add: free_blocks_def)
  have "\<not> pm_allocated (pages seg ! (p + 2 ^ i))"
    using block_free(1) [OF inv b, of "p + 2 ^ i"] by (simp add: mem_blk)
  moreover have "pm_managed (pages seg ! p)" using inv b by (rule seg_invD)
  moreover have "log2 (2 * 2 ^ i) = Suc i" using log2_power2 [of "Suc i"] by simp
  moreover have "Suc 0 < 2 * 2 ^ i" using one_less_power [of "2 :: nat" "Suc i"] by simp
  ultimately show ?thesis
    using sz head i p bd r layout_lengths(1,2) [OF lay]
    by (auto simp: pm_split_page_def PM_QUEUE_OF_def Let_def freeq_remove_ok [OF lay b]
        freeq_insert_head_def split_blk_def take_blk_def put_blk_def resize_def
        intro!: seg_eqI)
qed

lemma split_blk_inv:
  assumes inv: "seg_inv H seg" and b: "(p, Suc i) \<in> free_blocks seg"
  shows "seg_inv H (split_blk p i seg)"
    and "free_blocks (split_blk p i seg) = free_blocks seg - {(p, Suc i)} \<union> {(p, i), (p + 2 ^ i, i)}"
    and "same_flags (split_blk p i seg) seg"
proof -
  let ?b = "p + 2 ^ i"
  let ?s1 = "take_blk p (Suc i) seg"
  let ?s2 = "resize ?b (2 ^ i) (resize p (2 ^ i) ?s1)"
  let ?s3 = "put_blk p i ?s2"
  have lay: "seg_layout seg" using inv by (rule seg_invD)
  note l = layout_lengths [OF lay]
  have i: "Suc i < PM_NQUEUES" using lay b by (rule free_blocks_bound)
  have r: "p + 2 ^ Suc i \<le> npages seg" using inv b by (rule seg_invD)
  have bd: "p + 2 ^ i < npages seg" using less_le_trans [OF _ r, of "p + 2 ^ i"] by simp
  have al: "2 ^ Suc i dvd p" using inv b by (rule seg_invD)
  then have al': "2 ^ i dvd p" "2 ^ i dvd ?b" using dvd_mult_right [of 2 "2 ^ i" p] by simp_all
  have sub: "blk p i \<subseteq> blk p (Suc i)" "blk ?b i \<subseteq> blk p (Suc i)" by (auto simp: blk_Suc)
  have free: "free_page seg q" if "q \<in> blk p (Suc i)" for q
    using inv b that by (rule block_free)
  have f1: "same_flags ?s1 seg" using l(2) by (rule same_flags_moves)
  have f2: "same_flags ?s2 seg"
    by (rule same_flags_trans [OF same_flags_moves(3) same_flags_trans [OF same_flags_moves(3) f1]])
      (simp_all add: l)
  have f3: "same_flags ?s3 seg"
    by (rule same_flags_trans [OF same_flags_moves(2) f2]) (simp add: l)
  show "same_flags (split_blk p i seg) seg"
    unfolding split_blk_def by (rule same_flags_trans [OF same_flags_moves(2) f3]) (simp add: l)
  have "seg_inv (H \<union> blk p (Suc i)) ?s1" using inv b by (rule take_blk_inv)
  then have inv2: "seg_inv (H \<union> blk p (Suc i)) ?s2"
    by (intro resize_inv) (auto simp: blk_Suc)
  have inv3: "seg_inv (H \<union> blk p (Suc i) - blk p i) ?s3"
  proof (rule put_blk_inv [OF inv2])
    show "free_page ?s2 q" if "q \<in> blk p i" for q
      using free [of q] that sub r f2 by (auto simp: same_flags_def mem_blk)
  qed (use i al' bd sub l in auto)
  have "seg_inv (H \<union> blk p (Suc i) - blk p i - blk ?b i) (split_blk p i seg)"
    unfolding split_blk_def
  proof (rule put_blk_inv [OF inv3])
    show "free_page ?s3 q" if "q \<in> blk ?b i" for q
      using free [of q] that sub r f3 by (auto simp: same_flags_def mem_blk)
    show "blk ?b i \<subseteq> H \<union> blk p (Suc i) - blk p i"
      using sub blk_halves_disjoint [of p i] by blast
  qed (use i al' bd r l in auto)
  moreover have "H \<union> blk p (Suc i) - blk p i - blk ?b i = H"
    using seg_invD(6) [OF inv b] by (auto simp: blk_Suc)
  ultimately show "seg_inv H (split_blk p i seg)" by simp
  show "free_blocks (split_blk p i seg) = free_blocks seg - {(p, Suc i)} \<union> {(p, i), (?b, i)}"
    using i l by (auto simp: split_blk_def free_blocks_put free_blocks_take)
qed

lemma split_blk_head: "i < length (freeq seg) \<Longrightarrow> \<exists>rest. freeq (split_blk p i seg) ! i = (p + 2 ^ i) # rest"
  by (simp add: split_blk_def put_blk_def take_blk_def resize_def)

subsection \<open>Allocating\<close>

lemma find_queue_spec:
  "j \<le> PM_NQUEUES \<Longrightarrow> j \<le> find_queue seg j \<and> find_queue seg j \<le> PM_NQUEUES \<and>
     (\<forall>m. j \<le> m \<longrightarrow> m < find_queue seg j \<longrightarrow> freeq seg ! m = []) \<and>
     (find_queue seg j < PM_NQUEUES \<longrightarrow> freeq seg ! find_queue seg j \<noteq> [])"
proof (induction seg j rule: find_queue.induct)
  case (1 seg j)
  show ?case
  proof (cases "j < PM_NQUEUES \<and> freeq seg ! j = []")
    case True
    with 1 have IH: "Suc j \<le> find_queue seg (Suc j) \<and> find_queue seg (Suc j) \<le> PM_NQUEUES \<and>
        (\<forall>m. Suc j \<le> m \<longrightarrow> m < find_queue seg (Suc j) \<longrightarrow> freeq seg ! m = []) \<and>
        (find_queue seg (Suc j) < PM_NQUEUES \<longrightarrow> freeq seg ! find_queue seg (Suc j) \<noteq> [])" by simp
    from True have eq: "find_queue seg j = find_queue seg (Suc j)" by (simp add: find_queue.simps)
    have "freeq seg ! m = []" if "j \<le> m" "m < find_queue seg (Suc j)" for m
      using that IH True by (cases "m = j") auto
    with IH show ?thesis by (auto simp: eq)
  next
    case False
    then have "find_queue seg j = j" by (simp add: find_queue.simps)
    with False 1(2) show ?thesis by auto
  qed
qed

text \<open>All buddies are merged, but for one pair that contains the block the loop looks at.\<close>

definition coalesced_but :: "nat \<Rightarrow> nat \<Rightarrow> pm_seg \<Rightarrow> bool" where
  "coalesced_but p i seg \<longleftrightarrow>
     (\<forall>q k. 2 ^ Suc k dvd q \<longrightarrow> (q, k) \<in> free_blocks seg \<longrightarrow> (q + 2 ^ k, k) \<in> free_blocks seg \<longrightarrow>
        k = i \<and> (p = q \<or> p = q + 2 ^ k))"

lemma not_double_dvd: "2 ^ Suc i dvd p \<Longrightarrow> \<not> 2 ^ Suc i dvd p + (2 :: nat) ^ i"
  by (metis dvd_add_right_iff nat_dvd_not_less lessI power_strict_increasing one_less_numeral_iff
      semiring_norm(76) zero_less_power zero_less_numeral)

lemma coalesced_split:
  assumes co: "coalesced_but p (Suc i) seg" and al: "2 ^ Suc i dvd p"
    and fb: "free_blocks s = free_blocks seg - {(p, Suc i)} \<union> {(p, i), (p + 2 ^ i, i)}"
  shows "coalesced_but (p + 2 ^ i) i s"
  unfolding coalesced_but_def
proof (intro allI impI)
  fix q k
  assume q: "2 ^ Suc k dvd q" "(q, k) \<in> free_blocks s" "(q + 2 ^ k, k) \<in> free_blocks s"
  have "k = i \<and> q = p"
  proof (cases "(q, k) \<in> {(p, i), (p + 2 ^ i, i)} \<or> (q + 2 ^ k, k) \<in> {(p, i), (p + 2 ^ i, i)}")
    case True
    moreover have "q \<noteq> p + 2 ^ i" if "k = i" using not_double_dvd [OF al] q(1) that by auto
    moreover have "q + 2 ^ i \<noteq> p" if "k = i" using not_double_dvd [of i q] q(1) al that by auto
    ultimately show ?thesis by auto
  next
    case False
    with q(2,3) have "(q, k) \<in> free_blocks seg - {(p, Suc i)}" "(q + 2 ^ k, k) \<in> free_blocks seg - {(p, Suc i)}"
      unfolding fb by blast+
    with co q(1) show ?thesis unfolding coalesced_but_def by blast
  qed
  then show "k = i \<and> (p + 2 ^ i = q \<or> p + 2 ^ i = q + 2 ^ k)" by simp
qed

lemma split_blk_frame:
  assumes inv: "seg_inv H seg" and b: "(p, Suc i) \<in> free_blocks seg"
    and q: "q < npages seg" "q \<notin> free_pages seg"
  shows "pages (split_blk p i seg) ! q = pages seg ! q"
proof -
  have "q \<notin> blk p (Suc i)" using q block_free(1) [OF inv b] by (auto simp: free_pages_def)
  with q(1) layout_lengths(2) [OF seg_invD(1) [OF inv]] show ?thesis
    by (auto simp: split_blk_def put_blk_def take_blk_def resize_def mem_blk)
qed

text \<open>What an allocation of \<open>2^j\<close> pages that returns \<open>page\<close> does to a segment.\<close>

definition alloc_effect :: "nat \<Rightarrow> nat \<Rightarrow> pm_seg \<Rightarrow> pm_seg \<Rightarrow> bool" where
  "alloc_effect page j seg seg' \<longleftrightarrow>
     seg_inv {} seg' \<and> alloc_block seg' page j \<and> npages seg' = npages seg \<and> seg_start seg' = seg_start seg \<and>
     blk page j \<subseteq> free_pages seg \<and> free_pages seg' = free_pages seg - blk page j \<and>
     (\<forall>q < npages seg. q \<notin> free_pages seg \<longrightarrow> pages seg' ! q = pages seg ! q)"

lemma alloc_take:
  assumes inv: "seg_inv {} seg" and b: "(p, i) \<in> free_blocks seg"
  defines "seg' \<equiv> upd_pages p (2 ^ i) (pm_allocated_update (\<lambda>_. True)) (take_blk p i seg)"
  shows "alloc_effect p i seg seg'"
    and "free_blocks seg' = free_blocks seg - {(p, i)}"
proof -
  have lay: "seg_layout seg" using inv by (rule seg_invD)
  note l = layout_lengths [OF lay]
  have r: "p + 2 ^ i \<le> npages seg" using inv b by (rule seg_invD)
  have n: "npages seg' = npages seg" "seg_start seg' = seg_start seg" by (simp_all add: seg'_def)
  have pg: "pages seg' ! q = (if q \<in> blk p i then pm_allocated_update (\<lambda>_. True)
      (if p = q then pm_managed_update (\<lambda>_. False) (pages seg ! q) else pages seg ! q) else pages seg ! q)"
    if "q < npages seg" for q
    using that l by (auto simp: seg'_def take_blk_def mem_blk)
  have "seg_inv (blk p i) seg'"
    unfolding seg'_def using take_blk_inv [OF inv b]
    by (intro flags_inv) (auto simp: blk_def)
  then have "seg_inv (blk p i - blk p i) seg'"
    by (rule close_hole) (auto simp: pg n)
  then have inv': "seg_inv {} seg'" by simp
  have sub: "blk p i \<subseteq> free_pages seg"
    using block_free [OF inv b] by (auto simp: free_pages_def)
  have "pg_size (pages seg' ! p) = 2 ^ i"
    using seg_invD(4) [OF inv b] free_blocks_less [OF inv b] by (simp add: pg)
  with sub r seg_invD(2) [OF inv b] have "alloc_block seg' p i"
    by (auto simp: alloc_block_def n pg free_pages_def subset_iff)
  moreover have "free_pages seg' = free_pages seg - blk p i"
    by (auto simp: free_pages_def n pg split: if_splits)
  moreover have "pages seg' ! q = pages seg ! q" if "q < npages seg" "q \<notin> free_pages seg" for q
  proof -
    from that(2) sub have "q \<notin> blk p i" by blast
    with that(1) show ?thesis by (simp add: pg)
  qed
  ultimately show "alloc_effect p i seg seg'"
    using inv' sub by (simp add: alloc_effect_def n)
  show "free_blocks seg' = free_blocks seg - {(p, i)}"
    using l free_blocks_bound [OF lay b] by (simp add: seg'_def free_blocks_take)
qed

lemma alloc_loop_here:
  assumes inv: "seg_inv {} seg" and i: "i < PM_NQUEUES" and q: "freeq seg ! i = p # rest"
  shows "alloc_loop i i seg =
           Inr (p, upd_pages p (2 ^ i) (pm_allocated_update (\<lambda>_. True)) (take_blk p i seg))"
proof -
  have lay: "seg_layout seg" using inv by (rule seg_invD)
  note l = layout_lengths [OF lay]
  have b: "(p, i) \<in> free_blocks seg" using q i l by (simp add: free_blocks_def)
  have r: "p + 2 ^ i \<le> npages seg" "p < npages seg"
    using seg_invD(3) [OF inv b] free_blocks_less [OF inv b] .
  have sz: "pg_size (pages seg ! p) = 2 ^ i" using inv b by (rule seg_invD)
  show ?thesis
    using r sz l by (simp add: alloc_loop.simps q freeq_remove_ok [OF lay b] mark_pages_def take_blk_def Let_def)
qed

lemma alloc_at:
  assumes inv: "seg_inv {} seg" and i: "i < PM_NQUEUES" and q: "freeq seg ! i = p # rest"
  shows "\<exists>page seg'. alloc_loop i i seg = Inr (page, seg') \<and> alloc_effect page i seg seg' \<and>
           (coalesced_but p i seg \<longrightarrow> coalesced seg')"
proof -
  have b: "(p, i) \<in> free_blocks seg"
    using q i layout_lengths(1) [OF seg_invD(1) [OF inv]] by (simp add: free_blocks_def)
  from alloc_loop_here [OF inv i q] alloc_take [OF inv b] show ?thesis
    by (auto simp: coalesced_but_def coalesced_def)
qed

lemma alloc_effect_flags:
  assumes "alloc_effect page j s seg'" and f: "same_flags s seg" and "seg_start s = seg_start seg"
    and frame: "\<And>q. q < npages seg \<Longrightarrow> q \<notin> free_pages seg \<Longrightarrow> pages s ! q = pages seg ! q"
  shows "alloc_effect page j seg seg'"
proof -
  have "free_pages s = free_pages seg" "npages s = npages seg"
    using f by (auto simp: free_pages_def same_flags_def)
  with assms show ?thesis by (auto simp: alloc_effect_def)
qed

lemma alloc_loop_ok:
  assumes "seg_inv {} seg" and "j \<le> i" and "i < PM_NQUEUES" and "freeq seg ! i = p # rest"
  shows "\<exists>page seg'. alloc_loop i j seg = Inr (page, seg') \<and> alloc_effect page j seg seg' \<and>
           (coalesced_but p i seg \<longrightarrow> coalesced seg')"
  using assms
proof (induction i arbitrary: seg p rest)
  case (0 seg p rest)
  then show ?case using alloc_at [of seg 0 p rest] by simp
next
  case (Suc i seg p rest)
  note inv = Suc.prems(1)
  show ?case
  proof (cases "Suc i = j")
    case True
    with Suc.prems show ?thesis using alloc_at [of seg "Suc i" p rest] by simp
  next
    case False
    let ?s = "split_blk p i seg"
    have lay: "seg_layout seg" using inv by (rule seg_invD)
    note l = layout_lengths [OF lay]
    have b: "(p, Suc i) \<in> free_blocks seg" using Suc.prems(3,4) l by (simp add: free_blocks_def)
    note sp = split_blk_inv [OF inv b]
    obtain rest' where q: "freeq ?s ! i = (p + 2 ^ i) # rest'"
      using split_blk_head [of i seg p] Suc.prems(3) l by auto
    have eq: "alloc_loop (Suc i) j seg = alloc_loop i j ?s"
      using False by (simp add: alloc_loop.simps [of "Suc i"] Suc.prems(4) pm_split_page_eq [OF inv b])
    from Suc.IH [OF sp(1) _ _ q] Suc.prems(2,3) False obtain page seg' where
      res: "alloc_loop i j ?s = Inr (page, seg')" "alloc_effect page j ?s seg'"
        "coalesced_but (p + 2 ^ i) i ?s \<longrightarrow> coalesced seg'" by auto
    have "alloc_effect page j seg seg'"
      by (rule alloc_effect_flags [OF res(2) sp(3) _ split_blk_frame [OF inv b]]) (simp add: split_blk_def)
    with res eq coalesced_split [OF _ seg_invD(2) [OF inv b] sp(2)] show ?thesis by auto
  qed
qed

lemma pm_alloc_from_seg_cases:
  assumes inv: "seg_inv {} seg" and k: "k \<le> PM_NQUEUES"
  obtains (none) "pm_alloc_from_seg (2 ^ k) seg = Inr (None, seg)"
      "\<And>p i. (p, i) \<in> free_blocks seg \<Longrightarrow> i < k"
    | (some) page seg' where "pm_alloc_from_seg (2 ^ k) seg = Inr (Some page, seg')"
      "alloc_effect page k seg seg'" "coalesced seg \<Longrightarrow> coalesced seg'"
proof (cases "find_queue seg k = PM_NQUEUES")
  case True
  show ?thesis
  proof (rule none)
    show "pm_alloc_from_seg (2 ^ k) seg = Inr (None, seg)"
      using True by (simp add: pm_alloc_from_seg_def)
    show "i < k" if "(p, i) \<in> free_blocks seg" for p i
    proof (rule ccontr)
      assume "\<not> i < k"
      moreover have "i < PM_NQUEUES" using seg_invD(1) [OF inv] that by (rule free_blocks_bound)
      ultimately have "freeq seg ! i = []" using find_queue_spec [OF k, of seg] True by auto
      with that show False by (simp add: free_blocks_def)
    qed
  qed
next
  case False
  let ?i = "find_queue seg k"
  from find_queue_spec [OF k, of seg] False have i: "k \<le> ?i" "?i < PM_NQUEUES" "freeq seg ! ?i \<noteq> []"
    by auto
  then obtain p rest where q: "freeq seg ! ?i = p # rest" by (cases "freeq seg ! ?i") auto
  from alloc_loop_ok [OF inv i(1,2) q] obtain page seg' where
    res: "alloc_loop ?i k seg = Inr (page, seg')" "alloc_effect page k seg seg'"
      "coalesced_but p ?i seg \<longrightarrow> coalesced seg'" by auto
  show ?thesis
  proof (rule some)
    show "pm_alloc_from_seg (2 ^ k) seg = Inr (Some page, seg')"
      using res(1) i(2) by (simp add: pm_alloc_from_seg_def)
    show "coalesced seg'" if "coalesced seg"
      using that res(3) by (auto simp: coalesced_def coalesced_but_def)
  qed (rule res)
qed

text \<open>
  Where buddies are merged, a run of free pages that is as long and as aligned as a block lies in a
  block that is on a queue.
\<close>

lemma coalesced_cover:
  assumes inv: "seg_inv {} seg" and co: "coalesced seg"
  shows "2 ^ k dvd p \<Longrightarrow> blk p k \<subseteq> free_pages seg \<Longrightarrow>
           \<exists>q i. (q, i) \<in> free_blocks seg \<and> k \<le> i \<and> blk p k \<subseteq> blk q i"
proof (induction k arbitrary: p)
  case 0
  then have "p < npages seg" "free_page seg p" by (auto simp: free_pages_def)
  with seg_invD(9) [OF inv, of p] show ?case by auto
next
  case (Suc k)
  let ?b = "p + 2 ^ k"
  have al: "2 ^ k dvd p" "2 ^ k dvd ?b" using Suc.prems(1) dvd_mult_right [of 2 "2 ^ k" p] by simp_all
  from Suc.prems(2) have sub: "blk p k \<subseteq> free_pages seg" "blk ?b k \<subseteq> free_pages seg"
    by (auto simp: blk_Suc)
  have nest: "\<exists>q i. (q, i) \<in> free_blocks seg \<and> Suc k \<le> i \<and> blk p (Suc k) \<subseteq> blk q i"
    if "(q, i) \<in> free_blocks seg" "Suc k \<le> i" "blk r k \<subseteq> blk q i" "blk r k \<subseteq> blk p (Suc k)" for q i r
    using aligned_blk_nested [OF that(2) Suc.prems(1) seg_invD(2) [OF inv that(1)]] that
      blk_self [of r k] by blast
  from Suc.IH [OF al(1) sub(1)] obtain q i where
    1: "(q, i) \<in> free_blocks seg" "k \<le> i" "blk p k \<subseteq> blk q i" by blast
  from Suc.IH [OF al(2) sub(2)] obtain r j where
    2: "(r, j) \<in> free_blocks seg" "k \<le> j" "blk ?b k \<subseteq> blk r j" by blast
  show ?case
  proof (cases "i = k \<and> j = k")
    case True
    with 1(3) 2(3) blk_self [of p k] blk_self [of ?b k] have "p \<in> blk q k" "?b \<in> blk r k" by auto
    moreover have "2 ^ k dvd q" "2 ^ k dvd r"
      using seg_invD(2) [OF inv 1(1)] seg_invD(2) [OF inv 2(1)] True by auto
    ultimately have "q = p" "r = ?b"
      using aligned_blk_same [OF al(1), of q] aligned_blk_same [OF al(2), of r]
        blk_self [of p k] blk_self [of ?b k] by blast+
    with True 1(1) 2(1) co Suc.prems(1) show ?thesis by (auto simp: coalesced_def)
  next
    case False
    with 1(2) 2(2) have "Suc k \<le> i \<or> Suc k \<le> j" by auto
    with nest [OF 1(1) _ 1(3)] nest [OF 2(1) _ 2(3)] show ?thesis by (auto simp: blk_Suc)
  qed
qed

subsection \<open>Freeing\<close>

definition buddy_of :: "nat \<Rightarrow> nat \<Rightarrow> nat" where
  "buddy_of p i = (if 2 ^ Suc i dvd p then p + 2 ^ i else p - 2 ^ i)"

lemma pm_find_buddy_eq:
  assumes inv: "seg_inv H seg" and al: "2 ^ i dvd p" and sz: "pg_size (pages seg ! p) = 2 ^ i"
  shows "pm_find_buddy seg p =
           Inr (if (buddy_of p i, i) \<in> free_blocks seg then Some (buddy_of p i) else None)"
proof -
  let ?b = "buddy_of p i"
  have idx: "(if p mod (2 * 2 ^ i) = 0 then int p + int (2 ^ i) else int p - int (2 ^ i)) = int ?b"
  proof (cases "2 ^ Suc i dvd p")
    case True
    then show ?thesis by (simp add: buddy_of_def)
  next
    case False
    then have "p mod 2 ^ Suc i \<noteq> 0" by (simp only: mod_eq_0_iff_dvd not_False_eq_True)
    with al have "2 ^ i \<le> p" by (rule dvd_double_or_odd)
    then have "int (buddy_of p i) = int p - int (2 ^ i)" using False
      unfolding buddy_of_def by (simp only: if_False of_nat_diff)
    moreover have "p mod (2 * 2 ^ i) \<noteq> 0" using \<open>p mod 2 ^ Suc i \<noteq> 0\<close> unfolding power_Suc .
    ultimately show ?thesis by (simp only: if_False)
  qed
  have "(?b, i) \<in> free_blocks seg"
    if b: "?b < npages seg" "pg_size (pages seg ! ?b) = 2 ^ i" "pm_managed (pages seg ! ?b)"
  proof -
    from seg_invD(7) [OF inv b(1,3)] obtain j where j: "(?b, j) \<in> free_blocks seg" by blast
    with seg_invD(4) [OF inv j] b(2) show ?thesis by simp
  qed
  moreover have "?b < npages seg \<and> pg_size (pages seg ! ?b) = 2 ^ i \<and> pm_managed (pages seg ! ?b)"
    if "(?b, i) \<in> free_blocks seg"
    using seg_invD(4,5) [OF inv that] free_blocks_less [OF inv that] by simp
  moreover have "pm_find_buddy seg p =
      Inr (if ?b < npages seg \<and> pg_size (pages seg ! ?b) = 2 ^ i \<and> pm_managed (pages seg ! ?b)
           then Some ?b else None)"
    unfolding pm_find_buddy_def Let_def sz idx by simp
  ultimately show ?thesis by presburger
qed

lemma buddy_of_block:
  assumes "2 ^ i dvd p"
  shows "2 ^ Suc i dvd min p (buddy_of p i)"
    and "blk (min p (buddy_of p i)) (Suc i) = blk p i \<union> blk (buddy_of p i) i"
    and "min p (buddy_of p i) + 2 ^ i = max p (buddy_of p i)"
    and "buddy_of p i \<noteq> p"
proof -
  have "2 ^ Suc i dvd min p (buddy_of p i) \<and>
      blk (min p (buddy_of p i)) (Suc i) = blk p i \<union> blk (buddy_of p i) i \<and>
      min p (buddy_of p i) + 2 ^ i = max p (buddy_of p i) \<and> buddy_of p i \<noteq> p"
  proof (cases "2 ^ Suc i dvd p")
    case True
    then have "buddy_of p i = p + 2 ^ i" by (simp only: buddy_of_def if_True)
    with True blk_Suc [of p i] show ?thesis by (simp add: min_def max_def)
  next
    case False
    then have "p mod 2 ^ Suc i \<noteq> 0" by (simp only: mod_eq_0_iff_dvd not_False_eq_True)
    with assms have le: "2 ^ i \<le> p" "2 ^ Suc i dvd p - 2 ^ i" by (rule dvd_double_or_odd)+
    have b: "buddy_of p i = p - 2 ^ i" using False by (simp only: buddy_of_def if_False)
    from le(1) have m: "min p (p - 2 ^ i) = p - 2 ^ i" "max p (p - 2 ^ i) = p" "p - 2 ^ i + 2 ^ i = p" by simp_all
    have "p - 2 ^ i \<noteq> p" using diff_power2_less [OF le(1)] by simp
    moreover have "blk (p - 2 ^ i) (Suc i) = blk p i \<union> blk (p - 2 ^ i) i"
      using blk_Suc [of "p - 2 ^ i" i] m(3) by (metis Un_commute)
    ultimately show ?thesis unfolding b m using le(2) by blast
  qed
  then show "2 ^ Suc i dvd min p (buddy_of p i)"
    and "blk (min p (buddy_of p i)) (Suc i) = blk p i \<union> blk (buddy_of p i) i"
    and "min p (buddy_of p i) + 2 ^ i = max p (buddy_of p i)"
    and "buddy_of p i \<noteq> p" by blast+
qed

text \<open>The state of the loop of \<open>pm_free_from_seg\<close>: the block \<open>(p, i)\<close> is in hand.\<close>

definition in_hand :: "nat \<Rightarrow> nat \<Rightarrow> pm_seg \<Rightarrow> bool" where
  "in_hand p i seg \<longleftrightarrow>
     seg_inv (blk p i) seg \<and> 2 ^ i dvd p \<and> p + 2 ^ i \<le> npages seg \<and>
     pg_size (pages seg ! p) = 2 ^ i \<and> (\<forall>q \<in> blk p i. \<not> pm_reserved (pages seg ! q))"

lemma in_hand_bound:
  assumes "in_hand p i seg" "npages seg < 2 ^ PM_NQUEUES" shows "i < PM_NQUEUES" "p < npages seg"
proof -
  from assms(1) have "p + 2 ^ i \<le> npages seg" by (simp add: in_hand_def)
  with assms(2) have "(2 :: nat) ^ i < 2 ^ PM_NQUEUES" by linarith
  then show "i < PM_NQUEUES" by simp
  from assms(1) less_le_trans [of p "p + 2 ^ i" "npages seg"] show "p < npages seg" by (simp add: in_hand_def)
qed

lemma put_mark_commute:
  assumes "length (pages seg) = npages seg"
  shows "upd_pages p m (pm_allocated_update (\<lambda>_. False)) (put_blk p i seg) =
         put_blk p i (upd_pages p m (pm_allocated_update (\<lambda>_. False)) seg)"
  using assms by (intro seg_eqI) (auto simp: put_blk_def)

lemma free_loop_stop:
  assumes hand: "in_hand p i seg" and n: "npages seg < 2 ^ PM_NQUEUES"
    and nb: "(buddy_of p i, i) \<notin> free_blocks seg"
  defines "seg' \<equiv> put_blk p i (upd_pages p (2 ^ i) (pm_allocated_update (\<lambda>_. False)) seg)"
  shows "free_loop p seg = Inr seg'" and "seg_inv {} seg'"
    and "free_blocks seg' = insert (p, i) (free_blocks seg)"
proof -
  note h = hand [unfolded in_hand_def]
  have inv: "seg_inv (blk p i) seg" using h by blast
  note l = layout_lengths [OF seg_invD(1) [OF inv]]
  note b = in_hand_bound [OF hand n]
  have "pm_find_buddy seg p = Inr None"
    using pm_find_buddy_eq [OF inv, of i p] h nb by simp
  then have "free_loop p seg = Inr (upd_pages p (2 ^ i) (pm_allocated_update (\<lambda>_. False)) (put_blk p i seg))"
    using h b l by (simp add: free_loop.simps [of p] PM_QUEUE_OF_def freeq_insert_head_def put_blk_def
        mark_pages_def Let_def)
  then show "free_loop p seg = Inr seg'" using l(2) by (simp add: seg'_def put_mark_commute)
  let ?s = "upd_pages p (2 ^ i) (pm_allocated_update (\<lambda>_. False)) seg"
  have pg: "q < npages seg \<Longrightarrow> pages ?s ! q =
      (if q \<in> blk p i then pm_allocated_update (\<lambda>_. False) (pages seg ! q) else pages seg ! q)" for q
    using l by (simp add: mem_blk)
  have "seg_inv (blk p i) ?s" using inv by (rule flags_inv) (auto simp: blk_def)
  then have "seg_inv (blk p i - blk p i) seg'"
    unfolding seg'_def
  proof (rule put_blk_inv)
    show "free_page ?s q" if "q \<in> blk p i" for q
    proof -
      have "q < npages seg" using that h by (simp add: mem_blk)
      with that h show ?thesis by (simp add: pg)
    qed
  qed (use h b in \<open>auto simp: pg\<close>)
  then show "seg_inv {} seg'" by simp
  show "free_blocks seg' = insert (p, i) (free_blocks seg)"
    using b(1) l(1) by (simp add: seg'_def free_blocks_put)
qed

lemma free_loop_merge:
  assumes hand: "in_hand p i seg" and b: "(buddy_of p i, i) \<in> free_blocks seg"
  defines "a \<equiv> min p (buddy_of p i)"
  defines "seg' \<equiv> resize a (2 ^ Suc i) (take_blk (buddy_of p i) i seg)"
  shows "free_loop p seg = free_loop a seg'" and "in_hand a (Suc i) seg'"
    and "free_blocks seg' = free_blocks seg - {(buddy_of p i, i)}"
    and "npages seg' = npages seg \<and> seg_start seg' = seg_start seg"
    and "\<And>q. q < npages seg \<Longrightarrow> q \<noteq> p \<Longrightarrow> q \<noteq> buddy_of p i \<Longrightarrow> pages seg' ! q = pages seg ! q"
    and "same_flags seg' seg"
proof -
  let ?b = "buddy_of p i"
  note h = hand [unfolded in_hand_def]
  have inv: "seg_inv (blk p i) seg" using h by blast
  note l = layout_lengths [OF seg_invD(1) [OF inv]]
  have p: "p < npages seg" using h less_le_trans [of p "p + 2 ^ i" "npages seg"] by simp
  have al: "2 ^ i dvd p" and sz: "pg_size (pages seg ! p) = 2 ^ i" using h by auto
  note bd = buddy_of_block [OF al]
  have bp: "?b < npages seg" "pg_size (pages seg ! ?b) = 2 ^ i"
    using free_blocks_less [OF inv b] seg_invD(4) [OF inv b] .
  have a: "a < npages seg" "a \<in> {p, ?b}" using p bp by (auto simp: a_def min_def)
  have "pm_find_buddy seg p = Inr (Some ?b)" using pm_find_buddy_eq [OF inv al sz] b by simp
  moreover have "pm_merge_buddies p ?b (take_blk ?b i seg) =
      Inr (a, upd_page a (pg_size_update (\<lambda>s. s * 2)) (take_blk ?b i seg))"
    using p bp sz l(2) bd(3) a by (auto simp: pm_merge_buddies_def Let_def a_def)
  moreover have "upd_page a (pg_size_update (\<lambda>s. s * 2)) (take_blk ?b i seg) = seg'"
    using a l(2) sz bp by (intro seg_eqI) (auto simp: seg'_def resize_def take_blk_def)
  ultimately show "free_loop p seg = free_loop a seg'"
    using queue_of_block [OF inv b] freeq_remove_ok [OF seg_invD(1) [OF inv] b]
    by (simp add: free_loop.simps [of p] take_blk_def)
  show n: "npages seg' = npages seg \<and> seg_start seg' = seg_start seg" by (simp add: seg'_def)
  show "free_blocks seg' = free_blocks seg - {(?b, i)}"
    using l free_blocks_bound [OF seg_invD(1) [OF inv] b] by (simp add: seg'_def free_blocks_take)
  show "pages seg' ! q = pages seg ! q" if "q < npages seg" "q \<noteq> p" "q \<noteq> ?b" for q
    using that a(2) l(2) by (auto simp: seg'_def resize_def take_blk_def)
  show f: "same_flags seg' seg"
    unfolding seg'_def
    by (rule same_flags_trans [OF same_flags_moves(3) same_flags_moves(1)]) (simp_all add: l)
  have "seg_inv (blk p i \<union> blk ?b i) (take_blk ?b i seg)" using inv b by (rule take_blk_inv)
  then have "seg_inv (blk a (Suc i)) seg'"
    unfolding seg'_def a_def bd(2) by (rule resize_inv) (auto simp: min_def)
  moreover have "pg_size (pages seg' ! a) = 2 ^ Suc i" using a l(2) by (simp add: seg'_def)
  moreover have "a + 2 ^ Suc i \<le> npages seg"
    using bd(3) h seg_invD(3) [OF inv b] by (simp add: a_def min_def max_def split: if_splits)
  moreover have "\<not> pm_reserved (pages seg' ! q)" if "q \<in> blk a (Suc i)" for q
  proof -
    have q: "q < npages seg" using that \<open>a + 2 ^ Suc i \<le> npages seg\<close> by (simp add: mem_blk)
    from that have "q \<in> blk p i \<or> q \<in> blk ?b i" unfolding a_def bd(2) by blast
    then have "\<not> pm_reserved (pages seg ! q)" using h block_free(1) [OF inv b, of q] by blast
    with f q show ?thesis by (simp add: same_flags_def)
  qed
  ultimately show "in_hand a (Suc i) seg'"
    using bd(1) by (simp add: in_hand_def n a_def)
qed

text \<open>What freeing the block \<open>(p, i)\<close> does to a segment.\<close>

definition free_effect :: "nat \<Rightarrow> nat \<Rightarrow> pm_seg \<Rightarrow> pm_seg \<Rightarrow> bool" where
  "free_effect p i seg seg' \<longleftrightarrow>
     seg_inv {} seg' \<and> npages seg' = npages seg \<and> seg_start seg' = seg_start seg \<and>
     free_pages seg' = free_pages seg \<union> blk p i \<and>
     (\<forall>q < npages seg. q \<notin> free_pages seg' \<longrightarrow> pages seg' ! q = pages seg ! q)"

lemma free_loop_ok:
  assumes "in_hand p i seg" and "npages seg < 2 ^ PM_NQUEUES"
  shows "\<exists>seg'. free_loop p seg = Inr seg' \<and> free_effect p i seg seg' \<and> (coalesced seg \<longrightarrow> coalesced seg')"
  using assms
proof (induction "PM_NQUEUES - i" arbitrary: i p seg rule: less_induct)
  case less
  note hand = less.prems(1) and n = less.prems(2)
  note h = hand [unfolded in_hand_def]
  have inv: "seg_inv (blk p i) seg" using h by blast
  note l = layout_lengths [OF seg_invD(1) [OF inv]]
  have in_range: "q < npages seg" if "q \<in> blk p i" for q using that h by (simp add: mem_blk)
  show ?case
  proof (cases "(buddy_of p i, i) \<in> free_blocks seg")
    case False
    note st = free_loop_stop [OF hand n False]
    let ?s = "put_blk p i (upd_pages p (2 ^ i) (pm_allocated_update (\<lambda>_. False)) seg)"
    have pg: "pages ?s ! q = (if q \<in> blk p i then (if q = p then pm_managed_update (\<lambda>_. True) else id)
        (pm_allocated_update (\<lambda>_. False) (pages seg ! q)) else pages seg ! q)" if "q < npages seg" for q
      using that l by (auto simp: put_blk_def mem_blk)
    have fp: "free_pages ?s = free_pages seg \<union> blk p i"
      using h in_range by (auto simp: free_pages_def pg split: if_splits)
    moreover have "pages ?s ! q = pages seg ! q" if "q < npages seg" "q \<notin> free_pages ?s" for q
    proof -
      have "q \<notin> blk p i" using that(2) fp by blast
      with that(1) show ?thesis by (simp add: pg)
    qed
    ultimately have "free_effect p i seg ?s" using st(2) by (simp add: free_effect_def)
    moreover have "coalesced ?s" if co: "coalesced seg"
      unfolding coalesced_def st(3)
    proof (intro allI impI notI)
      fix q k
      assume q: "2 ^ Suc k dvd q" "(q, k) \<in> insert (p, i) (free_blocks seg)"
        "(q + 2 ^ k, k) \<in> insert (p, i) (free_blocks seg)"
      have "buddy_of q k = q + 2 ^ k" "buddy_of (q + 2 ^ k) k = q"
        using q(1) not_double_dvd [OF q(1)] by (simp_all only: buddy_of_def if_True if_False add_diff_cancel_right')
      with q co False show False unfolding coalesced_def by (auto dest: sym)
    qed
    ultimately show ?thesis using st(1) by blast
  next
    case True
    note mg = free_loop_merge [OF hand True]
    let ?b = "buddy_of p i"
    let ?a = "min p ?b"
    let ?s = "resize ?a (2 ^ Suc i) (take_blk ?b i seg)"
    have "PM_NQUEUES - Suc i < PM_NQUEUES - i" using in_hand_bound(1) [OF hand n] by simp
    from less.hyps [OF this mg(2)] mg(4) n obtain seg' where
      res: "free_loop ?a ?s = Inr seg'" "free_effect ?a (Suc i) ?s seg'" "coalesced ?s \<longrightarrow> coalesced seg'"
      by auto
    have fp: "free_pages ?s = free_pages seg"
      using mg(6) by (auto simp: free_pages_def same_flags_def)
    have "blk ?b i \<subseteq> free_pages seg" using block_free [OF inv True] by (auto simp: free_pages_def)
    with res(2) fp have eq: "free_pages seg' = free_pages seg \<union> blk p i"
      using h buddy_of_block(2) [of i p] by (auto simp: free_effect_def)
    moreover have "pages seg' ! q = pages seg ! q" if "q < npages seg" "q \<notin> free_pages seg'" for q
    proof -
      from that(2) eq \<open>blk ?b i \<subseteq> free_pages seg\<close> have "q \<noteq> p" "q \<noteq> ?b"
        using blk_self [of p i] blk_self [of ?b i] by blast+
      with that mg(4,5) res(2) show ?thesis by (simp add: free_effect_def)
    qed
    moreover have "seg_inv {} seg'" "npages seg' = npages seg" "seg_start seg' = seg_start seg"
      using res(2) mg(4) by (simp_all add: free_effect_def)
    ultimately have "free_effect p i seg seg'" unfolding free_effect_def by blast
    moreover have "coalesced ?s" if "coalesced seg" using that unfolding coalesced_def mg(3) by blast
    ultimately show ?thesis using res(1,3) mg(1) by auto
  qed
qed

lemma pm_free_from_seg_ok:
  assumes inv: "seg_inv {} seg" and n: "npages seg < 2 ^ PM_NQUEUES" and a: "alloc_block seg p k"
  obtains seg' where "pm_free_from_seg p seg = Inr (seg', (pg_vaddr (pages seg ! p), 2 ^ k * PAGESIZE))"
    "free_effect p k seg seg'" "coalesced seg \<Longrightarrow> coalesced seg'"
proof -
  note ab = a [unfolded alloc_block_def]
  have "seg_inv ({} \<union> blk p k) seg"
    using inv by (rule open_hole) (use ab in \<open>auto simp: mem_blk\<close>)
  then have hand: "in_hand p k seg" using ab by (simp add: in_hand_def)
  from free_loop_ok [OF this n] obtain seg' where
    res: "free_loop p seg = Inr seg'" "free_effect p k seg seg'" "coalesced seg \<longrightarrow> coalesced seg'" by blast
  have "k < PM_NQUEUES" using hand n by (rule in_hand_bound)
  then have "(2 :: nat) ^ k \<le> 2 ^ 15" by (intro power_increasing) (simp_all add: PM_NQUEUES_def)
  then have "PG_SIZE (pages seg ! p) = 2 ^ k * PAGESIZE" using ab by (simp add: PG_SIZE_def PAGESIZE_def)
  moreover have "pm_allocated (pages seg ! p)" "\<not> pm_reserved (pages seg ! p)" using ab by auto
  ultimately have "pm_free_from_seg p seg = Inr (seg', (pg_vaddr (pages seg ! p), 2 ^ k * PAGESIZE))"
    using res(1) by (simp add: pm_free_from_seg_def Let_def)
  with res(2,3) that show thesis by blast
qed

end
