(* ===== verification/Page_Allocator.thy ===== *)
theory Page_Allocator
  imports Gz_Prelude
begin

text \<open>
  The contract of a page allocator, as the virtual memory code, the kernel stacks and the network
  buffers use it: blocks of \<open>2^k\<close> cells are handed out and taken back. What a client can rely on
  is proved here once, from the contract alone.
\<close>

datatype request = Alloc nat | Release nat

locale page_allocator =
  fixes alloc :: "nat \<Rightarrow> 's \<Rightarrow> ('a option \<times> 's) result"
    and release :: "'a \<Rightarrow> 's \<Rightarrow> 's result"
    and invar :: "'s \<Rightarrow> bool"
    and avail :: "'s \<Rightarrow> 'c set"
    and owns :: "'s \<Rightarrow> 'a \<Rightarrow> nat \<Rightarrow> bool"
    and cells :: "'a \<Rightarrow> nat \<Rightarrow> 'c set"
    and max_order :: nat
  assumes alloc_total: "invar s \<Longrightarrow> k \<le> max_order \<Longrightarrow> \<exists>a s'. alloc k s = Inr (a, s')"
    and alloc_none: "invar s \<Longrightarrow> k \<le> max_order \<Longrightarrow> alloc k s = Inr (None, s') \<Longrightarrow> s' = s"
    and alloc_some: "invar s \<Longrightarrow> k \<le> max_order \<Longrightarrow> alloc k s = Inr (Some a, s') \<Longrightarrow>
          invar s' \<and> owns s' a k \<and> cells a k \<subseteq> avail s \<and> avail s' = avail s - cells a k \<and>
          (\<forall>b j. owns s b j \<longrightarrow> owns s' b j)"
    and owns_apart: "invar s \<Longrightarrow> owns s a k \<Longrightarrow> cells a k \<inter> avail s = {}"
    and release_ok: "invar s \<Longrightarrow> owns s a k \<Longrightarrow>
          \<exists>s'. release a s = Inr s' \<and> invar s' \<and> avail s' = avail s \<union> cells a k \<and>
            (\<forall>b j. owns s b j \<longrightarrow> cells b j \<inter> cells a k = {} \<longrightarrow> owns s' b j)"
begin

text \<open>A client: it keeps the blocks it got, newest first, and gives back the one at an index.\<close>

fun serve :: "request list \<Rightarrow> ('a \<times> nat) list \<times> 's \<Rightarrow> (('a \<times> nat) list \<times> 's) result" where
  "serve [] (held, s) = Inr (held, s)"
| "serve (Alloc k # rs) (held, s) =
     (case alloc k s of
        Inl e \<Rightarrow> Inl e
      | Inr (None, s') \<Rightarrow> serve rs (held, s')
      | Inr (Some a, s') \<Rightarrow> serve rs ((a, k) # held, s'))"
| "serve (Release n # rs) (held, s) =
     (if n < length held then
        (case release (fst (held ! n)) s of
           Inl e \<Rightarrow> Inl e
         | Inr s' \<Rightarrow> serve rs (take n held @ drop (Suc n) held, s'))
      else serve rs (held, s))"

definition held_cells :: "('a \<times> nat) list \<Rightarrow> 'c set" where
  "held_cells held = (\<Union>(a, k) \<in> set held. cells a k)"

fun apart :: "('a \<times> nat) list \<Rightarrow> bool" where
  "apart [] \<longleftrightarrow> True"
| "apart ((a, k) # held) \<longleftrightarrow> cells a k \<inter> held_cells held = {} \<and> apart held"

definition client_inv :: "('a \<times> nat) list \<times> 's \<Rightarrow> bool" where
  "client_inv = (\<lambda>(held, s). invar s \<and> apart held \<and> (\<forall>(a, k) \<in> set held. owns s a k))"

lemma held_cells_simps [simp]:
  "held_cells [] = {}" "held_cells ((a, k) # held) = cells a k \<union> held_cells held"
  "held_cells (xs @ ys) = held_cells xs \<union> held_cells ys"
  by (auto simp: held_cells_def)

lemma held_cells_avail: "client_inv (held, s) \<Longrightarrow> held_cells held \<inter> avail s = {}"
  using owns_apart by (fastforce simp: client_inv_def held_cells_def)

lemma apart_append: "apart (xs @ ys) \<longleftrightarrow> apart xs \<and> apart ys \<and> held_cells xs \<inter> held_cells ys = {}"
  by (induction xs) auto

lemma client_alloc:
  assumes inv: "client_inv (held, s)" and k: "k \<le> max_order" and a: "alloc k s = Inr (Some a, s')"
  shows "client_inv ((a, k) # held, s')"
    and "avail s' \<union> held_cells ((a, k) # held) = avail s \<union> held_cells held"
  using alloc_some [OF _ k a] inv held_cells_avail [OF inv]
  by (auto simp: client_inv_def)

lemma client_release:
  assumes inv: "client_inv (xs @ (a, k) # ys, s)"
  obtains s' where "release a s = Inr s'" "client_inv (xs @ ys, s')"
    "avail s' \<union> held_cells (xs @ ys) = avail s \<union> held_cells (xs @ (a, k) # ys)"
proof -
  have "invar s" "owns s a k" using inv by (auto simp: client_inv_def)
  from release_ok [OF this] obtain s' where
    s': "release a s = Inr s'" "invar s'" "avail s' = avail s \<union> cells a k"
      "\<forall>b j. owns s b j \<longrightarrow> cells b j \<inter> cells a k = {} \<longrightarrow> owns s' b j" by blast
  have ap: "apart (xs @ (a, k) # ys)" using inv by (simp add: client_inv_def)
  have "owns s' b j" if "(b, j) \<in> set (xs @ ys)" for b j
  proof -
    have "owns s b j" using that inv by (auto simp: client_inv_def)
    moreover have "cells b j \<inter> cells a k = {}"
      using that ap by (fastforce simp: apart_append held_cells_def)
    ultimately show ?thesis using s'(4) by blast
  qed
  with s'(2) ap have "client_inv (xs @ ys, s')" by (auto simp: client_inv_def apart_append)
  with s'(1,3) that show thesis by auto
qed

definition orders_ok :: "request list \<Rightarrow> bool" where
  "orders_ok rs \<longleftrightarrow> (\<forall>k. Alloc k \<in> set rs \<longrightarrow> k \<le> max_order)"

text \<open>
  Whatever the requests are, the client is served without a fault, what it holds is disjoint, and
  no cell is lost or made up.
\<close>

lemma serve_ok:
  "client_inv (held, s) \<Longrightarrow> orders_ok rs \<Longrightarrow>
     \<exists>held' s'. serve rs (held, s) = Inr (held', s') \<and> client_inv (held', s') \<and>
       avail s' \<union> held_cells held' = avail s \<union> held_cells held"
proof (induction rs arbitrary: held s)
  case (Cons r rs)
  have rs: "orders_ok rs" using Cons.prems(2) by (simp add: orders_ok_def)
  show ?case
  proof (cases r)
    case (Alloc k)
    then have k: "k \<le> max_order" using Cons.prems(2) by (simp add: orders_ok_def)
    have inv: "invar s" using Cons.prems(1) by (simp add: client_inv_def)
    from alloc_total [OF this k] obtain a s' where res: "alloc k s = Inr (a, s')" by blast
    show ?thesis
    proof (cases a)
      case None
      with res alloc_none [OF inv k] have "s' = s" by simp
      with None res Alloc Cons.IH [OF Cons.prems(1) rs] show ?thesis by simp
    next
      case (Some b)
      note ca = client_alloc [OF Cons.prems(1) k res [unfolded Some]]
      from Cons.IH [OF ca(1) rs] ca(2) Alloc Some res show ?thesis by auto
    qed
  next
    case (Release n)
    show ?thesis
    proof (cases "n < length held")
      case True
      obtain a k where ak: "held ! n = (a, k)" by fastforce
      have split: "held = take n held @ (a, k) # drop (Suc n) held"
        using id_take_nth_drop [OF True] ak by simp
      from client_release [OF Cons.prems(1) [unfolded arg_cong [OF split, of "\<lambda>h. client_inv (h, s)"]]]
      obtain s' where res: "release a s = Inr s'"
        "client_inv (take n held @ drop (Suc n) held, s')"
        "avail s' \<union> held_cells (take n held @ drop (Suc n) held) = avail s \<union> held_cells held"
        using split by metis
      from Cons.IH [OF res(2) rs] res(1,3) Release True ak show ?thesis by auto
    next
      case False
      with Release Cons.IH [OF Cons.prems(1) rs] show ?thesis by simp
    qed
  qed
qed simp

end

end
