(* ===== verification/Phys_Mem_Props.thy ===== *)
theory Phys_Mem_Props
  imports Phys_Mem_Inv Page_Allocator
begin

text \<open>
  The physical page allocator from the outside: \<open>pm_seg_init\<close> builds a segment that satisfies
  the invariant, \<open>pm_seg_reserve\<close> ends and takes exactly the requested range away, and
  \<open>pm_alloc\<close>/\<open>pm_free\<close> implement an abstract allocator of aligned runs of pages.
\<close>

section \<open>Building a segment\<close>

lemma is_aligned_page [simp]: "is_aligned x PAGESIZE \<longleftrightarrow> PAGESIZE dvd x"
proof -
  have "x AND 4095 = take_bit 12 x" by (simp add: take_bit_eq_mask mask_eq_exp_minus_1)
  then show ?thesis by (simp add: is_aligned_def PAGESIZE_def take_bit_eq_mod mod_eq_0_iff_dvd)
qed

lemma init_fill_queue_skip: "t < 2 ^ i \<Longrightarrow> init_fill_queue i c t s = (c, t, s)"
  by (simp add: init_fill_queue.simps)

lemma init_fill_none: "init_fill i c 0 s = s"
  by (induction i) (simp_all add: init_fill_queue_skip)

lemma init_fill_power: "k < i \<Longrightarrow> init_fill i 0 (2 ^ k) s = put_blk 0 k s"
proof (induction i)
  case (Suc i)
  show ?case
  proof (cases "i = k")
    case True
    have "init_fill_queue k 0 (2 ^ k) s = (2 ^ k, 0, put_blk 0 k s)"
      by (simp add: init_fill_queue.simps [of k 0] init_fill_queue_skip put_blk_def)
    with True show ?thesis by (simp add: init_fill_none)
  next
    case False
    with Suc have "k < i" by simp
    then have "init_fill_queue i 0 (2 ^ k) s = (0, 2 ^ k, s)" by (simp add: init_fill_queue_skip)
    with Suc.IH \<open>k < i\<close> show ?thesis by simp
  qed
qed simp

definition init_seg :: "nat \<Rightarrow> nat \<Rightarrow> nat \<Rightarrow> nat \<Rightarrow> pm_seg" where
  "init_seg ctz0 start k vm_offset =
     \<lparr>seg_start = start, seg_end = start + PAGESIZE * 2 ^ k, freeq = replicate PM_NQUEUES [],
      npages = 2 ^ k, pages = map (init_page ctz0 k start vm_offset) [0..<2 ^ k]\<rparr>"

lemma pm_seg_init_put:
  assumes "PAGESIZE dvd start" "PAGESIZE dvd vm_offset" "k < PM_NQUEUES"
  shows "pm_seg_init ctz0 start (start + PAGESIZE * 2 ^ k) vm_offset = Inr (put_blk 0 k (init_seg ctz0 start k vm_offset))"
proof -
  have "min PM_NQUEUES (ffs (2 ^ k)) - 1 = k" using assms(3) by (simp add: ffs_def)
  moreover have "0 < PAGESIZE" by (simp add: PAGESIZE_def)
  ultimately show ?thesis
    using assms by (simp add: pm_seg_init_def init_fill_power init_seg_def Let_def del: upt_Suc)
qed

lemma init_seg_free:
  assumes "k < PM_NQUEUES"
  shows "free_blocks (put_blk 0 k (init_seg ctz0 start k vm_offset)) = {(0, k)}"
    "free_pages (put_blk 0 k (init_seg ctz0 start k vm_offset)) = {..<2 ^ k}"
    "npages (put_blk 0 k (init_seg ctz0 start k vm_offset)) = 2 ^ k"
    "seg_start (put_blk 0 k (init_seg ctz0 start k vm_offset)) = start"
    "pg_size (pages (put_blk 0 k (init_seg ctz0 start k vm_offset)) ! 0) = 2 ^ min k ctz0"
proof -
  have "free_blocks (init_seg ctz0 start k vm_offset) = {}" by (auto simp: free_blocks_def init_seg_def)
  then show "free_blocks (put_blk 0 k (init_seg ctz0 start k vm_offset)) = {(0, k)}"
    using assms by (simp add: free_blocks_put init_seg_def)
  show "free_pages (put_blk 0 k (init_seg ctz0 start k vm_offset)) = {..<2 ^ k}"
    by (auto simp: free_pages_def put_blk_def init_page_def init_seg_def split: if_splits)
  show "npages (put_blk 0 k (init_seg ctz0 start k vm_offset)) = 2 ^ k"
    "seg_start (put_blk 0 k (init_seg ctz0 start k vm_offset)) = start"
    "pg_size (pages (put_blk 0 k (init_seg ctz0 start k vm_offset)) ! 0) = 2 ^ min k ctz0"
    by (simp_all add: put_blk_def init_seg_def upd_page_def init_page_def)
qed

lemma init_seg_inv:
  assumes al: "PAGESIZE dvd start" and k: "k < PM_NQUEUES" and r: "start + PAGESIZE * 2 ^ k < 2 ^ 32"
  shows "seg_inv {} (put_blk 0 k (init_seg ctz0 start k vm_offset)) \<longleftrightarrow> k \<le> ctz0"
proof
  let ?s = "init_seg ctz0 start k vm_offset"
  assume i: "seg_inv {} (put_blk 0 k ?s)"
  have "(0, k) \<in> free_blocks (put_blk 0 k ?s)" using init_seg_free(1) [OF k] by simp
  from seg_invD(4) [OF i this] have "pg_size (pages (put_blk 0 k ?s) ! 0) = 2 ^ k" by simp
  then have "2 ^ min k ctz0 = (2 ^ k :: nat)" using init_seg_free(5) [OF k, of ctz0 start vm_offset] by simp
  then show "k \<le> ctz0" by (simp add: min_def split: if_splits)
next
  let ?s = "init_seg ctz0 start k vm_offset"
  assume c: "k \<le> ctz0"
  have fb0: "free_blocks ?s = {}" by (auto simp: free_blocks_def init_seg_def)
  have "start + PAGESIZE * q < 2 ^ 32" if "q < 2 ^ k" for q
  proof -
    have "PAGESIZE * q \<le> PAGESIZE * 2 ^ k" using that by simp
    with r show ?thesis by linarith
  qed
  then have lay: "seg_layout ?s" using al r by (simp add: seg_layout_def init_page_def init_seg_def)
  have "seg_inv (blk 0 k) ?s"
    unfolding seg_inv_def fb0 using lay by (auto simp: init_page_def mem_blk init_seg_def)
  then have "seg_inv (blk 0 k - blk 0 k) (put_blk 0 k ?s)"
    by (rule put_blk_inv) (use k c in \<open>auto simp: init_page_def mem_blk init_seg_def\<close>)
  then show "seg_inv {} (put_blk 0 k ?s)" by simp
qed

lemma pm_seg_init_ok:
  assumes al: "PAGESIZE dvd start" "PAGESIZE dvd vm_offset" and k: "k < PM_NQUEUES" "k \<le> ctz0"
    and r: "start + PAGESIZE * 2 ^ k < 2 ^ 32"
  obtains seg where "pm_seg_init ctz0 start (start + PAGESIZE * 2 ^ k) vm_offset = Inr seg"
    "seg_inv {} seg" "npages seg = 2 ^ k" "free_blocks seg = {(0, k)}" "free_pages seg = {..<2 ^ k}"
    "seg_start seg = start"
proof (rule that [OF pm_seg_init_put [OF al k(1)]])
  show "seg_inv {} (put_blk 0 k (init_seg ctz0 start k vm_offset))"
    unfolding init_seg_inv [OF al(1) k(1) r] by (rule k(2))
qed (rule init_seg_free [OF k(1)])+

section \<open>Reserving a range\<close>

text \<open>
  \<open>R\<close> is the set of the pages of the range. A pair of free buddies can appear while the range is
  cut out of the blocks around it, but only where the pair meets \<open>R\<close>.
\<close>

definition reserve_inv :: "nat set \<Rightarrow> pm_seg \<Rightarrow> bool" where
  "reserve_inv R seg \<longleftrightarrow>
     (\<forall>p k. 2 ^ Suc k dvd p \<longrightarrow> (p, k) \<in> free_blocks seg \<longrightarrow> (p + 2 ^ k, k) \<in> free_blocks seg \<longrightarrow>
        blk p (Suc k) \<inter> R \<noteq> {})"

definition reserve_effect :: "nat set \<Rightarrow> pm_seg \<Rightarrow> pm_seg \<Rightarrow> bool" where
  "reserve_effect R seg seg' \<longleftrightarrow>
     seg_inv {} seg' \<and> npages seg' = npages seg \<and> seg_start seg' = seg_start seg \<and>
     free_pages seg' \<subseteq> free_pages seg \<and> free_pages seg - R \<subseteq> free_pages seg' \<and>
     (\<forall>q < npages seg. q \<notin> free_pages seg \<longrightarrow> pages seg' ! q = pages seg ! q) \<and>
     (reserve_inv R seg \<longrightarrow> reserve_inv R seg')"

lemma reserve_effect_refl: "seg_inv {} seg \<Longrightarrow> reserve_effect R seg seg"
  by (simp add: reserve_effect_def)

lemma reserve_effect_trans:
  assumes "reserve_effect R s t" "reserve_effect R t u" shows "reserve_effect R s u"
proof -
  have "pages u ! q = pages s ! q" if "q < npages s" "q \<notin> free_pages s" for q
  proof -
    have "q < npages t" "q \<notin> free_pages t" using that assms(1) by (auto simp: reserve_effect_def)
    with that assms show ?thesis by (simp add: reserve_effect_def)
  qed
  with assms show ?thesis by (auto simp: reserve_effect_def)
qed

lemma reserve_split:
  assumes inv: "seg_inv {} seg" and b: "(p, Suc i) \<in> free_blocks seg" and R: "blk p (Suc i) \<inter> R \<noteq> {}"
  shows "reserve_effect R seg (split_blk p i seg)"
proof -
  let ?s = "split_blk p i seg"
  note sp = split_blk_inv [OF inv b]
  have al: "2 ^ Suc i dvd p" using inv b by (rule seg_invD)
  have "free_pages ?s = free_pages seg" using sp(3) by (auto simp: free_pages_def same_flags_def)
  moreover have "seg_start ?s = seg_start seg"
    by (simp add: split_blk_def)
  moreover have "npages ?s = npages seg" by (simp add: split_blk_def)
  moreover have "reserve_inv R ?s" if ri: "reserve_inv R seg"
    unfolding reserve_inv_def
  proof (intro allI impI)
    fix q k
    assume q: "2 ^ Suc k dvd q" "(q, k) \<in> free_blocks ?s" "(q + 2 ^ k, k) \<in> free_blocks ?s"
    show "blk q (Suc k) \<inter> R \<noteq> {}"
    proof (cases "(q, k) \<in> {(p, i), (p + 2 ^ i, i)} \<or> (q + 2 ^ k, k) \<in> {(p, i), (p + 2 ^ i, i)}")
      case True
      moreover have "q \<noteq> p + 2 ^ i" if "k = i" using not_double_dvd [OF al] q(1) that by auto
      moreover have "q + 2 ^ i \<noteq> p" if "k = i" using not_double_dvd [of i q] q(1) al that by auto
      ultimately have "k = i \<and> q = p" by auto
      with R show ?thesis by simp
    next
      case False
      with q(2,3) have "(q, k) \<in> free_blocks seg" "(q + 2 ^ k, k) \<in> free_blocks seg"
        unfolding sp(2) by blast+
      with ri q(1) show ?thesis unfolding reserve_inv_def by blast
    qed
  qed
  ultimately show ?thesis
    using sp(1) split_blk_frame [OF inv b] unfolding reserve_effect_def by simp
qed

abbreviation set_reserved :: "vm_page \<Rightarrow> vm_page" where
  "set_reserved q \<equiv> q\<lparr>pm_reserved := True, pm_allocated := False, pm_managed := False\<rparr>"

lemma reserve_take:
  assumes inv: "seg_inv {} seg" and b: "(p, i) \<in> free_blocks seg" and R: "blk p i \<subseteq> R"
  shows "reserve_effect R seg (upd_pages p (2 ^ i) set_reserved (take_blk p i seg))"
proof -
  let ?t = "take_blk p i seg"
  let ?s = "upd_pages p (2 ^ i) set_reserved ?t"
  note l = layout_lengths [OF seg_invD(1) [OF inv]]
  have inv1: "seg_inv (blk p i) ?t" using take_blk_inv [OF inv b] by simp
  have sub: "blk p i \<subseteq> free_pages seg" using block_free [OF inv b] by (auto simp: free_pages_def)
  have pg: "pages ?s ! q = (if q \<in> blk p i then set_reserved (pages ?t ! q) else pages seg ! q)"
    if "q < npages seg" for q
    using that l by (auto simp: take_blk_def mem_blk)
  have pgt: "q \<notin> blk p i \<Longrightarrow> q < npages seg \<Longrightarrow> pages ?t ! q = pages seg ! q" for q
    using l by (auto simp: take_blk_def mem_blk)
  have "seg_inv (blk p i) ?s"
    by (rule hole_upd_inv [OF inv1]) (auto simp: pg pgt hole_not_managed [OF inv1])
  then have "seg_inv (blk p i - blk p i) ?s" by (rule close_hole) (auto simp: pg)
  moreover have "free_pages ?s = free_pages seg - blk p i"
    by (auto simp: free_pages_def pg split: if_splits)
  moreover have "pages ?s ! q = pages seg ! q" if "q < npages seg" "q \<notin> free_pages seg" for q
  proof -
    have "q \<notin> blk p i" using that sub by blast
    with that show ?thesis by (simp add: pg)
  qed
  moreover have "seg_start ?s = seg_start seg" by simp
  moreover have "reserve_inv R seg \<longrightarrow> reserve_inv R ?s"
    using free_blocks_take [of seg i p] l free_blocks_bound [OF seg_invD(1) [OF inv] b]
    by (auto simp: reserve_inv_def)
  ultimately show ?thesis using R unfolding reserve_effect_def by auto
qed

lemma page_addr:
  assumes inv: "seg_inv H seg" and b: "(p, i) \<in> free_blocks seg"
  shows "PG_START (pages seg ! p) = seg_start seg + PAGESIZE * p"
    and "PG_END (pages seg ! p) = seg_start seg + PAGESIZE * (p + 2 ^ i)"
proof -
  note lay = seg_invD(1) [OF inv, unfolded seg_layout_def]
  have addr: "pg_paddr (pages seg ! p) = seg_start seg + PAGESIZE * p"
    using lay free_blocks_less [OF inv b] by simp
  have "PAGESIZE * (p + 2 ^ i) \<le> PAGESIZE * npages seg" using seg_invD(3) [OF inv b] by simp
  with lay have lt: "seg_start seg + PAGESIZE * (p + 2 ^ i) < 2 ^ 32" by linarith
  show "PG_START (pages seg ! p) = seg_start seg + PAGESIZE * p" by (simp add: PG_START_def addr)
  show "PG_END (pages seg ! p) = seg_start seg + PAGESIZE * (p + 2 ^ i)"
    using lt seg_invD(4) [OF inv b] addr
    by (simp add: PG_END_def PG_SIZE_def algebra_simps)
qed

text \<open>The tests of \<open>pm_seg_reserve\<close> on addresses, as tests on page indices.\<close>

lemma page_tests:
  assumes inv: "seg_inv H seg" and b: "(p, i) \<in> free_blocks seg"
    and x: "start = seg_start seg + PAGESIZE * x" and y: "end' = seg_start seg + PAGESIZE * y"
  shows "start \<le> PG_START (pages seg ! p) \<and> PG_END (pages seg ! p) \<le> end' \<longleftrightarrow> x \<le> p \<and> p + 2 ^ i \<le> y"
    and "(PG_START (pages seg ! p) < start \<and> start < PG_END (pages seg ! p)) \<or>
         (PG_START (pages seg ! p) < end' \<and> end' < PG_END (pages seg ! p)) \<longleftrightarrow>
         (p < x \<and> x < p + 2 ^ i) \<or> (p < y \<and> y < p + 2 ^ i)"
  using page_addr [OF inv b] x y by (auto simp: PAGESIZE_def)

lemma reserve_queue_ok:
  assumes "seg_inv {} seg" and "x < y" and "i < PM_NQUEUES" and "freeq seg ! i = vis @ rest"
    and "\<And>p. p \<in> set vis \<Longrightarrow> blk p i \<inter> {x..<y} = {}"
    and "start = seg_start seg + PAGESIZE * x" and "end' = seg_start seg + PAGESIZE * y"
  shows "\<exists>seg'. reserve_queue start end' i rest seg = Some (Inr seg') \<and> reserve_effect {x..<y} seg seg' \<and>
           (\<forall>j > i. freeq seg' ! j = freeq seg ! j) \<and> (\<forall>p \<in> set (freeq seg' ! i). blk p i \<inter> {x..<y} = {})"
  using assms
proof (induction "length (freeq seg ! i)" arbitrary: seg vis rest rule: less_induct)
  case less
  note outer = less.hyps and inv = less.prems(1) and addr = less.prems(6,7)
  note lay = seg_invD(1) [OF inv]
  note l = layout_lengths [OF lay]
  let ?R = "{x..<y}"
  have restart: "\<exists>seg'. reserve_queue start end' i (freeq t ! i) t = Some (Inr seg') \<and> reserve_effect ?R seg seg' \<and>
      (\<forall>j > i. freeq seg' ! j = freeq seg ! j) \<and> (\<forall>p \<in> set (freeq seg' ! i). blk p i \<inter> ?R = {})"
    if t: "reserve_effect ?R seg t" "length (freeq t ! i) < length (freeq seg ! i)"
      "\<And>j. i < j \<Longrightarrow> freeq t ! j = freeq seg ! j" for t
  proof -
    have "seg_inv {} t" "seg_start t = seg_start seg" using t(1) by (simp_all add: reserve_effect_def)
    with outer [of t "[]" "freeq t ! i"] t(2) less.prems(2,3) addr obtain seg' where
      "reserve_queue start end' i (freeq t ! i) t = Some (Inr seg')" "reserve_effect ?R t seg'"
      "\<forall>j > i. freeq seg' ! j = freeq t ! j" "\<forall>p \<in> set (freeq seg' ! i). blk p i \<inter> ?R = {}" by auto
    with t reserve_effect_trans [OF t(1)] show ?thesis by auto
  qed
  show ?case
    using less.prems(4,5)
  proof (induction rest arbitrary: vis)
    case Nil
    then show ?case using inv by (auto simp: reserve_queue.simps reserve_effect_refl)
  next
    case (Cons p rest)
    have b: "(p, i) \<in> free_blocks seg" using Cons.prems(1) less.prems(3) l by (simp add: free_blocks_def)
    note tests = page_tests [OF inv b addr]
    have sz: "pg_size (pages seg ! p) = 2 ^ i" "p < npages seg" "p + 2 ^ i \<le> npages seg"
      using seg_invD(3,4) [OF inv b] free_blocks_less [OF inv b] by simp_all
    have short: "length (remove1 p (freeq seg ! i)) < length (freeq seg ! i)"
      using Cons.prems(1) by (simp add: length_remove1)
    consider (inside) "x \<le> p \<and> p + 2 ^ i \<le> y"
      | (cut) "\<not> (x \<le> p \<and> p + 2 ^ i \<le> y)" "(p < x \<and> x < p + 2 ^ i) \<or> (p < y \<and> y < p + 2 ^ i)"
      | (apart) "\<not> (x \<le> p \<and> p + 2 ^ i \<le> y)" "\<not> ((p < x \<and> x < p + 2 ^ i) \<or> (p < y \<and> y < p + 2 ^ i))"
      by blast
    then show ?case
    proof cases
      case inside
      let ?t = "upd_pages p (2 ^ i) set_reserved (take_blk p i seg)"
      have "blk p i \<subseteq> ?R" using inside by (auto simp: mem_blk)
      then have "reserve_effect ?R seg ?t" by (rule reserve_take [OF inv b])
      moreover have "reserve_queue start end' i (p # rest) seg = reserve_queue start end' i (freeq ?t ! i) ?t"
        using inside tests sz l
        by (subst reserve_queue.simps) (simp add: freeq_remove_ok [OF lay b] mark_pages_def take_blk_def Let_def)
      ultimately show ?thesis
        using restart [of ?t] short less.prems(3) l by (simp add: take_blk_def)
    next
      case cut
      then obtain i' where i: "i = Suc i'" by (cases i) auto
      let ?t = "split_blk p i' seg"
      from cut(2) less.prems(2) have "(x \<in> blk p i \<and> x \<in> ?R) \<or> (y - 1 \<in> blk p i \<and> y - 1 \<in> ?R)"
        by (auto simp: mem_blk)
      then have "blk p i \<inter> ?R \<noteq> {}" by blast
      then have "reserve_effect ?R seg ?t" using reserve_split [OF inv] b i by blast
      moreover have "reserve_queue start end' i (p # rest) seg = reserve_queue start end' i (freeq ?t ! i) ?t"
        using pm_split_page_eq [OF inv, of p i'] b i tests(1) [THEN iffD1, THEN notE [OF cut(1)]]
          tests(2) [THEN iffD2, OF cut(2)]
        by (subst reserve_queue.simps) (auto simp: Let_def)
      ultimately show ?thesis
        using restart [of ?t] short less.prems(3) l i
        by (simp add: split_blk_def put_blk_def take_blk_def resize_def)
    next
      case apart
      then have "blk p i \<inter> ?R = {}" by (auto simp: mem_blk)
      with Cons.IH [of "vis @ [p]"] Cons.prems have
        "\<exists>seg'. reserve_queue start end' i rest seg = Some (Inr seg') \<and> reserve_effect ?R seg seg' \<and>
           (\<forall>j > i. freeq seg' ! j = freeq seg ! j) \<and> (\<forall>p \<in> set (freeq seg' ! i). blk p i \<inter> ?R = {})" by auto
      moreover have "reserve_queue start end' i (p # rest) seg = reserve_queue start end' i rest seg"
        using apart tests by (subst reserve_queue.simps) (auto simp: Let_def)
      ultimately show ?thesis by simp
    qed
  qed
qed

lemma reserve_queues_ok:
  assumes "seg_inv {} seg" and "x < y" and "n \<le> PM_NQUEUES"
    and "\<And>p i. n \<le> i \<Longrightarrow> (p, i) \<in> free_blocks seg \<Longrightarrow> blk p i \<inter> {x..<y} = {}"
    and "start = seg_start seg + PAGESIZE * x" and "end' = seg_start seg + PAGESIZE * y"
  shows "\<exists>seg'. reserve_queues start end' n seg = Some (Inr seg') \<and> reserve_effect {x..<y} seg seg' \<and>
           (\<forall>p i. (p, i) \<in> free_blocks seg' \<longrightarrow> blk p i \<inter> {x..<y} = {})"
  using assms
proof (induction n arbitrary: seg)
  case 0
  then show ?case by (auto simp: reserve_effect_refl)
next
  case (Suc n)
  let ?R = "{x..<y}"
  note l = layout_lengths [OF seg_invD(1) [OF Suc.prems(1)]]
  from reserve_queue_ok [of seg x y n "[]" "freeq seg ! n" start end'] Suc.prems obtain t where
    t: "reserve_queue start end' n (freeq seg ! n) seg = Some (Inr t)" "reserve_effect ?R seg t"
      "\<forall>j > n. freeq t ! j = freeq seg ! j" "\<forall>p \<in> set (freeq t ! n). blk p n \<inter> ?R = {}" by auto
  from t(2) have inv: "seg_inv {} t" "seg_start t = seg_start seg" by (simp_all add: reserve_effect_def)
  have "blk p i \<inter> ?R = {}" if "n \<le> i" "(p, i) \<in> free_blocks t" for p i
  proof (cases "i = n")
    case True
    with that(2) t(4) show ?thesis by (auto simp: free_blocks_def)
  next
    case False
    with that(1) have "Suc n \<le> i" by simp
    moreover from this that(2) t(3) have "(p, i) \<in> free_blocks seg"
      using l(1) free_blocks_bound [OF seg_invD(1) [OF inv(1)] that(2)] by (simp add: free_blocks_def)
    ultimately show ?thesis by (rule Suc.prems(4))
  qed
  from Suc.IH [OF inv(1) Suc.prems(2) _ this] Suc.prems(3,5,6) inv(2) obtain seg' where
    "reserve_queues start end' n t = Some (Inr seg')" "reserve_effect ?R t seg'"
    "\<forall>p i. (p, i) \<in> free_blocks seg' \<longrightarrow> blk p i \<inter> ?R = {}" by auto
  with t(1) reserve_effect_trans [OF t(2)] show ?case by auto
qed

lemma pm_seg_reserve_ok:
  assumes inv: "seg_inv {} seg" and xy: "x < y" "y \<le> npages seg"
  obtains seg' where
    "pm_seg_reserve (seg_start seg + PAGESIZE * x) (seg_start seg + PAGESIZE * y) seg = Some (Inr seg')"
    "seg_inv {} seg'" "npages seg' = npages seg" "free_pages seg' = free_pages seg - {x..<y}"
    "\<And>q. q < npages seg \<Longrightarrow> q \<notin> free_pages seg \<Longrightarrow> pages seg' ! q = pages seg ! q"
    "coalesced seg \<Longrightarrow> coalesced seg'"
proof -
  let ?R = "{x..<y}"
  note lay = seg_invD(1) [OF inv, unfolded seg_layout_def]
  from reserve_queues_ok [OF inv xy(1) order.refl _ refl refl] free_blocks_bound [OF seg_invD(1) [OF inv]]
  obtain seg' where res: "reserve_queues (seg_start seg + PAGESIZE * x) (seg_start seg + PAGESIZE * y) PM_NQUEUES seg = Some (Inr seg')"
    "reserve_effect ?R seg seg'" "\<And>p i. (p, i) \<in> free_blocks seg' \<Longrightarrow> blk p i \<inter> ?R = {}"
    by (metis (no_types, lifting) leD)
  have inv': "seg_inv {} seg'" using res(2) by (simp add: reserve_effect_def)
  have "free_pages seg' \<inter> ?R = {}"
    using seg_invD(9) [OF inv'] res(3) by (fastforce simp: free_pages_def)
  with res(2) have fp: "free_pages seg' = free_pages seg - ?R" by (auto simp: reserve_effect_def)
  have "coalesced seg'" if "coalesced seg"
  proof -
    from that res(2) have "reserve_inv ?R seg'" by (auto simp: reserve_effect_def reserve_inv_def coalesced_def)
    with res(3) show ?thesis unfolding reserve_inv_def coalesced_def blk_Suc by blast
  qed
  moreover have "PAGESIZE * y \<le> PAGESIZE * npages seg" "PAGESIZE * x < PAGESIZE * y"
    using xy by (simp_all add: PAGESIZE_def)
  then have "pm_seg_reserve (seg_start seg + PAGESIZE * x) (seg_start seg + PAGESIZE * y) seg = Some (Inr seg')"
    using lay res(1) by (simp add: pm_seg_reserve_def)
  ultimately show thesis using that [of seg'] inv' fp res(2) by (auto simp: reserve_effect_def)
qed

section \<open>The list of segments\<close>

definition pm_inv :: "pm_seg list \<Rightarrow> bool" where
  "pm_inv segs \<longleftrightarrow>
     (\<forall>seg \<in> set segs. seg_inv {} seg \<and> npages seg < 2 ^ PM_NQUEUES \<and> coalesced seg) \<and>
     (\<forall>i < length segs. \<forall>j < length segs. i \<noteq> j \<longrightarrow>
        seg_end (segs ! i) \<le> seg_start (segs ! j) \<or> seg_end (segs ! j) \<le> seg_start (segs ! i))"

definition pm_avail :: "pm_seg list \<Rightarrow> (nat \<times> nat) set" where
  "pm_avail segs = {(k, q). k < length segs \<and> q \<in> free_pages (segs ! k)}"

definition pm_owns :: "pm_seg list \<Rightarrow> nat \<times> nat \<Rightarrow> nat \<Rightarrow> bool" where
  "pm_owns segs = (\<lambda>(k, p) j. k < length segs \<and> alloc_block (segs ! k) p j)"

definition pm_cells :: "nat \<times> nat \<Rightarrow> nat \<Rightarrow> (nat \<times> nat) set" where
  "pm_cells = (\<lambda>(k, p) j. {k} \<times> blk p j)"

lemma pm_invD:
  assumes "pm_inv segs" "k < length segs"
  shows "seg_inv {} (segs ! k)" "npages (segs ! k) < 2 ^ PM_NQUEUES" "coalesced (segs ! k)"
  using assms by (auto simp: pm_inv_def)

lemma seg_end_eq: "seg_inv H seg \<Longrightarrow> seg_end seg = seg_start seg + PAGESIZE * npages seg"
  by (drule seg_invD(1)) (simp add: seg_layout_def)

lemma pm_inv_update:
  assumes inv: "pm_inv segs" and k: "k < length segs"
    and seg': "seg_inv {} seg'" "coalesced seg'" "npages seg' = npages (segs ! k)"
      "seg_start seg' = seg_start (segs ! k)"
  shows "pm_inv (segs[k := seg'])"
proof -
  have "seg_end seg' = seg_end (segs ! k)"
    using seg_end_eq [OF seg'(1)] seg_end_eq [OF pm_invD(1) [OF inv k]] seg'(3,4) by simp
  moreover have "seg_inv {} seg \<and> npages seg < 2 ^ PM_NQUEUES \<and> coalesced seg"
    if "seg \<in> set (segs[k := seg'])" for seg
  proof (cases "seg = seg'")
    case False
    with that set_update_subset_insert [of segs k seg'] have "seg \<in> set segs" by blast
    with inv show ?thesis by (simp add: pm_inv_def)
  qed (use seg' pm_invD(2) [OF inv k] in simp)
  ultimately show ?thesis
    using inv k seg' unfolding pm_inv_def by auto
qed

lemma alloc_segs_cases:
  assumes "\<And>seg. seg \<in> set segs \<Longrightarrow> seg_inv {} seg" and k: "k \<le> PM_NQUEUES"
  obtains (none) "alloc_segs (2 ^ k) segs = Inr (None, segs)"
      "\<And>seg p i. seg \<in> set segs \<Longrightarrow> (p, i) \<in> free_blocks seg \<Longrightarrow> i < k"
    | (some) n page seg' where "alloc_segs (2 ^ k) segs = Inr (Some (n, page), segs[n := seg'])"
      "n < length segs" "alloc_effect page k (segs ! n) seg'" "coalesced (segs ! n) \<Longrightarrow> coalesced seg'"
  using assms
proof (induction segs arbitrary: thesis)
  case Nil
  then show ?case by simp
next
  case (Cons seg segs)
  have inv: "seg_inv {} seg" using Cons.prems(3) by simp
  show ?case
  proof (rule pm_alloc_from_seg_cases [OF inv k])
    assume no: "pm_alloc_from_seg (2 ^ k) seg = Inr (None, seg)" "\<And>p i. (p, i) \<in> free_blocks seg \<Longrightarrow> i < k"
    show ?case
    proof (rule Cons.IH)
      assume "alloc_segs (2 ^ k) segs = Inr (None, segs)"
        "\<And>seg p i. seg \<in> set segs \<Longrightarrow> (p, i) \<in> free_blocks seg \<Longrightarrow> i < k"
      with no show ?case by (intro Cons.prems(1)) auto
    next
      fix n page seg'
      assume "alloc_segs (2 ^ k) segs = Inr (Some (n, page), segs[n := seg'])"
        "n < length segs" "alloc_effect page k (segs ! n) seg'" "coalesced (segs ! n) \<Longrightarrow> coalesced seg'"
      then show ?case using Cons.prems(2) [of "Suc n" page seg'] no by simp
    qed (use Cons.prems in auto)
  next
    fix page seg'
    assume "pm_alloc_from_seg (2 ^ k) seg = Inr (Some page, seg')" "alloc_effect page k seg seg'"
      "coalesced seg \<Longrightarrow> coalesced seg'"
    then show ?case using Cons.prems(2) [of 0 page seg'] by simp
  qed
qed

lemma pm_alloc_cases:
  assumes inv: "pm_inv segs" and k: "k \<le> PM_NQUEUES"
  obtains (none) "pm_alloc (2 ^ k) segs = Inr (None, segs)"
      "\<And>seg p i. seg \<in> set segs \<Longrightarrow> (p, i) \<in> free_blocks seg \<Longrightarrow> i < k"
    | (some) n page seg' where "pm_alloc (2 ^ k) segs = Inr (Some (n, page), segs[n := seg'])"
      "n < length segs" "alloc_effect page k (segs ! n) seg'" "pm_inv (segs[n := seg'])"
proof -
  have eq: "pm_alloc (2 ^ k) segs = alloc_segs (2 ^ k) segs" by (simp add: pm_alloc_def)
  show thesis
  proof (rule alloc_segs_cases [OF _ k])
    fix seg assume "seg \<in> set segs"
    then show "seg_inv {} seg" using inv by (simp add: pm_inv_def)
  next
    fix n page seg'
    assume some: "alloc_segs (2 ^ k) segs = Inr (Some (n, page), segs[n := seg'])"
      "n < length segs" "alloc_effect page k (segs ! n) seg'" "coalesced (segs ! n) \<Longrightarrow> coalesced seg'"
    then have "pm_inv (segs[n := seg'])"
      using pm_invD(3) [OF inv some(2)] by (intro pm_inv_update [OF inv some(2)]) (auto simp: alloc_effect_def)
    with some that(2) eq show thesis by simp
  qed (use that(1) eq in simp)
qed

lemma alloc_block_kept:
  assumes "alloc_block seg b j" and n: "npages seg' = npages seg"
    and "\<And>q. q < npages seg \<Longrightarrow> q \<in> blk b j \<Longrightarrow> pages seg' ! q = pages seg ! q"
  shows "alloc_block seg' b j"
proof -
  have "q < npages seg" if "q \<in> blk b j" for q using that assms(1) by (simp add: alloc_block_def mem_blk)
  with assms show ?thesis by (simp add: alloc_block_def n)
qed

lemma alloc_block_not_free: "alloc_block seg b j \<Longrightarrow> q \<in> blk b j \<Longrightarrow> q \<notin> free_pages seg"
  by (auto simp: alloc_block_def free_pages_def)

lemma pm_owns_kept:
  assumes owns: "pm_owns segs b j" and n: "n < length segs" and np: "npages seg' = npages (segs ! n)"
    and keep: "\<And>q. q < npages (segs ! n) \<Longrightarrow> (n, q) \<in> pm_cells b j \<Longrightarrow> pages seg' ! q = pages (segs ! n) ! q"
  shows "pm_owns (segs[n := seg']) b j"
proof -
  obtain m p where b: "b = (m, p)" by fastforce
  from owns have "m < length segs" "alloc_block (segs ! m) p j" by (simp_all add: pm_owns_def b)
  then show ?thesis
    using alloc_block_kept [of "segs ! m" p j seg'] np keep by (auto simp: pm_owns_def b pm_cells_def)
qed

lemma pm_avail_update:
  "n < length segs \<Longrightarrow> pm_avail (segs[n := seg']) =
     {(k, q). k < length segs \<and> q \<in> (if k = n then free_pages seg' else free_pages (segs ! k))}"
  by (auto simp: pm_avail_def)

text \<open>\<open>pm_free\<close> finds the segment a held page belongs to.\<close>

lemma seg_of_page_ok:
  assumes inv: "pm_inv segs" and n: "n < length segs" and a: "alloc_block (segs ! n) p k"
  shows "seg_of_page (pages (segs ! n) ! p) segs = Some n"
proof -
  let ?pg = "pages (segs ! n) ! p"
  note lay = seg_invD(1) [OF pm_invD(1) [OF inv n], unfolded seg_layout_def]
  have r: "p + 2 ^ k \<le> npages (segs ! n)" "pg_size ?pg = 2 ^ k" using a by (simp_all add: alloc_block_def)
  have p: "p < npages (segs ! n)" using r(1) less_le_trans [of p "p + 2 ^ k"] by simp
  have "PAGESIZE * (p + 2 ^ k) \<le> PAGESIZE * npages (segs ! n)" using r(1) by simp
  then have lt: "seg_start (segs ! n) + PAGESIZE * (p + 2 ^ k) \<le> seg_end (segs ! n)" using lay by linarith
  have st: "PG_START ?pg = seg_start (segs ! n) + PAGESIZE * p" using lay p by (simp add: PG_START_def)
  have en: "PG_END ?pg = seg_start (segs ! n) + PAGESIZE * (p + 2 ^ k)"
    using lay p lt r(2) le_less_trans [OF lt, of "2 ^ 32"]
    by (simp add: PG_END_def PG_SIZE_def algebra_simps)
  have lt': "PG_START ?pg < PG_END ?pg" unfolding st en by (simp add: PAGESIZE_def)
  have hit: "seg_start (segs ! n) \<le> PG_START ?pg \<and> PG_END ?pg \<le> seg_end (segs ! n)"
    using st en lt by simp
  have miss: "\<not> (seg_start (segs ! j) \<le> PG_START ?pg \<and> PG_END ?pg \<le> seg_end (segs ! j))"
    if "j < length segs" "j \<noteq> n" for j
  proof -
    have "seg_end (segs ! j) \<le> seg_start (segs ! n) \<or> seg_end (segs ! n) \<le> seg_start (segs ! j)"
      using inv that n unfolding pm_inv_def by blast
    with hit lt' show ?thesis by auto
  qed
  have "seg_of_page pg segs = Some n"
    if "n < length segs" "seg_start (segs ! n) \<le> PG_START pg \<and> PG_END pg \<le> seg_end (segs ! n)"
      "\<And>j. j < n \<Longrightarrow> \<not> (seg_start (segs ! j) \<le> PG_START pg \<and> PG_END pg \<le> seg_end (segs ! j))" for pg segs n
    using that
  proof (induction segs arbitrary: n)
    case (Cons seg segs)
    show ?case
    proof (cases n)
      case 0
      with Cons.prems show ?thesis by simp
    next
      case (Suc m)
      with Cons.prems(3) [of 0] Cons.IH [of m] Cons.prems(1,2) Cons.prems(3) [of "Suc _"] show ?thesis by simp
    qed
  qed simp
  from this [OF n hit] miss n show ?thesis by simp
qed

lemma pm_free_ok:
  assumes inv: "pm_inv segs" and own: "pm_owns segs (n, p) k"
  obtains seg' where "pm_free (n, p) segs = Inr (segs[n := seg'], (pg_vaddr (pages (segs ! n) ! p), 2 ^ k * PAGESIZE))"
    "pm_inv (segs[n := seg'])" "free_effect p k (segs ! n) seg'"
proof -
  from own have n: "n < length segs" and a: "alloc_block (segs ! n) p k" by (simp_all add: pm_owns_def)
  note i = pm_invD [OF inv n]
  from pm_free_from_seg_ok [OF i(1,2) a] obtain seg' where
    s: "pm_free_from_seg p (segs ! n) = Inr (seg', (pg_vaddr (pages (segs ! n) ! p), 2 ^ k * PAGESIZE))"
      "free_effect p k (segs ! n) seg'" "coalesced (segs ! n) \<Longrightarrow> coalesced seg'" by blast
  have "pm_inv (segs[n := seg'])"
    using s(2,3) i(3) by (intro pm_inv_update [OF inv n]) (auto simp: free_effect_def)
  with s(1,2) seg_of_page_ok [OF inv n a] that show thesis by (simp add: pm_free_def)
qed

interpretation pma: page_allocator
  "\<lambda>k. pm_alloc (2 ^ k)" "\<lambda>a segs. map_sum id fst (pm_free a segs)" pm_inv pm_avail pm_owns pm_cells PM_NQUEUES
proof (unfold_locales, goal_cases)
  case (1 s k)
  then show ?case by (cases rule: pm_alloc_cases) auto
next
  case (2 s k s')
  from 2(1,2) show ?case by (cases rule: pm_alloc_cases) (use 2(3) in auto)
next
  case (3 s k a s')
  from 3(1,2) show ?case
  proof (cases rule: pm_alloc_cases)
    case none
    with 3(3) show ?thesis by simp
  next
    case (some n page seg')
    with 3(3) have eq: "a = (n, page)" "s' = s[n := seg']" by simp_all
    note ef = some(3) [unfolded alloc_effect_def]
    have "pm_owns s' b j" if "pm_owns s b j" for b j
      unfolding eq
    proof (rule pm_owns_kept [OF that some(2)])
      fix q assume "q < npages (s ! n)" "(n, q) \<in> pm_cells b j"
      moreover from this that have "q \<notin> free_pages (s ! n)"
        by (auto simp: pm_owns_def pm_cells_def dest: alloc_block_not_free)
      ultimately show "pages seg' ! q = pages (s ! n) ! q" using ef by blast
    qed (use ef in simp)
    moreover have "pm_avail s' = pm_avail s - pm_cells a k"
      using ef some(2) by (auto simp: eq pm_avail_update pm_cells_def pm_avail_def split: if_splits)
    moreover have "pm_cells a k \<subseteq> pm_avail s"
      using ef some(2) by (auto simp: eq pm_cells_def pm_avail_def)
    moreover have "pm_owns s' a k" using ef some(2) by (simp add: eq pm_owns_def)
    ultimately show ?thesis using some(4) eq by blast
  qed
next
  case (4 s a k)
  then show ?case by (auto simp: pm_owns_def pm_cells_def pm_avail_def dest: alloc_block_not_free)
next
  case (5 s a k)
  obtain n p where a: "a = (n, p)" by fastforce
  from 5(2) have n: "n < length s" by (simp add: a pm_owns_def)
  from pm_free_ok [OF 5 [unfolded a]] obtain seg' where
    r: "pm_free (n, p) s = Inr (s[n := seg'], (pg_vaddr (pages (s ! n) ! p), 2 ^ k * PAGESIZE))"
      "pm_inv (s[n := seg'])" "free_effect p k (s ! n) seg'" by blast
  note ef = r(3) [unfolded free_effect_def]
  have "pm_owns (s[n := seg']) b j" if b: "pm_owns s b j" "pm_cells b j \<inter> pm_cells a k = {}" for b j
  proof (rule pm_owns_kept [OF b(1) n])
    fix q assume q: "q < npages (s ! n)" "(n, q) \<in> pm_cells b j"
    with b have "q \<notin> free_pages (s ! n)"
      by (auto simp: pm_owns_def pm_cells_def dest: alloc_block_not_free)
    moreover have "q \<notin> blk p k" using b(2) q(2) by (auto simp: pm_cells_def a)
    ultimately show "pages seg' ! q = pages (s ! n) ! q" using ef q(1) by blast
  qed (use ef in simp)
  moreover have "pm_avail (s[n := seg']) = pm_avail s \<union> pm_cells a k"
    using ef n by (auto simp: pm_avail_update a pm_cells_def pm_avail_def split: if_splits)
  ultimately show ?case using r(1,2) a by simp
qed

section \<open>A segment of eight pages\<close>

definition seg8 :: pm_seg where
  "seg8 = projr (pm_seg_init 32 0 (8 * PAGESIZE) 0)"

lemma seg8_facts:
  "seg_inv {} seg8" "npages seg8 = 8" "free_blocks seg8 = {(0, 3)}" "seg_start seg8 = 0"
  "free_pages seg8 = {..<8}" "coalesced seg8"
proof -
  obtain seg where s: "pm_seg_init 32 0 (0 + PAGESIZE * 2 ^ 3) 0 = Inr seg"
    "seg_inv {} seg" "npages seg = 2 ^ 3" "free_blocks seg = {(0, 3)}" "free_pages seg = {..<2 ^ 3}"
    "seg_start seg = 0"
    by (rule pm_seg_init_ok [of 0 0 3 32]) (simp_all add: PM_NQUEUES_def PAGESIZE_def)
  moreover from s(1) have "seg = seg8" by (simp add: seg8_def mult.commute)
  ultimately show "seg_inv {} seg8" "npages seg8 = 8" "free_blocks seg8 = {(0, 3)}" "seg_start seg8 = 0"
    "free_pages seg8 = {..<8}" "coalesced seg8" by (simp_all add: coalesced_def)
qed

lemma pm_inv_seg8: "pm_inv [seg8]"
  using seg8_facts by (simp add: pm_inv_def PM_NQUEUES_def)

lemma pm_alloc_seg8:
  obtains a segs where "pm_alloc (2 ^ 1) [seg8] = Inr (Some a, segs)" "pm_inv segs" "pm_owns segs a 1"
proof (rule pm_alloc_cases [OF pm_inv_seg8, of 1])
  assume "\<And>seg p i. seg \<in> set [seg8] \<Longrightarrow> (p, i) \<in> free_blocks seg \<Longrightarrow> i < 1"
  from this [of seg8 0 3] show thesis by (simp add: seg8_facts)
next
  fix n page seg'
  assume r: "pm_alloc (2 ^ 1) [seg8] = Inr (Some (n, page), [seg8][n := seg'])"
  with pma.alloc_some [OF pm_inv_seg8 _ r] that show thesis by (simp add: PM_NQUEUES_def)
qed (simp add: PM_NQUEUES_def)

section \<open>Properties\<close>

text \<open>
  C6: \<open>pm_seg_init\<close> of a page-aligned segment of \<open>2^k\<close> pages, \<open>k < 16\<close>, that ends below \<open>2^32\<close> passes its
  assertions and makes every page free, for whatever number \<open>__builtin_ctz(0)\<close> gives for the page with index 0. The segment
  satisfies the invariant of the buddy system, with all buddies merged, exactly when that number is at least \<open>k\<close>.
\<close>

theorem pm_seg_init_invariant:
  assumes "PAGESIZE dvd start" and "PAGESIZE dvd vm_offset" and "k < PM_NQUEUES"
    and "start + PAGESIZE * 2 ^ k < 2 ^ 32"
  shows "\<exists>seg. pm_seg_init ctz0 start (start + PAGESIZE * 2 ^ k) vm_offset = Inr seg \<and>
           free_pages seg = {..<2 ^ k} \<and> npages seg = 2 ^ k \<and> (seg_inv {} seg \<and> coalesced seg \<longleftrightarrow> k \<le> ctz0)"
proof -
  let ?s = "put_blk 0 k (init_seg ctz0 start k vm_offset)"
  have "coalesced ?s" using init_seg_free(1) [OF assms(3), of ctz0 start vm_offset] by (simp add: coalesced_def)
  then show ?thesis
    using pm_seg_init_put [OF assms(1-3), of ctz0] init_seg_inv [OF assms(1,3,4), of ctz0 vm_offset]
      init_seg_free(2,3) [OF assms(3), of ctz0 start vm_offset] by simp
qed

theorem pm_seg_init_invariant_witness:
  "\<exists>seg. pm_seg_init 1 0 (0 + PAGESIZE * 2 ^ 3) 0 = Inr seg \<and>
     free_pages seg = {..<2 ^ 3} \<and> npages seg = 2 ^ 3 \<and> (seg_inv {} seg \<and> coalesced seg \<longleftrightarrow> (3 :: nat) \<le> 1)"
  by (rule pm_seg_init_invariant) (simp_all add: PM_NQUEUES_def PAGESIZE_def)

text \<open>
  C5: \<open>pm_seg_reserve\<close> ends without a fault on every page-aligned range of a segment. It takes exactly the free
  pages of the range out of circulation, leaves pages that were not free as they were, and keeps the
  invariant and the merging of buddies.
\<close>

theorem pm_seg_reserve_exact:
  assumes "seg_inv {} seg" and "x < y" and "y \<le> npages seg"
  shows "\<exists>seg'. pm_seg_reserve (seg_start seg + PAGESIZE * x) (seg_start seg + PAGESIZE * y) seg = Some (Inr seg') \<and>
           seg_inv {} seg' \<and> free_pages seg' = free_pages seg - {x..<y} \<and>
           (\<forall>q < npages seg. q \<notin> free_pages seg \<longrightarrow> pages seg' ! q = pages seg ! q) \<and>
           (coalesced seg \<longrightarrow> coalesced seg')"
  using pm_seg_reserve_ok [OF assms] by metis

theorem pm_seg_reserve_exact_witness:
  "\<exists>seg'. pm_seg_reserve (seg_start seg8 + PAGESIZE * 2) (seg_start seg8 + PAGESIZE * 5) seg8 = Some (Inr seg') \<and>
     seg_inv {} seg' \<and> free_pages seg' = free_pages seg8 - {2..<5} \<and>
     (\<forall>q < npages seg8. q \<notin> free_pages seg8 \<longrightarrow> pages seg' ! q = pages seg8 ! q) \<and>
     (coalesced seg8 \<longrightarrow> coalesced seg')"
  by (rule pm_seg_reserve_exact) (simp_all add: seg8_facts)

text \<open>
  C4: no pages are lost to fragmentation within a run: where buddies are merged, \<open>pm_alloc_from_seg\<close> returns
  \<open>NULL\<close> exactly when the segment has no free run of \<open>2^k\<close> pages at an index that is a multiple of
  \<open>2^k\<close>.
\<close>

theorem pm_alloc_from_seg_complete:
  assumes inv: "seg_inv {} seg" and co: "coalesced seg" and k: "k < PM_NQUEUES"
  shows "(\<exists>seg'. pm_alloc_from_seg (2 ^ k) seg = Inr (None, seg')) \<longleftrightarrow>
           \<not> (\<exists>p. 2 ^ k dvd p \<and> blk p k \<subseteq> free_pages seg)"
proof (rule pm_alloc_from_seg_cases [OF inv less_imp_le [OF k]])
  assume "pm_alloc_from_seg (2 ^ k) seg = Inr (None, seg)" "\<And>p i. (p, i) \<in> free_blocks seg \<Longrightarrow> i < k"
  with coalesced_cover [OF inv co, of k] show ?thesis by fastforce
next
  fix page seg'
  assume "pm_alloc_from_seg (2 ^ k) seg = Inr (Some page, seg')" "alloc_effect page k seg seg'"
  then show ?thesis by (auto simp: alloc_effect_def alloc_block_def)
qed

theorem pm_alloc_from_seg_complete_witness:
  "(\<exists>seg'. pm_alloc_from_seg (2 ^ 4) seg8 = Inr (None, seg')) \<longleftrightarrow>
     \<not> (\<exists>p. 2 ^ 4 dvd p \<and> blk p 4 \<subseteq> free_pages seg8)"
  by (rule pm_alloc_from_seg_complete) (simp_all add: seg8_facts PM_NQUEUES_def)

text \<open>
  C3: \<open>pm_alloc\<close> of \<open>2^k\<close> pages (\<open>k \<le> 16\<close>) never faults. When it returns a page, the
  block was free and now is not, no page that was in use is touched, and every block handed out before is
  still intact.
\<close>

theorem pm_alloc_refines:
  assumes "pm_inv segs" and "k \<le> PM_NQUEUES"
  shows "pm_alloc (2 ^ k) segs = Inr (None, segs) \<or>
         (\<exists>a segs'. pm_alloc (2 ^ k) segs = Inr (Some a, segs') \<and> pm_inv segs' \<and> pm_owns segs' a k \<and>
            pm_cells a k \<subseteq> pm_avail segs \<and> pm_avail segs' = pm_avail segs - pm_cells a k \<and>
            (\<forall>b j. pm_owns segs b j \<longrightarrow> pm_owns segs' b j \<and> pm_cells b j \<inter> pm_cells a k = {}))"
proof -
  obtain a segs' where r: "pm_alloc (2 ^ k) segs = Inr (a, segs')" using pma.alloc_total [OF assms] by blast
  show ?thesis
  proof (cases a)
    case None
    with r pma.alloc_none [OF assms] show ?thesis by simp
  next
    case (Some b)
    with r pma.alloc_some [OF assms] pma.owns_apart [OF assms(1)] show ?thesis by blast
  qed
qed

theorem pm_alloc_refines_witness:
  "pm_alloc (2 ^ 2) [seg8] = Inr (None, [seg8]) \<or>
     (\<exists>a segs'. pm_alloc (2 ^ 2) [seg8] = Inr (Some a, segs') \<and> pm_inv segs' \<and> pm_owns segs' a 2 \<and>
        pm_cells a 2 \<subseteq> pm_avail [seg8] \<and> pm_avail segs' = pm_avail [seg8] - pm_cells a 2 \<and>
        (\<forall>b j. pm_owns [seg8] b j \<longrightarrow> pm_owns segs' b j \<and> pm_cells b j \<inter> pm_cells a 2 = {}))"
  by (rule pm_alloc_refines) (simp_all add: pm_inv_seg8 PM_NQUEUES_def)

text \<open>
  C2: \<open>pm_free\<close> of a block that \<open>pm_alloc\<close> handed out finds its segment, passes every check of
  \<open>pm_free_from_seg\<close>, \<open>pm_find_buddy\<close> and \<open>pm_merge_buddies\<close>, clears exactly the memory of the block,
  and makes exactly its pages free again; other blocks in use stay as they are.
\<close>

theorem pm_free_refines:
  assumes "pm_inv segs" and "pm_owns segs (n, p) k"
  shows "\<exists>segs'. pm_free (n, p) segs = Inr (segs', (pg_vaddr (pages (segs ! n) ! p), 2 ^ k * PAGESIZE)) \<and>
           pm_inv segs' \<and> pm_avail segs' = pm_avail segs \<union> pm_cells (n, p) k \<and>
           (\<forall>b j. pm_owns segs b j \<longrightarrow> pm_cells b j \<inter> pm_cells (n, p) k = {} \<longrightarrow> pm_owns segs' b j)"
proof -
  from pm_free_ok [OF assms] obtain seg' where
    r: "pm_free (n, p) segs = Inr (segs[n := seg'], (pg_vaddr (pages (segs ! n) ! p), 2 ^ k * PAGESIZE))" .
  with pma.release_ok [OF assms] show ?thesis by auto
qed

theorem pm_free_refines_witness:
  "\<exists>n p segs. pm_alloc (2 ^ 1) [seg8] = Inr (Some (n, p), segs) \<and>
     (\<exists>segs'. pm_free (n, p) segs = Inr (segs', (pg_vaddr (pages (segs ! n) ! p), 2 ^ 1 * PAGESIZE)) \<and>
        pm_inv segs' \<and> pm_avail segs' = pm_avail segs \<union> pm_cells (n, p) 1)"
proof (rule pm_alloc_seg8)
  fix a segs assume r: "pm_alloc (2 ^ 1) [seg8] = Inr (Some a, segs)" "pm_inv segs" "pm_owns segs a 1"
  obtain n p where a: "a = (n, p)" by fastforce
  from pm_free_refines [OF r(2) r(3) [unfolded a]] r(1) a show ?thesis by blast
qed

text \<open>
  C1: any sequence of allocations and releases, in any order, is served without an assertion
  failure, panic or undefined access; the blocks held at the end are pairwise disjoint and disjoint from the
  free pages, and together they are exactly the pages that were free at the start.
\<close>

theorem pm_serve_no_leak:
  assumes "pm_inv segs" and "\<forall>k. Alloc k \<in> set rs \<longrightarrow> k \<le> PM_NQUEUES"
  shows "\<exists>held segs'. pma.serve rs ([], segs) = Inr (held, segs') \<and> pm_inv segs' \<and> pma.apart held \<and>
           pm_avail segs' \<inter> pma.held_cells held = {} \<and> pm_avail segs' \<union> pma.held_cells held = pm_avail segs"
proof -
  have "pma.client_inv ([], segs)" using assms(1) by (simp add: pma.client_inv_def)
  from pma.serve_ok [OF this, of rs] assms(2) obtain held segs' where
    "pma.serve rs ([], segs) = Inr (held, segs')" "pma.client_inv (held, segs')"
    "pm_avail segs' \<union> pma.held_cells held = pm_avail segs" by (auto simp: pma.orders_ok_def)
  with pma.held_cells_avail [of held segs'] show ?thesis by (auto simp: pma.client_inv_def)
qed

theorem pm_serve_no_leak_witness:
  "\<exists>held segs'. pma.serve [Alloc 1, Alloc 0, Release 1, Alloc 2] ([], [seg8]) = Inr (held, segs') \<and>
     pm_inv segs' \<and> pma.apart held \<and> pm_avail segs' \<inter> pma.held_cells held = {} \<and>
     pm_avail segs' \<union> pma.held_cells held = pm_avail [seg8]"
  by (rule pm_serve_no_leak) (auto simp: pm_inv_seg8 PM_NQUEUES_def)

end
