(* ===== verification/Kmalloc.thy ===== *)
theory Kmalloc
  imports Gz_Prelude
begin

text \<open>
  The kernel heap, src/kernel/lib/malloc/malloc.c. The headers the allocator writes into memory are the
  function \<open>hdr\<close> from addresses to block headers, the small headers in front of aligned
  pointers are \<open>ahdr\<close>, and \<open>bytes\<close> is the contents the callers see. A free list is the
  list of the addresses of its blocks. Sizes follow the types of the source: \<open>size_t\<close> sums are
  taken modulo \<open>2^32\<close>, \<open>mb_size\<close> is a signed 32-bit number.
\<close>

section \<open>State\<close>

definition MB_MAGIC :: nat where
  "MB_MAGIC = 0xC0DECAFE"

definition MB_ALIGNMENT :: nat where
  "MB_ALIGNMENT = 8"

definition AlignedMemBlockMagic :: nat where
  "AlignedMemBlockMagic = 0xAAFF"

abbreviation sizeof_block :: nat where
  "sizeof_block \<equiv> 16"

abbreviation sizeof_arena :: nat where
  "sizeof_arena \<equiv> 32"

abbreviation sizeof_aligned :: nat where
  "sizeof_aligned \<equiv> 4"

record mem_block =
  mb_magic :: nat
  mb_size :: int

record mem_arena =
  ma_addr :: nat
  ma_size :: nat
  ma_magic :: nat
  ma_freeblks :: "nat list"

record aligned_block =
  am_magic :: nat
  am_offset :: nat

record malloc_pool =
  mp_magic :: nat
  mp_desc :: string
  mp_arena :: "mem_arena list"
  hdr :: "nat \<Rightarrow> mem_block"
  ahdr :: "nat \<Rightarrow> aligned_block"
  bytes :: "nat \<Rightarrow> u8"

definition to_int32 :: "int \<Rightarrow> int" where
  "to_int32 x = signed_take_bit 31 x"

section \<open>Free lists\<close>

text \<open>\<open>TAILQ_NEXT\<close> of an element of a list without duplicates.\<close>

fun next_in :: "nat \<Rightarrow> nat list \<Rightarrow> nat option" where
  "next_in x [] = None"
| "next_in x [y] = None"
| "next_in x (y # z # zs) = (if x = y then Some z else next_in x (z # zs))"

fun insert_after :: "nat \<Rightarrow> nat \<Rightarrow> nat list \<Rightarrow> nat list" where
  "insert_after x new [] = []"
| "insert_after x new (y # ys) = (if x = y then y # new # ys else y # insert_after x new ys)"

type_synonym free_state = "(nat \<Rightarrow> mem_block) \<times> nat list"

definition merge_right :: "nat \<Rightarrow> free_state \<Rightarrow> free_state" where
  "merge_right mb = (\<lambda>(h, fl).
     case next_in mb fl of
       None \<Rightarrow> (h, fl)
     | Some nx \<Rightarrow>
         if int mb + mb_size (h mb) + int sizeof_block = int nx
         then (h(mb := (h mb)\<lparr>mb_size := to_int32 (mb_size (h mb) + mb_size (h nx) + int sizeof_block)\<rparr>),
               remove1 nx fl)
         else (h, fl))"

text \<open>The loop that looks for the last block below \<open>mb\<close>.\<close>

definition best_so_far :: "nat \<Rightarrow> nat list \<Rightarrow> nat option" where
  "best_so_far mb fl = fold (\<lambda>current best. if current < mb then Some current else best) fl None"

definition add_free_memory_block :: "nat \<Rightarrow> nat \<Rightarrow> free_state \<Rightarrow> free_state" where
  "add_free_memory_block mb total_size = (\<lambda>(h, fl).
     let h1 = h(mb := \<lparr>mb_magic = MB_MAGIC,
                       mb_size = to_int32 (int total_size - int sizeof_block)\<rparr>)
     in if fl = [] then (h1, [mb])
        else case best_so_far mb fl of
               None \<Rightarrow> merge_right mb (h1, mb # fl)
             | Some best \<Rightarrow> merge_right best (merge_right mb (h1, insert_after best mb fl)))"

section \<open>Operations\<close>

text \<open>A pool that works on memory with the contents \<open>h\<close>, \<open>ah\<close>, \<open>b\<close>.\<close>

definition kmalloc_init ::
  "(nat \<Rightarrow> mem_block) \<Rightarrow> (nat \<Rightarrow> aligned_block) \<Rightarrow> (nat \<Rightarrow> u8) \<Rightarrow> malloc_pool" where
  "kmalloc_init h ah b =
     \<lparr>mp_magic = MB_MAGIC, mp_desc = '''', mp_arena = [], hdr = h, ahdr = ah, bytes = b\<rparr>"

definition kmalloc_set_description :: "string \<Rightarrow> malloc_pool \<Rightarrow> malloc_pool" where
  "kmalloc_set_description desc mp = mp\<lparr>mp_desc := desc\<rparr>"

text \<open>
  Writing a block header and linking it into a list also overwrites the four bytes in front of the
  block's data, where \<open>kfree\<close> looks for an \<open>AlignedMemBlock\<close>. They then hold the
  \<open>tqe_prev\<close> pointer of the list entry, which is no \<open>AlignedMemBlockMagic\<close>: the kernel
  heap does not lie at \<open>0xAAFFxxxx\<close>.
\<close>

definition clear_aligned :: "nat \<Rightarrow> malloc_pool \<Rightarrow> malloc_pool" where
  "clear_aligned mb mp =
     mp\<lparr>ahdr := (ahdr mp)(mb + sizeof_block - sizeof_aligned := \<lparr>am_magic = 0, am_offset = 0\<rparr>)\<rparr>"

definition kmalloc_add_arena :: "nat \<Rightarrow> nat \<Rightarrow> malloc_pool \<Rightarrow> malloc_pool" where
  "kmalloc_add_arena start arena_size mp =
     (if arena_size < sizeof_arena then mp
      else
        let block_size = arena_size - sizeof_arena;
            mb = start + sizeof_arena;
            (h, fl) = add_free_memory_block mb block_size (hdr mp, []);
            ma = \<lparr>ma_addr = start, ma_size = block_size, ma_magic = MB_MAGIC, ma_freeblks = fl\<rparr>
        in clear_aligned mb (mp\<lparr>mp_arena := ma # mp_arena mp, hdr := h\<rparr>))"

fun find_entry :: "(nat \<Rightarrow> mem_block) \<Rightarrow> nat \<Rightarrow> nat list \<Rightarrow> nat option result" where
  "find_entry h total_size [] = Inr None"
| "find_entry h total_size (current # rest) =
     (if mb_magic (h current) \<noteq> MB_MAGIC then Inl (Assertion ''current->mb_magic == MB_MAGIC'')
      else if total_size \<le> nat (mb_size (h current) mod 2 ^ 32) then Inr (Some current)
      else find_entry h total_size rest)"

text \<open>
  The result also names the block that was cut off and put on the free list, if any: its
  header bytes are overwritten.
\<close>

definition try_allocating_in_area ::
  "free_state \<Rightarrow> nat \<Rightarrow> ((nat \<times> nat option) option \<times> free_state) result" where
  "try_allocating_in_area = (\<lambda>(h, fl) requested_size.
     case find_entry h ((requested_size + sizeof_block) mod 2 ^ 32) fl of
       Inl e \<Rightarrow> Inl e
     | Inr None \<Rightarrow> Inr (None, (h, fl))
     | Inr (Some mb) \<Rightarrow>
         let fl1 = remove1 mb fl;
             total_size_left = nat ((mb_size (h mb) - int requested_size) mod 2 ^ 32)
         in if sizeof_block < total_size_left
            then
              let h1 = h(mb := (h mb)\<lparr>mb_size := to_int32 (- int requested_size)\<rparr>);
                  new_mb = (mb + requested_size + sizeof_block) mod 2 ^ 32
              in Inr (Some (mb, Some new_mb), add_free_memory_block new_mb total_size_left (h1, fl1))
            else Inr (Some (mb, None), (h(mb := (h mb)\<lparr>mb_size := to_int32 (- mb_size (h mb))\<rparr>), fl1)))"

text \<open>The walk over the arenas of \<open>kmalloc\<close>: the block found and the header function and arenas after.\<close>

fun alloc_arenas ::
  "(nat \<Rightarrow> mem_block) \<Rightarrow> nat \<Rightarrow> mem_arena list \<Rightarrow>
   ((nat \<times> nat option) option \<times> (nat \<Rightarrow> mem_block) \<times> mem_arena list) result" where
  "alloc_arenas h n [] = Inr (None, h, [])"
| "alloc_arenas h n (ma # mas) =
     (if ma_magic ma \<noteq> MB_MAGIC then Inl (Panic ''Memory corruption detected!'')
      else
        case try_allocating_in_area (h, ma_freeblks ma) n of
          Inl e \<Rightarrow> Inl e
        | Inr (Some r, (h1, fl)) \<Rightarrow> Inr (Some r, h1, ma\<lparr>ma_freeblks := fl\<rparr> # mas)
        | Inr (None, _) \<Rightarrow>
            (case alloc_arenas h n mas of
               Inl e \<Rightarrow> Inl e
             | Inr (r, h1, mas1) \<Rightarrow> Inr (r, h1, ma # mas1)))"

definition size_align :: "nat \<Rightarrow> nat" where
  "size_align sz = unat (align_to (of_nat sz) (of_nat MB_ALIGNMENT))"

text \<open>\<open>nowait\<close> and \<open>zero\<close> are the bits \<open>M_NOWAIT\<close> and \<open>M_ZERO\<close> of \<open>flags\<close>.\<close>

definition kmalloc :: "nat \<Rightarrow> bool \<Rightarrow> bool \<Rightarrow> malloc_pool \<Rightarrow> (nat option \<times> malloc_pool) result" where
  "kmalloc sz nowait zero mp =
     (if sz = 0 then Inr (None, mp)
      else
        case alloc_arenas (hdr mp) (size_align sz) (mp_arena mp) of
          Inl e \<Rightarrow> Inl e
        | Inr (Some (mb, rest_mb), h, mas) \<Rightarrow>
            let mp1 = (case rest_mb of None \<Rightarrow> mp | Some new_mb \<Rightarrow> clear_aligned new_mb mp);
                data = mb + sizeof_block;
                b = (if zero then (\<lambda>a. if data \<le> a \<and> a < data + sz then 0 else bytes mp a) else bytes mp)
            in Inr (Some data, mp1\<lparr>mp_arena := mas, hdr := h, bytes := b\<rparr>)
        | Inr (None, _) \<Rightarrow>
            if nowait then Inr (None, mp) else Inl (Panic ''memory exhausted''))"

text \<open>The loop of \<open>kfree\<close> visits every arena, also after it has found the one with the address.\<close>

fun free_arenas ::
  "nat \<Rightarrow> nat \<Rightarrow> (nat \<Rightarrow> mem_block) \<Rightarrow> mem_arena list \<Rightarrow> (nat \<Rightarrow> mem_block) \<times> mem_arena list" where
  "free_arenas addr mb h [] = (h, [])"
| "free_arenas addr mb h (ma # mas) =
     (let start = ma_addr ma + sizeof_arena
      in if start \<le> addr \<and> addr < start + ma_size ma
         then
           let (h1, fl) = add_free_memory_block mb (nat \<bar>mb_size (h mb)\<bar> + sizeof_block) (h, ma_freeblks ma);
               (h2, mas2) = free_arenas addr mb h1 mas
           in (h2, ma\<lparr>ma_freeblks := fl\<rparr> # mas2)
         else
           let (h2, mas2) = free_arenas addr mb h mas
           in (h2, ma # mas2))"

definition free_addr :: "malloc_pool \<Rightarrow> nat \<Rightarrow> nat" where
  "free_addr mp addr =
     (let a = ahdr mp (addr - sizeof_aligned)
      in if am_magic a = AlignedMemBlockMagic then addr - am_offset a else addr)"

definition kfree :: "nat \<Rightarrow> malloc_pool \<Rightarrow> malloc_pool result" where
  "kfree addr0 mp =
     (let addr = free_addr mp addr0; mb = addr - sizeof_block
      in if mb_magic (hdr mp mb) \<noteq> MB_MAGIC \<or> mp_magic mp \<noteq> MB_MAGIC \<or> 0 \<le> mb_size (hdr mp mb)
         then Inl (Panic ''Memory corruption detected!'')
         else
           let (h, mas) = free_arenas addr mb (hdr mp) (mp_arena mp)
           in Inr (clear_aligned mb (mp\<lparr>hdr := h, mp_arena := mas\<rparr>)))"

text \<open>
  \<open>memcpy\<close> of \<open>n\<close> bytes within the data of a block. Behind the data lies the header of the next block or the end of the
  arena, so \<open>krealloc\<close> stops where its copy leaves the new block.
\<close>

definition copy_bytes :: "nat \<Rightarrow> nat \<Rightarrow> nat \<Rightarrow> malloc_pool \<Rightarrow> malloc_pool" where
  "copy_bytes dst src n mp =
     mp\<lparr>bytes := (\<lambda>a. if dst \<le> a \<and> a < dst + n then bytes mp (src + (a - dst)) else bytes mp a)\<rparr>"

definition krealloc :: "nat \<Rightarrow> nat \<Rightarrow> bool \<Rightarrow> bool \<Rightarrow> malloc_pool \<Rightarrow> (nat option \<times> malloc_pool) result" where
  "krealloc ptr sz nowait zero mp =
     (let mb = ptr - sizeof_block
      in if mb_magic (hdr mp mb) \<noteq> MB_MAGIC \<or> mp_magic mp \<noteq> MB_MAGIC \<or> 0 \<le> mb_size (hdr mp mb)
         then Inl (Panic ''Memory corruption detected!'')
         else if sz = 0 then Inr (None, mp)
         else
           case kmalloc sz nowait zero mp of
             Inl e \<Rightarrow> Inl e
           | Inr (None, mp1) \<Rightarrow> Inr (None, mp1)
           | Inr (Some new_ptr, mp1) \<Rightarrow>
               let n = nat \<bar>mb_size (hdr mp1 mb)\<bar>
               in if nat \<bar>mb_size (hdr mp1 (new_ptr - sizeof_block))\<bar> < n then Inl (Undefined ''memcpy past the new block'')
                  else
                    case kfree ptr (copy_bytes new_ptr ptr n mp1) of
                      Inl e \<Rightarrow> Inl e
                    | Inr mp2 \<Rightarrow> Inr (Some new_ptr, mp2))"

definition kmemalign :: "nat \<Rightarrow> nat \<Rightarrow> bool \<Rightarrow> bool \<Rightarrow> malloc_pool \<Rightarrow> (nat option \<times> malloc_pool) result" where
  "kmemalign sz alignment nowait zero mp =
     (let padded_size = (sz + alignment + sizeof_aligned) mod 2 ^ 32
      in case kmalloc padded_size nowait zero mp of
           Inl e \<Rightarrow> Inl e
         | Inr (None, mp1) \<Rightarrow> Inr (None, mp1)
         | Inr (Some ptr, mp1) \<Rightarrow>
             if ptr mod alignment = 0 then Inr (Some ptr, mp1)
             else
               let end_ptr = (ptr + padded_size) mod 2 ^ 32;
                   aligned_ptr = unat (align_to (of_nat (ptr + sizeof_aligned)) (of_nat alignment))
               in if nat ((int end_ptr - int aligned_ptr) mod 2 ^ 32) < sz
                  then Inl (Assertion ''(end_ptr - aligned_ptr) >= size'')
                  else Inr (Some aligned_ptr,
                         mp1\<lparr>ahdr := (ahdr mp1)(aligned_ptr - sizeof_aligned :=
                              \<lparr>am_magic = AlignedMemBlockMagic, am_offset = (aligned_ptr - ptr) mod 2 ^ 16\<rparr>)\<rparr>))"

end
