(* ===== verification/Kmalloc_Inv.thy ===== *)
theory Kmalloc_Inv
  imports Kmalloc
begin

text \<open>
  The invariant of the kernel heap. An arena is a row of tiles, each a block header and its data,
  free or in use; the free list holds the addresses of the free ones in ascending order, and no two
  free tiles are neighbours. The theory proves what \<open>add_free_memory_block\<close> does to the row and, from that, what
  \<open>kmalloc\<close>, \<open>kfree\<close>, \<open>krealloc\<close> and \<open>kmemalign\<close> promise.
\<close>

section \<open>Rows of tiles\<close>

type_synonym tile = "nat \<times> bool"

fun extent :: "tile list \<Rightarrow> nat" where
  "extent [] = 0"
| "extent ((n, u) # ts) = sizeof_block + n + extent ts"

fun hdrs_ok :: "(nat \<Rightarrow> mem_block) \<Rightarrow> nat \<Rightarrow> tile list \<Rightarrow> bool" where
  "hdrs_ok h a [] \<longleftrightarrow> True"
| "hdrs_ok h a ((n, u) # ts) \<longleftrightarrow>
     h a = \<lparr>mb_magic = MB_MAGIC, mb_size = (if u then - int n else int n)\<rparr> \<and>
     hdrs_ok h (a + sizeof_block + n) ts"

fun frees :: "nat \<Rightarrow> tile list \<Rightarrow> nat list" where
  "frees a [] = []"
| "frees a ((n, u) # ts) = (if u then [] else [a]) @ frees (a + sizeof_block + n) ts"

text \<open>The blocks in use: the address of the header and the size.\<close>

fun used_at :: "nat \<Rightarrow> tile list \<Rightarrow> (nat \<times> nat) set" where
  "used_at a [] = {}"
| "used_at a ((n, u) # ts) = (if u then {(a, n)} else {}) \<union> used_at (a + sizeof_block + n) ts"

fun merged :: "tile list \<Rightarrow> bool" where
  "merged [] \<longleftrightarrow> True"
| "merged ((n, u) # ts) \<longleftrightarrow> (u \<or> ts = [] \<or> snd (hd ts)) \<and> merged ts"

lemma total_append [simp]: "extent (xs @ ys) = extent xs + extent ys"
  by (induction xs) auto

lemma hdrs_ok_append [simp]: "hdrs_ok h a (xs @ ys) \<longleftrightarrow> hdrs_ok h a xs \<and> hdrs_ok h (a + extent xs) ys"
  by (induction xs arbitrary: a) (auto simp: ac_simps)

lemma frees_append [simp]: "frees a (xs @ ys) = frees a xs @ frees (a + extent xs) ys"
  by (induction xs arbitrary: a) (auto simp: ac_simps)

lemma used_at_append [simp]: "used_at a (xs @ ys) = used_at a xs \<union> used_at (a + extent xs) ys"
  by (induction xs arbitrary: a) (auto simp: ac_simps)

lemma frees_range: "x \<in> set (frees a ts) \<Longrightarrow> a \<le> x \<and> x + sizeof_block \<le> a + extent ts"
  by (induction a ts rule: frees.induct) (auto split: if_splits)

lemma used_range: "(x, n) \<in> used_at a ts \<Longrightarrow> a \<le> x \<and> x + sizeof_block + n \<le> a + extent ts"
  by (induction a ts rule: used_at.induct) (auto split: if_splits)

lemma hdrs_ok_upd [simp]:
  "b < a \<or> a + extent ts \<le> b \<Longrightarrow> hdrs_ok (h(b := v)) a ts = hdrs_ok h a ts"
  by (induction a ts rule: hdrs_ok.induct) auto

lemma hdrs_ok_cong:
  "(\<And>x. a \<le> x \<Longrightarrow> x < a + extent ts \<Longrightarrow> h' x = h x) \<Longrightarrow> hdrs_ok h' a ts = hdrs_ok h a ts"
  by (induction h a ts rule: hdrs_ok.induct) auto

lemma frees_split:
  "x \<in> set (frees a ts) \<Longrightarrow> \<exists>xs n ys. ts = xs @ (n, False) # ys \<and> x = a + extent xs"
proof (induction a ts rule: frees.induct)
  case (2 a n u ts)
  show ?case
  proof (cases "x \<in> set (frees (a + sizeof_block + n) ts)")
    case True
    with 2(1) obtain xs m ys where "ts = xs @ (m, False) # ys" "x = a + sizeof_block + n + extent xs" by blast
    then have "(n, u) # ts = ((n, u) # xs) @ (m, False) # ys \<and> x = a + extent ((n, u) # xs)" by simp
    then show ?thesis by blast
  next
    case False
    with 2(2) have "(n, u) # ts = [] @ (n, False) # ts \<and> x = a + extent []" by (auto split: if_splits)
    then show ?thesis by blast
  qed
qed simp

lemma used_split:
  "(x, n) \<in> used_at a ts \<Longrightarrow> \<exists>xs ys. ts = xs @ (n, True) # ys \<and> x = a + extent xs"
proof (induction a ts rule: used_at.induct)
  case (2 a m u ts)
  show ?case
  proof (cases "(x, n) \<in> used_at (a + sizeof_block + m) ts")
    case True
    with 2(1) obtain xs ys where "ts = xs @ (n, True) # ys" "x = a + sizeof_block + m + extent xs" by blast
    then have "(m, u) # ts = ((m, u) # xs) @ (n, True) # ys \<and> x = a + extent ((m, u) # xs)" by simp
    then show ?thesis by blast
  next
    case False
    with 2(2) have "(m, u) # ts = [] @ (n, True) # ts \<and> x = a + extent []" by (auto split: if_splits)
    then show ?thesis by blast
  qed
qed simp

lemma merged_append:
  "merged (xs @ ys) \<longleftrightarrow> merged xs \<and> merged ys \<and>
     \<not> (xs \<noteq> [] \<and> ys \<noteq> [] \<and> \<not> snd (last xs) \<and> \<not> snd (hd ys))"
  by (induction xs rule: merged.induct) (auto simp: hd_append split: if_splits)

section \<open>Lists\<close>

lemma next_in_append: "x \<notin> set xs \<Longrightarrow> next_in x (xs @ x # ys) = (case ys of [] \<Rightarrow> None | y # _ \<Rightarrow> Some y)"
proof (induction xs)
  case Nil
  then show ?case by (cases ys) auto
next
  case (Cons a xs)
  then show ?case by (cases xs) (auto split: list.splits)
qed

lemma insert_after_last: "xs \<noteq> [] \<Longrightarrow> distinct xs \<Longrightarrow> insert_after (last xs) new (xs @ ys) = xs @ new # ys"
  by (induction xs) auto

lemma best_so_far_split:
  assumes "\<And>x. x \<in> set xs \<Longrightarrow> x < mb" and "\<And>y. y \<in> set ys \<Longrightarrow> mb < y"
  shows "best_so_far mb (xs @ ys) = (if xs = [] then None else Some (last xs))"
proof -
  have low: "fold (\<lambda>c b. if c < mb then Some c else b) xs b0 = (if xs = [] then b0 else Some (last xs))" for b0
    using assms(1) by (induction xs arbitrary: b0) auto
  have "\<forall>y \<in> set ys. mb < y" using assms(2) by blast
  then have high: "fold (\<lambda>c b. if c < mb then Some c else b) ys b0 = b0" for b0
    by (induction ys arbitrary: b0) auto
  show ?thesis by (simp add: best_so_far_def low high)
qed

lemma to_int32_id: "- (2 ^ 31) \<le> x \<Longrightarrow> x < 2 ^ 31 \<Longrightarrow> to_int32 x = x"
  by (simp add: to_int32_def signed_take_bit_int_eq_self)

lemma distinct_frees [simp]: "distinct (frees a ts)"
  by (induction a ts rule: frees.induct) (auto dest: frees_range)

section \<open>Putting a block on the free list\<close>

text \<open>The row after the block of size \<open>n\<close> between \<open>xs\<close> and \<open>ys\<close> was freed.\<close>

fun join_right :: "nat \<Rightarrow> tile list \<Rightarrow> tile list" where
  "join_right n ((m, False) # ys) = (n + sizeof_block + m, False) # ys"
| "join_right n ys = (n, False) # ys"

fun join_left :: "tile list \<Rightarrow> tile list \<Rightarrow> tile list" where
  "join_left xs ((n, u) # ys) =
     (if xs \<noteq> [] \<and> \<not> snd (last xs)
      then butlast xs @ (fst (last xs) + sizeof_block + n, u) # ys else xs @ (n, u) # ys)"
| "join_left xs [] = xs"

definition join :: "tile list \<Rightarrow> nat \<Rightarrow> tile list \<Rightarrow> tile list" where
  "join xs n ys = join_left xs (join_right n ys)"

lemma merge_right_ok:
  assumes fs: "\<forall>x \<in> set fs. x < mb" and h: "hdrs_ok h mb ((n, False) # ys)"
    and b: "sizeof_block + n + extent ys < 2 ^ 31"
  shows "\<exists>h'. merge_right mb (h, fs @ mb # frees (mb + sizeof_block + n) ys) = (h', fs @ frees mb (join_right n ys)) \<and>
           hdrs_ok h' mb (join_right n ys) \<and> (\<forall>x. x \<noteq> mb \<longrightarrow> h' x = h x)"
proof -
  have "mb \<notin> set fs" using fs by blast
  note nx = next_in_append [OF this]
  show ?thesis
  proof (cases ys)
    case Nil
    with h show ?thesis by (simp add: merge_right_def nx)
  next
    case (Cons t ys')
    obtain m u where t: "t = (m, u)" by fastforce
    let ?b = "mb + sizeof_block + n"
    show ?thesis
    proof (cases u)
      case True
      have "merge_right mb (h, fs @ mb # frees ?b ys) = (h, fs @ mb # frees ?b ys)"
      proof (cases "frees ?b ys")
        case Nil
        then show ?thesis by (simp add: merge_right_def nx)
      next
        case c: (Cons f rest)
        then have "f \<in> set (frees (?b + sizeof_block + m) ys')" using Cons t True by (simp add: list.set_intros)
        from frees_range [OF this] c h show ?thesis by (simp add: merge_right_def nx)
      qed
      with h Cons t True show ?thesis by auto
    next
      case False
      let ?h = "h(mb := \<lparr>mb_magic = MB_MAGIC, mb_size = int (n + sizeof_block + m)\<rparr>)"
      have "?b \<notin> set fs" using fs by auto
      then have "remove1 ?b (fs @ mb # ?b # frees (?b + sizeof_block + m) ys') = fs @ mb # frees (?b + sizeof_block + m) ys'"
        by (simp add: remove1_append)
      moreover have "to_int32 (int n + int m + 16) = int (n + sizeof_block + m)"
        using b Cons t by (subst to_int32_id) auto
      ultimately have "merge_right mb (h, fs @ mb # frees ?b ys) = (?h, fs @ frees mb (join_right n ys))"
        using h Cons t False by (simp add: merge_right_def nx ac_simps)
      moreover have "hdrs_ok ?h mb (join_right n ys)" using h Cons t False by (simp add: ac_simps)
      ultimately show ?thesis by auto
    qed
  qed
qed

lemma frees_none: "\<forall>t \<in> set ts. snd t \<Longrightarrow> frees a ts = []"
  by (induction a ts rule: frees.induct) auto

lemma frees_last:
  assumes "frees a xs \<noteq> []"
  obtains zs k ws where "xs = zs @ (k, False) # ws" "\<forall>t \<in> set ws. snd t"
    "frees a xs = frees a zs @ [a + extent zs]"
proof -
  have "\<exists>t \<in> set xs. \<not> snd t" using assms frees_none by blast
  then obtain zs t ws where "xs = zs @ t # ws" "\<not> snd t" "\<forall>t \<in> set ws. \<not> \<not> snd t"
    by (rule split_list_last_propE)
  moreover from this obtain k where "t = (k, False)" by (cases t) auto
  ultimately show thesis by (intro that [of zs k ws]) (simp_all add: frees_none)
qed

lemma join_left_eq:
  assumes "xs = zs @ (k, False) # ws" "\<forall>t \<in> set ws. snd t"
  shows "join_left xs ((n, False) # ys) = zs @ join_right k (ws @ (n, False) # ys)"
proof (cases ws)
  case Nil
  with assms show ?thesis by simp
next
  case (Cons t ws')
  with assms(2) obtain m where t: "t = (m, True)" by (cases t) auto
  have "snd (last ws)" using assms(2) Cons by simp
  with Cons assms t show ?thesis by (simp split: if_splits)
qed

lemma join_left_used: "frees a xs = [] \<Longrightarrow> join_left xs ((n, u) # ys) = xs @ (n, u) # ys"
  by (cases xs rule: rev_cases) (auto split: if_splits)

lemma join_right_Cons: "\<exists>m ys'. join_right n ys = (m, False) # ys' \<and> m + extent ys' = n + extent ys"
  by (cases "(n, ys)" rule: join_right.cases) auto

lemma join_right_used: "frees b ys = [] \<Longrightarrow> join_right n ys = (n, False) # ys"
  by (cases "(n, ys)" rule: join_right.cases) auto

lemma add_free_ok:
  fixes a :: nat and xs :: "tile list"
  defines "mb \<equiv> a + extent xs"
  assumes hx: "hdrs_ok h a xs" and hy: "hdrs_ok h (mb + sizeof_block + n) ys"
    and bound: "extent xs + sizeof_block + n + extent ys < 2 ^ 31"
  shows "\<exists>h'. add_free_memory_block mb (n + sizeof_block) (h, frees a xs @ frees (mb + sizeof_block + n) ys) =
           (h', frees a (join xs n ys)) \<and> hdrs_ok h' a (join xs n ys) \<and>
           (\<forall>x. x < a \<or> mb + sizeof_block + n + extent ys \<le> x \<longrightarrow> h' x = h x)"
proof -
  let ?b = "mb + sizeof_block + n"
  let ?fx = "frees a xs" and ?fy = "frees ?b ys"
  let ?h1 = "h(mb := \<lparr>mb_magic = MB_MAGIC, mb_size = int n\<rparr>)"
  have ti: "to_int32 (int (n + sizeof_block) - int sizeof_block) = int n"
    using bound by (subst to_int32_id) auto
  have lo: "\<forall>x \<in> set ?fx. x < mb" using frees_range by (fastforce simp: mb_def)
  have hi: "\<forall>y \<in> set ?fy. mb < y" using frees_range by fastforce
  have h1: "hdrs_ok ?h1 a xs" "hdrs_ok ?h1 mb ((n, False) # ys)" using hx hy by (simp_all add: mb_def)
  have best: "best_so_far mb (?fx @ ?fy) = (if ?fx = [] then None else Some (last ?fx))"
    using lo hi by (intro best_so_far_split) auto
  from merge_right_ok [OF lo h1(2)] bound obtain h2 where
    h2: "merge_right mb (?h1, ?fx @ mb # ?fy) = (h2, ?fx @ frees mb (join_right n ys))"
      "hdrs_ok h2 mb (join_right n ys)" "\<forall>x. x \<noteq> mb \<longrightarrow> h2 x = ?h1 x" by auto
  obtain m ys' where jr: "join_right n ys = (m, False) # ys'" "m + extent ys' = n + extent ys"
    using join_right_Cons by blast
  have "hdrs_ok h2 a xs = hdrs_ok ?h1 a xs" by (rule hdrs_ok_cong) (use h2(3) in \<open>auto simp: mb_def\<close>)
  with h1(1) have h2x: "hdrs_ok h2 a xs" by simp
  show ?thesis
  proof (cases "?fx = []")
    case True
    have jo: "join xs n ys = xs @ join_right n ys" using join_left_used [OF True] jr(1) by (simp add: join_def)
    show ?thesis
    proof (cases "?fy = []")
      case fy: True
      with True have "add_free_memory_block mb (n + sizeof_block) (h, ?fx @ ?fy) = (?h1, [mb])"
        using ti by (simp add: add_free_memory_block_def)
      moreover have "frees a (join xs n ys) = [mb]"
        using True fy join_right_used [OF fy] by (simp add: jo mb_def)
      ultimately show ?thesis
        using h1 join_right_used [OF fy] by (auto simp: jo mb_def)
    next
      case False
      then have "add_free_memory_block mb (n + sizeof_block) (h, ?fx @ ?fy) = (h2, frees a (join xs n ys))"
        using ti best True h2(1) by (simp add: add_free_memory_block_def jo mb_def)
      with h2 h2x show ?thesis by (auto simp: jo mb_def)
    qed
  next
    case False
    then obtain zs k ws where z: "xs = zs @ (k, False) # ws" "\<forall>t \<in> set ws. snd t"
      "?fx = frees a zs @ [a + extent zs]" by (rule frees_last)
    let ?c = "a + extent zs"
    let ?r = "ws @ (m, False) # ys'"
    have jo: "join xs n ys = zs @ join_right k ?r"
      using join_left_eq [OF z(1,2)] jr(1) by (simp add: join_def)
    have lo': "\<forall>x \<in> set (frees a zs). x < ?c" using frees_range by fastforce
    have mb: "mb = ?c + sizeof_block + k + extent ws" by (simp add: mb_def z(1))
    have hc: "hdrs_ok h2 ?c ((k, False) # ?r)"
      using h2x h2(2) by (simp add: z(1) jr(1) mb ac_simps)
    have fr: "?fx @ frees mb (join_right n ys) = frees a zs @ ?c # frees (?c + sizeof_block + k) ?r"
      using z(2,3) by (simp add: jr(1) mb frees_none)
    from merge_right_ok [OF lo' hc] bound jr(2) z(1) obtain h3 where
      h3: "merge_right ?c (h2, frees a zs @ ?c # frees (?c + sizeof_block + k) ?r) = (h3, frees a zs @ frees ?c (join_right k ?r))"
        "hdrs_ok h3 ?c (join_right k ?r)" "\<forall>x. x \<noteq> ?c \<longrightarrow> h3 x = h2 x" by auto
    have m3: "merge_right ?c (h2, ?fx @ frees mb (join_right n ys)) = (h3, frees a (join xs n ys))"
      using h3(1) unfolding fr jo by simp
    have "last ?fx = ?c" using z(3) by simp
    moreover have "insert_after (last ?fx) mb (?fx @ ?fy) = ?fx @ mb # ?fy"
      using False by (rule insert_after_last) simp
    ultimately have "add_free_memory_block mb (n + sizeof_block) (h, ?fx @ ?fy) = (h3, frees a (join xs n ys))"
      using ti best False h2(1) m3 by (simp add: add_free_memory_block_def)
    moreover have "hdrs_ok h3 a zs = hdrs_ok h2 a zs" by (rule hdrs_ok_cong) (use h3(3) in auto)
    with h2x z(1) have "hdrs_ok h3 a zs" by simp
    ultimately show ?thesis using h3 h2(3) by (auto simp: jo mb)
  qed
qed

section \<open>The invariant\<close>

abbreviation arena_base :: "mem_arena \<Rightarrow> nat" where
  "arena_base ma \<equiv> ma_addr ma + sizeof_arena"

text \<open>
  The bytes in front of the data of every tile do not look like the header of an aligned pointer.
\<close>

fun plain :: "(nat \<Rightarrow> aligned_block) \<Rightarrow> nat \<Rightarrow> tile list \<Rightarrow> bool" where
  "plain ah a [] \<longleftrightarrow> True"
| "plain ah a ((n, u) # ts) \<longleftrightarrow>
     am_magic (ah (a + sizeof_block - sizeof_aligned)) \<noteq> AlignedMemBlockMagic \<and> plain ah (a + sizeof_block + n) ts"

definition tiles_ok :: "tile list \<Rightarrow> bool" where
  "tiles_ok ts \<longleftrightarrow> merged ts \<and> (\<forall>(n, u) \<in> set ts. 8 dvd n \<and> (u \<longrightarrow> 0 < n))"

definition arena_ok :: "(nat \<Rightarrow> mem_block) \<Rightarrow> (nat \<Rightarrow> aligned_block) \<Rightarrow> mem_arena \<Rightarrow> tile list \<Rightarrow> bool" where
  "arena_ok h ah ma ts \<longleftrightarrow>
     ma_magic ma = MB_MAGIC \<and> 8 dvd ma_addr ma \<and> ma_size ma < 2 ^ 31 \<and> arena_base ma + ma_size ma < 2 ^ 32 \<and>
     extent ts = ma_size ma \<and> tiles_ok ts \<and>
     hdrs_ok h (arena_base ma) ts \<and> plain ah (arena_base ma) ts \<and> ma_freeblks ma = frees (arena_base ma) ts"

lemma plain_append [simp]: "plain ah a (xs @ ys) \<longleftrightarrow> plain ah a xs \<and> plain ah (a + extent xs) ys"
  by (induction xs arbitrary: a) (auto simp: ac_simps)

lemma plain_clear:
  "plain ah a ts \<Longrightarrow> plain (ah(x := \<lparr>am_magic = 0, am_offset = k\<rparr>)) a ts"
  by (induction a ts rule: plain.induct [of _ ah]) (auto simp: AlignedMemBlockMagic_def)

lemma plain_join: "plain ah a (xs @ (n, u) # ys) \<Longrightarrow> plain ah a (join xs n ys)"
proof -
  assume p: "plain ah a (xs @ (n, u) # ys)"
  have right: "plain ah a (xs @ join_right n ys)"
    using p by (cases "(n, ys)" rule: join_right.cases) (auto simp: ac_simps)
  obtain m ys' where jr: "join_right n ys = (m, False) # ys'" using join_right_Cons by blast
  show ?thesis
  proof (cases xs rule: rev_cases)
    case Nil
    with right jr show ?thesis by (simp add: join_def)
  next
    case (snoc zs t)
    with right jr show ?thesis by (cases t) (auto simp: join_def ac_simps)
  qed
qed

lemma extent_join [simp]: "extent (join xs n ys) = extent xs + sizeof_block + n + extent ys"
proof -
  obtain m ys' where jr: "join_right n ys = (m, False) # ys'" "m + extent ys' = n + extent ys"
    using join_right_Cons by blast
  show ?thesis
    by (cases xs rule: rev_cases) (use jr in \<open>auto simp: join_def split: if_splits\<close>)
qed

lemma used_at_join: "used_at a (join xs n ys) = used_at a xs \<union> used_at (a + extent xs + sizeof_block + n) ys"
proof -
  have right: "used_at b (join_right n ys) = used_at (b + sizeof_block + n) ys" for b
    by (cases "(n, ys)" rule: join_right.cases) (auto simp: ac_simps)
  obtain m ys' where jr: "join_right n ys = (m, False) # ys'" using join_right_Cons by blast
  show ?thesis
  proof (cases xs rule: rev_cases)
    case Nil
    with right [of a] jr show ?thesis by (simp add: join_def)
  next
    case (snoc zs t)
    with right [of "a + extent xs"] jr show ?thesis by (cases t) (auto simp: join_def ac_simps)
  qed
qed

lemma tiles_ok_join:
  assumes xs: "tiles_ok xs" and ys: "tiles_ok ys" and n: "8 dvd n"
  shows "tiles_ok (join xs n ys)"
proof -
  have right: "\<exists>m ys'. join_right n ys = (m, False) # ys' \<and> tiles_ok ys' \<and> 8 dvd m \<and> (ys' = [] \<or> snd (hd ys'))"
    using ys n by (cases "(n, ys)" rule: join_right.cases) (auto simp: tiles_ok_def)
  then obtain m ys' where jr: "join_right n ys = (m, False) # ys'" "tiles_ok ys'" "8 dvd m" "ys' = [] \<or> snd (hd ys')"
    by blast
  show ?thesis
  proof (cases xs rule: rev_cases)
    case Nil
    with jr show ?thesis by (auto simp: join_def tiles_ok_def)
  next
    case (snoc zs t)
    obtain k u where t: "t = (k, u)" by fastforce
    have "zs = [] \<or> snd (last zs) \<or> u" using xs snoc t by (auto simp: tiles_ok_def merged_append)
    with xs jr snoc t show ?thesis
      by (cases u) (auto simp: join_def tiles_ok_def merged_append)
  qed
qed

end
