(* ===== verification/Kmalloc_Props.thy ===== *)
theory Kmalloc_Props
  imports Kmalloc_Inv
begin

text \<open>
  The kernel heap from the outside: \<open>kmalloc\<close> and \<open>kfree\<close> refine an abstract heap, a list of
  rows of tiles; \<open>kmemalign\<close> and \<open>krealloc\<close> build on them.
\<close>

section \<open>One arena\<close>

lemma size_as_word: "n < 2 ^ 31 \<Longrightarrow> nat (int n mod 2 ^ 32) = n"
  by (simp add: nat_mod_distrib)

lemma find_entry_cases:
  assumes "hdrs_ok h a ts" and "extent ts < 2 ^ 31"
  obtains (none) "find_entry h t (frees a ts) = Inr None" "\<And>n. (n, False) \<in> set ts \<Longrightarrow> n < t"
    | (some) xs n ys where "find_entry h t (frees a ts) = Inr (Some (a + extent xs))"
      "ts = xs @ (n, False) # ys" "t \<le> n" "\<And>m. (m, False) \<in> set xs \<Longrightarrow> m < t"
  using assms
proof (induction ts arbitrary: a thesis)
  case Nil
  then show ?case by simp
next
  case (Cons tile ts)
  obtain n u where tile: "tile = (n, u)" by fastforce
  have n: "n < 2 ^ 31" using Cons.prems(4) tile by simp
  show ?case
  proof (cases "\<not> u \<and> t \<le> n")
    case True
    then have "find_entry h t (frees a (tile # ts)) = Inr (Some a)"
      using Cons.prems(3) tile size_as_word [OF n] by simp
    then show ?thesis using Cons.prems(2) [of "[]" n ts] True tile by simp
  next
    case False
    let ?a = "a + sizeof_block + n"
    have step: "find_entry h t (frees a (tile # ts)) = find_entry h t (frees ?a ts)"
      using Cons.prems(3) tile False size_as_word [OF n] by auto
    show ?thesis
    proof (rule Cons.IH [of ?a])
      assume "find_entry h t (frees ?a ts) = Inr None" "\<And>n. (n, False) \<in> set ts \<Longrightarrow> n < t"
      with step False tile show ?thesis by (intro Cons.prems(1)) auto
    next
      fix xs m ys
      assume "find_entry h t (frees ?a ts) = Inr (Some (?a + extent xs))" "ts = xs @ (m, False) # ys"
        "t \<le> m" "\<And>k. (k, False) \<in> set xs \<Longrightarrow> k < t"
      with step False tile show ?thesis by (intro Cons.prems(2) [of "tile # xs" m ys]) (auto simp: ac_simps)
    qed (use Cons.prems tile in auto)
  qed
qed

text \<open>The row after a request of \<open>req\<close> bytes was served from a tile of \<open>n\<close> bytes.\<close>

definition carve :: "nat \<Rightarrow> nat \<Rightarrow> tile list" where
  "carve req n = (if sizeof_block < n - req then [(req, True), (n - req - sizeof_block, False)] else [(n, True)])"

lemma remove1_frees:
  "remove1 (a + extent xs) (frees a (xs @ (n, False) # ys)) = frees a xs @ frees (a + extent xs + sizeof_block + n) ys"
proof -
  have "a + extent xs \<notin> set (frees a xs)" using frees_range by fastforce
  then show ?thesis by (simp add: remove1_append)
qed

lemma try_allocating_eq:
  assumes f: "find_entry h (req + sizeof_block) fl = Inr (Some mb)" and sz: "mb_size (h mb) = int n"
    and r: "req + sizeof_block \<le> n" and b: "n < 2 ^ 31" "mb + sizeof_block + n < 2 ^ 32"
  shows "try_allocating_in_area (h, fl) req =
     (if sizeof_block < n - req
      then Inr (Some (mb, Some (mb + req + sizeof_block)),
             add_free_memory_block (mb + req + sizeof_block) (n - req)
               (h(mb := (h mb)\<lparr>mb_size := - int req\<rparr>), remove1 mb fl))
      else Inr (Some (mb, None), (h(mb := (h mb)\<lparr>mb_size := - int n\<rparr>), remove1 mb fl)))"
proof -
  have "int n - int req = int (n - req)" using r by simp
  then have left: "nat ((int n - int req) mod 2 ^ 32) = n - req"
    using b(1) size_as_word [of "n - req"] by (simp only:)
  have rq: "(req + sizeof_block) mod 2 ^ 32 = req + sizeof_block" using r b(1) by simp
  have nm: "(mb + req + sizeof_block) mod 2 ^ 32 = mb + req + sizeof_block" using r b(2) by simp
  have ti: "to_int32 (- int req) = - int req" using r b(1) by (subst to_int32_id) auto
  have tn: "to_int32 (- int n) = - int n" using b(1) by (subst to_int32_id) auto
  show ?thesis
    unfolding try_allocating_in_area_def prod.case rq f sum.case option.case Let_def sz left nm ti tn ..
qed

lemma try_allocating_some:
  assumes h: "hdrs_ok h a (xs @ (n, False) # ys)" and ok: "tiles_ok (xs @ (n, False) # ys)"
    and b: "extent (xs @ (n, False) # ys) < 2 ^ 31" "a + extent (xs @ (n, False) # ys) < 2 ^ 32"
    and r: "req + sizeof_block \<le> n"
    and f: "find_entry h (req + sizeof_block) (frees a (xs @ (n, False) # ys)) = Inr (Some (a + extent xs))"
  shows "\<exists>c h'. try_allocating_in_area (h, frees a (xs @ (n, False) # ys)) req =
           Inr (Some (a + extent xs, c), (h', frees a (xs @ carve req n @ ys))) \<and>
           hdrs_ok h' a (xs @ carve req n @ ys) \<and>
           (\<forall>x. x < a \<or> a + extent (xs @ (n, False) # ys) \<le> x \<longrightarrow> h' x = h x) \<and>
           c = (if sizeof_block < n - req then Some (a + extent xs + req + sizeof_block) else None)"
proof -
  let ?mb = "a + extent xs"
  have hm: "h ?mb = \<lparr>mb_magic = MB_MAGIC, mb_size = int n\<rparr>" using h by simp
  have try_eq: "try_allocating_in_area (h, frees a (xs @ (n, False) # ys)) req =
     (if sizeof_block < n - req
      then Inr (Some (?mb, Some (?mb + req + sizeof_block)),
             add_free_memory_block (?mb + req + sizeof_block) (n - req)
               (h(?mb := \<lparr>mb_magic = MB_MAGIC, mb_size = - int req\<rparr>), frees a xs @ frees (?mb + sizeof_block + n) ys))
      else Inr (Some (?mb, None), (h(?mb := \<lparr>mb_magic = MB_MAGIC, mb_size = - int n\<rparr>),
             frees a xs @ frees (?mb + sizeof_block + n) ys)))"
    using try_allocating_eq [OF f _ r] hm b remove1_frees [of a xs n ys] by simp
  show ?thesis
  proof (cases "sizeof_block < n - req")
    case True
    let ?h1 = "h(?mb := \<lparr>mb_magic = MB_MAGIC, mb_size = - int req\<rparr>)"
    let ?xs = "xs @ [(req, True)]"
    let ?n = "n - req - sizeof_block"
    have hx: "hdrs_ok ?h1 a ?xs" using h by simp
    have hy: "hdrs_ok ?h1 (a + extent ?xs + sizeof_block + ?n) ys"
      using h r by (simp add: ac_simps)
    have bd: "extent ?xs + sizeof_block + ?n + extent ys < 2 ^ 31" using b(1) r by simp
    have "ys = [] \<or> snd (hd ys)" using ok by (auto simp: tiles_ok_def merged_append)
    then have jr: "join ?xs ?n ys = xs @ carve req n @ ys"
      using True by (cases "(?n, ys)" rule: join_right.cases) (auto simp: join_def carve_def)
    have fl: "frees a ?xs @ frees (a + extent ?xs + sizeof_block + ?n) ys = frees a xs @ frees (?mb + sizeof_block + n) ys"
      using r by (simp add: ac_simps)
    have nt: "?n + sizeof_block = n - req" "a + extent ?xs = ?mb + req + sizeof_block" using True by simp_all
    from add_free_ok [OF hx hy bd, unfolded jr nt(1) fl] obtain h' where
      h': "add_free_memory_block (?mb + req + sizeof_block) (n - req) (?h1, frees a xs @ frees (?mb + sizeof_block + n) ys) = (h', frees a (xs @ carve req n @ ys))"
      "hdrs_ok h' a (xs @ carve req n @ ys)"
      "\<forall>x. x < a \<or> a + extent ?xs + sizeof_block + ?n + extent ys \<le> x \<longrightarrow> h' x = ?h1 x"
      unfolding nt(2) by blast
    have "h' x = h x" if "x < a \<or> a + extent (xs @ (n, False) # ys) \<le> x" for x
      using that h'(3) r by auto
    with h'(1,2) True try_eq show ?thesis by simp
  next
    case False
    have "hdrs_ok (h(?mb := \<lparr>mb_magic = MB_MAGIC, mb_size = - int n\<rparr>)) a (xs @ (n, True) # ys)" using h by simp
    with False try_eq show ?thesis by (auto simp: carve_def)
  qed
qed

section \<open>The abstract heap\<close>

text \<open>
  The abstract heap is a list of rows of tiles, each with the address where it begins. \<open>heap_ok mp A\<close> says
  that the pool \<open>mp\<close> implements \<open>A\<close>.
\<close>

type_synonym aheap = "(nat \<times> tile list) list"

definition used :: "aheap \<Rightarrow> (nat \<times> nat) set" where
  "used A = (\<Union>(a, ts) \<in> set A. used_at a ts)"

definition rows_apart :: "aheap \<Rightarrow> bool" where
  "rows_apart A \<longleftrightarrow>
     (\<forall>i < length A. \<forall>j < length A. i \<noteq> j \<longrightarrow>
        fst (A ! i) + extent (snd (A ! i)) + sizeof_arena \<le> fst (A ! j) \<or>
        fst (A ! j) + extent (snd (A ! j)) + sizeof_arena \<le> fst (A ! i))"

definition arenas_ok ::
  "(nat \<Rightarrow> mem_block) \<Rightarrow> (nat \<Rightarrow> aligned_block) \<Rightarrow> mem_arena list \<Rightarrow> aheap \<Rightarrow> bool" where
  "arenas_ok h ah mas A \<longleftrightarrow>
     list_all2 (\<lambda>ma (a, ts). a = arena_base ma \<and> arena_ok h ah ma ts) mas A \<and> rows_apart A"

definition heap_ok :: "malloc_pool \<Rightarrow> aheap \<Rightarrow> bool" where
  "heap_ok mp A \<longleftrightarrow> mp_magic mp = MB_MAGIC \<and> arenas_ok (hdr mp) (ahdr mp) (mp_arena mp) A"

lemma rows_apart_Cons:
  "rows_apart ((a, ts) # A) \<longleftrightarrow> rows_apart A \<and>
     (\<forall>(b, us) \<in> set A. a + extent ts + sizeof_arena \<le> b \<or> b + extent us + sizeof_arena \<le> a)"
  (is "?l \<longleftrightarrow> ?r")
proof
  assume l: ?l
  have "rows_apart A" using l unfolding rows_apart_def by (metis Suc_less_eq length_Cons nth_Cons_Suc nat.inject)
  moreover have "a + extent ts + sizeof_arena \<le> b \<or> b + extent us + sizeof_arena \<le> a" if "(b, us) \<in> set A" for b us
  proof -
    from that obtain i where "i < length A" "A ! i = (b, us)" by (auto simp: in_set_conv_nth)
    with l [unfolded rows_apart_def, rule_format, of 0 "Suc i"] show ?thesis by auto
  qed
  ultimately show ?r by blast
next
  assume r: ?r
  show ?l
    unfolding rows_apart_def
  proof (intro allI impI)
    fix i j assume ij: "i < length ((a, ts) # A)" "j < length ((a, ts) # A)" "i \<noteq> j"
    show "fst (((a, ts) # A) ! i) + extent (snd (((a, ts) # A) ! i)) + sizeof_arena \<le> fst (((a, ts) # A) ! j) \<or>
        fst (((a, ts) # A) ! j) + extent (snd (((a, ts) # A) ! j)) + sizeof_arena \<le> fst (((a, ts) # A) ! i)"
    proof (cases i)
      case 0
      with ij obtain k where "j = Suc k" "k < length A" by (cases j) auto
      moreover from this have "(fst (A ! k), snd (A ! k)) \<in> set A" by simp
      ultimately show ?thesis using r 0 by fastforce
    next
      case (Suc k)
      show ?thesis
      proof (cases j)
        case 0
        from Suc ij have "(fst (A ! k), snd (A ! k)) \<in> set A" by simp
        with r Suc 0 show ?thesis by fastforce
      next
        case (Suc l)
        with \<open>i = Suc k\<close> ij r show ?thesis by (simp add: rows_apart_def)
      qed
    qed
  qed
qed

lemma arenas_ok_Cons:
  "arenas_ok h ah (ma # mas) A \<longleftrightarrow>
     (\<exists>ts A'. A = (arena_base ma, ts) # A' \<and> arena_ok h ah ma ts \<and> arenas_ok h ah mas A' \<and>
        (\<forall>(b, us) \<in> set A'. arena_base ma + extent ts + sizeof_arena \<le> b \<or> b + extent us + sizeof_arena \<le> arena_base ma))"
  by (auto simp: arenas_ok_def list_all2_Cons1 rows_apart_Cons)

text \<open>Headers outside of an arena do not matter to it.\<close>

lemma arena_ok_frame:
  assumes "arena_ok h ah ma ts"
    and "\<And>x. arena_base ma \<le> x \<Longrightarrow> x < arena_base ma + extent ts \<Longrightarrow> h' x = h x"
    and "\<And>x. arena_base ma \<le> x \<Longrightarrow> x < arena_base ma + extent ts \<Longrightarrow>
           ah' x = ah x \<or> am_magic (ah' x) \<noteq> AlignedMemBlockMagic"
  shows "arena_ok h' ah' ma ts"
proof -
  have "plain ah a ts \<Longrightarrow> (\<And>x. a \<le> x \<Longrightarrow> x < a + extent ts \<Longrightarrow> ah' x = ah x \<or> am_magic (ah' x) \<noteq> AlignedMemBlockMagic) \<Longrightarrow>
      plain ah' a ts" for a
  proof (induction ts arbitrary: a)
    case (Cons t ts)
    obtain n u where t: "t = (n, u)" by fastforce
    have "plain ah' (a + sizeof_block + n) ts" using Cons t by auto
    moreover have "am_magic (ah' (12 + a)) \<noteq> AlignedMemBlockMagic" using Cons.prems(1) Cons.prems(2) [of "12 + a"] t by auto
    ultimately show ?case using t by simp
  qed simp
  with assms hdrs_ok_cong [of "arena_base ma" ts h' h] show ?thesis by (simp add: arena_ok_def)
qed

lemma arenas_ok_frame:
  assumes "arenas_ok h ah mas A"
    and "\<And>x a ts. (a, ts) \<in> set A \<Longrightarrow> a \<le> x \<Longrightarrow> x < a + extent ts \<Longrightarrow>
           h' x = h x \<and> (ah' x = ah x \<or> am_magic (ah' x) \<noteq> AlignedMemBlockMagic)"
  shows "arenas_ok h' ah' mas A"
  using assms
proof (induction mas arbitrary: A)
  case Nil
  then show ?case by (auto simp: arenas_ok_def)
next
  case (Cons ma mas)
  from Cons.prems(1) obtain ts A' where A: "A = (arena_base ma, ts) # A'" "arena_ok h ah ma ts" "arenas_ok h ah mas A'"
    "\<forall>(b, us) \<in> set A'. arena_base ma + extent ts + sizeof_arena \<le> b \<or> b + extent us + sizeof_arena \<le> arena_base ma"
    by (auto simp: arenas_ok_Cons)
  have "arena_ok h' ah' ma ts" using A(2) by (rule arena_ok_frame) (use Cons.prems(2) A(1) in auto)
  moreover have "arenas_ok h' ah' mas A'" using A(3) by (rule Cons.IH) (use Cons.prems(2) A(1) in auto)
  ultimately show ?case using A(1,4) by (auto simp: arenas_ok_Cons)
qed

section \<open>Allocating\<close>

definition clear_opt :: "nat option \<Rightarrow> (nat \<Rightarrow> aligned_block) \<Rightarrow> nat \<Rightarrow> aligned_block" where
  "clear_opt c ah = (case c of None \<Rightarrow> ah
     | Some mb \<Rightarrow> ah(mb + sizeof_block - sizeof_aligned := \<lparr>am_magic = 0, am_offset = 0\<rparr>))"

lemma clear_opt_magic: "clear_opt c ah x = ah x \<or> am_magic (clear_opt c ah x) \<noteq> AlignedMemBlockMagic"
  by (auto simp: clear_opt_def AlignedMemBlockMagic_def split: option.splits)

lemma plain_clear_opt: "plain ah a ts \<Longrightarrow> plain (clear_opt c ah) a ts"
  by (auto simp: clear_opt_def split: option.splits intro: plain_clear)

lemma tiles_ok_carve:
  assumes "tiles_ok (xs @ (n, False) # ys)" "req + sizeof_block \<le> n" "0 < req" "8 dvd req"
  shows "tiles_ok (xs @ carve req n @ ys)"
proof -
  have "8 dvd n" "ys = [] \<or> snd (hd ys)" using assms(1) by (auto simp: tiles_ok_def merged_append)
  moreover have "8 dvd n - req - sizeof_block" using calculation(1) assms(4) by (simp add: dvd_diff_nat)
  ultimately show ?thesis
    using assms by (auto simp: tiles_ok_def merged_append carve_def hd_append)
qed

lemma arena_alloc:
  assumes ok: "arena_ok h ah ma (xs @ (n, False) # ys)" and r: "req + sizeof_block \<le> n" "0 < req" "8 dvd req"
    and f: "find_entry h (req + sizeof_block) (ma_freeblks ma) = Inr (Some (arena_base ma + extent xs))"
  obtains c h' fl where
    "try_allocating_in_area (h, ma_freeblks ma) req = Inr (Some (arena_base ma + extent xs, c), (h', fl))"
    "arena_ok h' (clear_opt c ah) (ma\<lparr>ma_freeblks := fl\<rparr>) (xs @ carve req n @ ys)"
    "\<And>x. x < arena_base ma \<or> arena_base ma + ma_size ma \<le> x \<Longrightarrow> h' x = h x"
proof -
  let ?a = "arena_base ma"
  note o = ok [unfolded arena_ok_def]
  have fl: "ma_freeblks ma = frees ?a (xs @ (n, False) # ys)" using o by blast
  have pre: "hdrs_ok h ?a (xs @ (n, False) # ys)" "tiles_ok (xs @ (n, False) # ys)"
    "extent (xs @ (n, False) # ys) < 2 ^ 31" "?a + extent (xs @ (n, False) # ys) < 2 ^ 32"
    using o by auto
  from try_allocating_some [OF pre r(1) f [unfolded fl]] obtain c h' where
    t: "try_allocating_in_area (h, frees ?a (xs @ (n, False) # ys)) req =
          Inr (Some (?a + extent xs, c), (h', frees ?a (xs @ carve req n @ ys)))"
      "hdrs_ok h' ?a (xs @ carve req n @ ys)"
      "\<forall>x. x < ?a \<or> ?a + extent (xs @ (n, False) # ys) \<le> x \<longrightarrow> h' x = h x"
      "c = (if sizeof_block < n - req then Some (?a + extent xs + req + sizeof_block) else None)" by blast
  have pl: "plain ah ?a (xs @ (n, False) # ys)" using o by blast
  have "plain (clear_opt c ah) ?a (xs @ carve req n @ ys)"
    using plain_clear_opt [OF pl, of c] r(1) t(4)
    by (auto simp: carve_def clear_opt_def AlignedMemBlockMagic_def ac_simps)
  moreover have "extent (xs @ carve req n @ ys) = extent (xs @ (n, False) # ys)" using r(1) by (simp add: carve_def)
  ultimately have "arena_ok h' (clear_opt c ah) (ma\<lparr>ma_freeblks := frees ?a (xs @ carve req n @ ys)\<rparr>) (xs @ carve req n @ ys)"
    using o t(2) tiles_ok_carve [OF pre(2) r] by (simp add: arena_ok_def)
  moreover have ex: "extent (xs @ (n, False) # ys) = ma_size ma" using o by blast
  have "h' x = h x" if "x < ?a \<or> ?a + ma_size ma \<le> x" for x
    using t(3) that unfolding ex by blast
  ultimately show thesis using that t(1) fl by simp
qed

lemma used_carve:
  "used_at a (xs @ carve req n @ ys) = insert (a + extent xs, if sizeof_block < n - req then req else n)
     (used_at a (xs @ (n, False) # ys))" if "req + sizeof_block \<le> n"
  using that by (auto simp: carve_def ac_simps)

text \<open>The addresses and lengths of the rows.\<close>

definition rows :: "aheap \<Rightarrow> (nat \<times> nat) list" where
  "rows A = map (\<lambda>(a, ts). (a, extent ts)) A"

lemma rows_simps [simp]: "rows [] = []" "rows ((a, ts) # A) = (a, extent ts) # rows A"
  by (simp_all add: rows_def)

lemma rows_mem: "rows A' = rows A \<Longrightarrow> (a, ts) \<in> set A' \<Longrightarrow> \<exists>us. (a, us) \<in> set A \<and> extent us = extent ts"
proof -
  assume r: "rows A' = rows A" "(a, ts) \<in> set A'"
  have "(a, extent ts) \<in> set (rows A')" using r(2) by (force simp: rows_def)
  then have "(a, extent ts) \<in> set (rows A)" unfolding r(1) .
  then show ?thesis by (auto simp: rows_def)
qed

lemma used_Cons [simp]: "used ((a, ts) # A) = used_at a ts \<union> used A"
  by (auto simp: used_def)

lemma alloc_arenas_cases:
  assumes "arenas_ok h ah mas A" and r: "0 < req" "8 dvd req" "req + sizeof_block < 2 ^ 32"
  obtains (none) "alloc_arenas h req mas = Inr (None, h, mas)"
      "\<And>a ts n. (a, ts) \<in> set A \<Longrightarrow> (n, False) \<in> set ts \<Longrightarrow> n < req + sizeof_block"
    | (some) mb c h' mas' A' n where "alloc_arenas h req mas = Inr (Some (mb, c), h', mas')"
      "arenas_ok h' (clear_opt c ah) mas' A'" "req \<le> n \<and> n \<le> req + sizeof_block" "used A' = insert (mb, n) (used A)" "rows A' = rows A"
      "\<And>x. (\<forall>(a, ts) \<in> set A. x < a \<or> a + extent ts \<le> x) \<Longrightarrow> h' x = h x"
      "(mb, n) \<notin> used A" "\<exists>(a, ts) \<in> set A. a \<le> mb \<and> mb + sizeof_block + n \<le> a + extent ts"
  using assms(1)
proof (induction mas arbitrary: A thesis)
  case Nil
  then show ?case by (auto simp: arenas_ok_def)
next
  case (Cons ma mas)
  let ?a = "arena_base ma"
  from Cons.prems(3) obtain ts A1 where A: "A = (?a, ts) # A1" "arena_ok h ah ma ts" "arenas_ok h ah mas A1"
    "\<forall>(b, us) \<in> set A1. ?a + extent ts + sizeof_arena \<le> b \<or> b + extent us + sizeof_arena \<le> ?a"
    by (auto simp: arenas_ok_Cons)
  note o = A(2) [unfolded arena_ok_def]
  have fl: "ma_freeblks ma = frees ?a ts" and magic: "ma_magic ma = MB_MAGIC" and ext: "extent ts = ma_size ma"
    using o by blast+
  have pre: "hdrs_ok h ?a ts" "extent ts < 2 ^ 31" using o by auto
  show ?case
  proof (rule find_entry_cases [OF pre, of "req + sizeof_block"])
    assume n: "find_entry h (req + sizeof_block) (frees ?a ts) = Inr None"
      "\<And>n. (n, False) \<in> set ts \<Longrightarrow> n < req + sizeof_block"
    have skip: "try_allocating_in_area (h, ma_freeblks ma) req = Inr (None, (h, ma_freeblks ma))"
      using n(1) r(3) by (simp add: try_allocating_in_area_def fl)
    show ?thesis
    proof (rule Cons.IH [OF _ _ A(3)])
      assume "alloc_arenas h req mas = Inr (None, h, mas)"
        "\<And>a ts n. (a, ts) \<in> set A1 \<Longrightarrow> (n, False) \<in> set ts \<Longrightarrow> n < req + sizeof_block"
      with n(2) skip magic A(1) show ?thesis by (intro Cons.prems(1)) auto
    next
      fix mb c h' mas' A' n
      assume s: "alloc_arenas h req mas = Inr (Some (mb, c), h', mas')"
        "arenas_ok h' (clear_opt c ah) mas' A'" "req \<le> n \<and> n \<le> req + sizeof_block" "used A' = insert (mb, n) (used A1)" "rows A' = rows A1"
        "\<And>x. (\<forall>(a, ts) \<in> set A1. x < a \<or> a + extent ts \<le> x) \<Longrightarrow> h' x = h x"
        "(mb, n) \<notin> used A1" "\<exists>(a, ts) \<in> set A1. a \<le> mb \<and> mb + sizeof_block + n \<le> a + extent ts"
      have "arena_ok h' (clear_opt c ah) ma ts"
        using A(2)
      proof (rule arena_ok_frame)
        fix x assume x: "?a \<le> x" "x < ?a + extent ts"
        show "h' x = h x" by (rule s(6)) (use A(4) x in fastforce)
      qed (rule clear_opt_magic)
      moreover have "\<forall>(b, us) \<in> set A'. ?a + extent ts + sizeof_arena \<le> b \<or> b + extent us + sizeof_arena \<le> ?a"
        using A(4) rows_mem [OF s(5)] by fastforce
      ultimately have "arenas_ok h' (clear_opt c ah) (ma # mas') ((?a, ts) # A')"
        using s(2) by (auto simp: arenas_ok_Cons)
      moreover have "(mb, n) \<notin> used_at ?a ts"
        using s(8) A(4) used_range [of mb n ?a ts] by fastforce
      ultimately show ?thesis
        using s skip magic A(1) by (intro Cons.prems(2) [of mb c h' "ma # mas'" "(?a, ts) # A'" n]) auto
    qed
  next
    fix xs n ys
    assume f: "find_entry h (req + sizeof_block) (frees ?a ts) = Inr (Some (?a + extent xs))"
      "ts = xs @ (n, False) # ys" "req + sizeof_block \<le> n"
    from arena_alloc [OF A(2) [unfolded f(2)] f(3) r(1,2)] f(1) fl f(2) obtain c h' fl' where
      t: "try_allocating_in_area (h, ma_freeblks ma) req = Inr (Some (?a + extent xs, c), (h', fl'))"
        "arena_ok h' (clear_opt c ah) (ma\<lparr>ma_freeblks := fl'\<rparr>) (xs @ carve req n @ ys)"
        "\<And>x. x < ?a \<or> ?a + ma_size ma \<le> x \<Longrightarrow> h' x = h x" by metis
    have "arenas_ok h' (clear_opt c ah) mas A1"
      using A(3)
    proof (rule arenas_ok_frame)
      fix x a us assume x: "(a, us) \<in> set A1" "a \<le> x" "x < a + extent us"
      have "h' x = h x" by (rule t(3)) (use A(4) x ext in fastforce)
      then show "h' x = h x \<and> (clear_opt c ah x = ah x \<or> am_magic (clear_opt c ah x) \<noteq> AlignedMemBlockMagic)"
        using clear_opt_magic by blast
    qed
    moreover have same: "extent (xs @ carve req n @ ys) = extent ts" using f(2,3) by (simp add: carve_def)
    ultimately have "arenas_ok h' (clear_opt c ah) (ma\<lparr>ma_freeblks := fl'\<rparr> # mas) ((?a, xs @ carve req n @ ys) # A1)"
      using t(2) A(4) by (auto simp: arenas_ok_Cons)
    moreover have "(?a + extent xs, k) \<notin> used_at ?a ts" for k
    proof
      assume "(?a + extent xs, k) \<in> used_at ?a ts"
      then have "(?a + extent xs, k) \<in> used_at ?a xs \<or> (?a + extent xs, k) \<in> used_at (?a + extent xs + sizeof_block + n) ys"
        by (simp add: f(2))
      then show False using used_range [of "?a + extent xs" k] by fastforce
    qed
    moreover have "(?a + extent xs, k) \<notin> used A1" for k
    proof
      assume "(?a + extent xs, k) \<in> used A1"
      then obtain b us where b: "(b, us) \<in> set A1" "(?a + extent xs, k) \<in> used_at b us" by (auto simp: used_def)
      from used_range [OF b(2)] A(4) b(1) f(2) show False by fastforce
    qed
    ultimately show ?thesis
      using t magic A(1) f same used_carve [OF f(3), of ?a xs ys] ext
      by (intro Cons.prems(2) [of "?a + extent xs" c h' "ma\<lparr>ma_freeblks := fl'\<rparr> # mas" "(?a, xs @ carve req n @ ys) # A1"
            "if sizeof_block < n - req then req else n"]) auto
  qed
qed

lemma alloc_arenas_none:
  assumes "arenas_ok h ah mas A" "req + sizeof_block < 2 ^ 32"
    and "\<And>a ts n. (a, ts) \<in> set A \<Longrightarrow> (n, False) \<in> set ts \<Longrightarrow> n < req + sizeof_block"
  shows "alloc_arenas h req mas = Inr (None, h, mas)"
  using assms(1,3)
proof (induction mas arbitrary: A)
  case (Cons ma mas)
  let ?a = "arena_base ma"
  from Cons.prems(1) obtain ts A1 where A: "A = (?a, ts) # A1" "arena_ok h ah ma ts" "arenas_ok h ah mas A1"
    by (auto simp: arenas_ok_Cons)
  note o = A(2) [unfolded arena_ok_def]
  have fl: "ma_freeblks ma = frees ?a ts" and magic: "ma_magic ma = MB_MAGIC" using o by blast+
  have pre: "hdrs_ok h ?a ts" "extent ts < 2 ^ 31" using o by auto
  have "find_entry h (req + sizeof_block) (frees ?a ts) = Inr None"
  proof (rule find_entry_cases [OF pre, of "req + sizeof_block"])
    fix xs n ys assume "ts = xs @ (n, False) # ys" "req + sizeof_block \<le> n"
    with Cons.prems(2) [of ?a ts n] A(1) show ?thesis by simp
  qed
  then have "try_allocating_in_area (h, ma_freeblks ma) req = Inr (None, (h, ma_freeblks ma))"
    using assms(2) by (simp add: try_allocating_in_area_def fl)
  moreover have "alloc_arenas h req mas = Inr (None, h, mas)"
  proof (rule Cons.IH [OF A(3)])
    fix b us n assume "(b, us) \<in> set A1" "(n, False) \<in> set us"
    with Cons.prems(2) [of b us n] A(1) show "n < req + sizeof_block" by simp
  qed
  ultimately show ?case using magic by simp
qed simp

lemma size_align_bounds:
  assumes "0 < sz" "sz + 32 \<le> 2 ^ 32"
  shows "8 dvd size_align sz" "sz \<le> size_align sz" "size_align sz < sz + 8"
proof -
  have "unat (of_nat sz :: u32) = sz" using assms(2) by (simp add: unat_of_nat)
  then have "size_align sz = (sz + 7) div 8 * 8"
    using assms(2) unat_align_to [of 3 "of_nat sz"] by (simp add: size_align_def MB_ALIGNMENT_def)
  then show "8 dvd size_align sz" "sz \<le> size_align sz" "size_align sz < sz + 8" by presburger+
qed

lemma heap_row_aligned:
  assumes "arenas_ok h ah mas A" "(a, ts) \<in> set A"
  shows "8 dvd a" "tiles_ok ts" "32 \<le> a" "a + extent ts < 2 ^ 32" "extent ts < 2 ^ 31" "hdrs_ok h a ts" "plain ah a ts"
proof -
  from assms obtain ma where "a = arena_base ma" "arena_ok h ah ma ts"
    by (force simp: arenas_ok_def list_all2_conv_all_nth in_set_conv_nth)
  then show "8 dvd a" "tiles_ok ts" "32 \<le> a" "a + extent ts < 2 ^ 32" "extent ts < 2 ^ 31" "hdrs_ok h a ts" "plain ah a ts"
    by (simp_all add: arena_ok_def)
qed

lemma extent_dvd: "tiles_ok ts \<Longrightarrow> 8 dvd extent ts"
  by (induction ts) (auto simp: tiles_ok_def)

lemma tiles_ok_appendD: "tiles_ok (xs @ ys) \<Longrightarrow> tiles_ok xs \<and> tiles_ok ys"
  by (auto simp: tiles_ok_def merged_append)

text \<open>A block in use is aligned, has a header that says so, and its data lies in its row.\<close>

lemma used_block:
  assumes ok: "arenas_ok h ah mas A" and u: "(mb, n) \<in> used A"
  obtains a xs ys where "(a, xs @ (n, True) # ys) \<in> set A" "mb = a + extent xs"
    "h mb = \<lparr>mb_magic = MB_MAGIC, mb_size = - int n\<rparr>" "0 < n" "8 dvd mb" "32 \<le> mb" "mb + sizeof_block + n < 2 ^ 32"
    "am_magic (ah (mb + sizeof_block - sizeof_aligned)) \<noteq> AlignedMemBlockMagic" "n < 2 ^ 31"
proof -
  from u obtain a ts where a: "(a, ts) \<in> set A" "(mb, n) \<in> used_at a ts" by (auto simp: used_def)
  from used_split [OF a(2)] obtain xs ys where s: "ts = xs @ (n, True) # ys" "mb = a + extent xs" by blast
  note r = heap_row_aligned [OF ok a(1)]
  have "tiles_ok xs" using tiles_ok_appendD r(2) s(1) by blast
  then have "8 dvd extent xs" by (rule extent_dvd)
  moreover have "0 < n" using r(2) s(1) by (simp add: tiles_ok_def)
  ultimately show thesis using r s a(1) by (intro that [of a xs ys]) auto
qed

lemma used_at_apart:
  "(x, n) \<in> used_at a ts \<Longrightarrow> (y, m) \<in> used_at a ts \<Longrightarrow> (x, n) \<noteq> (y, m) \<Longrightarrow>
     x + sizeof_block + n \<le> y \<or> y + sizeof_block + m \<le> x"
proof (induction ts arbitrary: a)
  case (Cons t ts)
  obtain k u where t: "t = (k, u)" by fastforce
  let ?b = "a + sizeof_block + k"
  show ?case
  proof (cases "(x, n) \<in> used_at ?b ts \<and> (y, m) \<in> used_at ?b ts")
    case True
    with Cons show ?thesis by blast
  next
    case False
    with Cons.prems t used_range [of x n ?b ts] used_range [of y m ?b ts] show ?thesis
      by (auto split: if_splits)
  qed
qed simp

lemma used_apart:
  assumes ok: "arenas_ok h ah mas A" and u: "(x, n) \<in> used A" "(y, m) \<in> used A" "(x, n) \<noteq> (y, m)"
  shows "x + sizeof_block + n \<le> y \<or> y + sizeof_block + m \<le> x"
proof -
  from u obtain i j where ij: "i < length A" "j < length A" "(x, n) \<in> used_at (fst (A ! i)) (snd (A ! i))"
    "(y, m) \<in> used_at (fst (A ! j)) (snd (A ! j))"
    unfolding used_def by (fastforce simp: in_set_conv_nth)
  show ?thesis
  proof (cases "i = j")
    case True
    with ij used_at_apart u(3) show ?thesis by blast
  next
    case False
    from ok ij(1,2) False have "fst (A ! i) + extent (snd (A ! i)) + sizeof_arena \<le> fst (A ! j) \<or>
        fst (A ! j) + extent (snd (A ! j)) + sizeof_arena \<le> fst (A ! i)"
      unfolding arenas_ok_def rows_apart_def by blast
    with used_range [OF ij(3)] used_range [OF ij(4)] show ?thesis by linarith
  qed
qed

lemma kmalloc_cases:
  assumes ok: "heap_ok mp A" and sz: "0 < sz" "sz + 32 \<le> 2 ^ 32"
  obtains (none) "kmalloc sz nowait zero mp = (if nowait then Inr (None, mp) else Inl (Panic ''memory exhausted''))"
      "\<And>a ts n. (a, ts) \<in> set A \<Longrightarrow> (n, False) \<in> set ts \<Longrightarrow> n < size_align sz + sizeof_block"
    | (some) mb mp' A' n where "kmalloc sz nowait zero mp = Inr (Some (mb + sizeof_block), mp')" "heap_ok mp' A'"
      "used A' = insert (mb, n) (used A)" "(mb, n) \<notin> used A" "sz \<le> n" "n \<le> size_align sz + sizeof_block" "rows A' = rows A"
      "\<And>x. bytes mp' x = (if zero \<and> mb + sizeof_block \<le> x \<and> x < mb + sizeof_block + sz then 0 else bytes mp x)"
      "\<And>x. ahdr mp' x = ahdr mp x \<or> am_magic (ahdr mp' x) \<noteq> AlignedMemBlockMagic"
proof -
  note sb = size_align_bounds [OF sz]
  have o: "arenas_ok (hdr mp) (ahdr mp) (mp_arena mp) A" "mp_magic mp = MB_MAGIC" using ok by (simp_all add: heap_ok_def)
  show thesis
  proof (rule alloc_arenas_cases [OF o(1), of "size_align sz"])
    assume "alloc_arenas (hdr mp) (size_align sz) (mp_arena mp) = Inr (None, hdr mp, mp_arena mp)"
      "\<And>a ts n. (a, ts) \<in> set A \<Longrightarrow> (n, False) \<in> set ts \<Longrightarrow> n < size_align sz + sizeof_block"
    with sz(1) show thesis by (intro none) (simp_all add: kmalloc_def)
  next
    fix mb c h' mas' A' n
    assume s: "alloc_arenas (hdr mp) (size_align sz) (mp_arena mp) = Inr (Some (mb, c), h', mas')"
      "arenas_ok h' (clear_opt c (ahdr mp)) mas' A'" "size_align sz \<le> n \<and> n \<le> size_align sz + sizeof_block" "used A' = insert (mb, n) (used A)"
      "rows A' = rows A" "(mb, n) \<notin> used A"
    let ?b = "\<lambda>x. if zero \<and> mb + sizeof_block \<le> x \<and> x < mb + sizeof_block + sz then 0 else bytes mp x"
    let ?mp = "mp\<lparr>mp_arena := mas', hdr := h', ahdr := clear_opt c (ahdr mp), bytes := ?b\<rparr>"
    have "kmalloc sz nowait zero mp = Inr (Some (mb + sizeof_block), ?mp)"
      using s(1) sz(1) by (cases c) (simp_all add: kmalloc_def clear_aligned_def clear_opt_def Let_def)
    moreover have "heap_ok ?mp A'" using s(2) o(2) by (simp add: heap_ok_def)
    ultimately show thesis using s sb(2) clear_opt_magic by (intro some [of mb ?mp A' n]) auto
  qed (use sz sb in auto)
qed

lemma kmalloc_none:
  assumes "heap_ok mp A" "0 < sz" "sz + 32 \<le> 2 ^ 32"
    and "\<And>a ts n. (a, ts) \<in> set A \<Longrightarrow> (n, False) \<in> set ts \<Longrightarrow> n < size_align sz + sizeof_block"
  shows "kmalloc sz nowait zero mp = (if nowait then Inr (None, mp) else Inl (Panic ''memory exhausted''))"
proof -
  have "arenas_ok (hdr mp) (ahdr mp) (mp_arena mp) A" using assms(1) by (simp add: heap_ok_def)
  from alloc_arenas_none [OF this _ assms(4)] size_align_bounds(3) [OF assms(2,3)] assms(2,3)
  show ?thesis by (simp add: kmalloc_def)
qed

section \<open>Freeing\<close>

lemma arena_free:
  assumes ok: "arena_ok h ah ma (xs @ (n, True) # ys)"
  obtains h' fl where
    "add_free_memory_block (arena_base ma + extent xs) (n + sizeof_block) (h, ma_freeblks ma) = (h', fl)"
    "arena_ok h' ah (ma\<lparr>ma_freeblks := fl\<rparr>) (join xs n ys)"
    "\<And>x. x < arena_base ma \<or> arena_base ma + ma_size ma \<le> x \<Longrightarrow> h' x = h x"
proof -
  let ?a = "arena_base ma"
  note o = ok [unfolded arena_ok_def]
  have hx: "hdrs_ok h ?a xs" "hdrs_ok h (?a + extent xs + sizeof_block + n) ys"
    and bd: "extent xs + sizeof_block + n + extent ys < 2 ^ 31" using o by auto
  have fl: "ma_freeblks ma = frees ?a xs @ frees (?a + extent xs + sizeof_block + n) ys" using o by simp
  from add_free_ok [OF hx bd] obtain h' where
    h': "add_free_memory_block (?a + extent xs) (n + sizeof_block) (h, ma_freeblks ma) = (h', frees ?a (join xs n ys))"
      "hdrs_ok h' ?a (join xs n ys)"
      "\<forall>x. x < ?a \<or> ?a + extent xs + sizeof_block + n + extent ys \<le> x \<longrightarrow> h' x = h x"
    unfolding fl by blast
  have t: "tiles_ok (xs @ (n, True) # ys)" using o by blast
  have "tiles_ok xs" "tiles_ok ys" "8 dvd n"
    using tiles_ok_appendD [OF t] by (auto simp: tiles_ok_def)
  then have "tiles_ok (join xs n ys)" by (rule tiles_ok_join)
  moreover have "plain ah ?a (join xs n ys)" using o plain_join by blast
  ultimately have "arena_ok h' ah (ma\<lparr>ma_freeblks := frees ?a (join xs n ys)\<rparr>) (join xs n ys)"
    using o h'(2) by (simp add: arena_ok_def)
  moreover have "h' x = h x" if "x < ?a \<or> ?a + ma_size ma \<le> x" for x
  proof -
    have "ma_size ma = extent xs + sizeof_block + n + extent ys" using o by simp
    with that h'(3) show ?thesis by (auto simp: ac_simps)
  qed
  ultimately show thesis using that h'(1) by blast
qed

lemma free_arenas_miss:
  assumes "arenas_ok h ah mas A" and "\<And>a ts. (a, ts) \<in> set A \<Longrightarrow> addr < a \<or> a + extent ts \<le> addr"
  shows "free_arenas addr mb h mas = (h, mas)"
  using assms
proof (induction mas arbitrary: A)
  case (Cons ma mas)
  from Cons.prems(1) obtain ts A1 where A: "A = (arena_base ma, ts) # A1" "arena_ok h ah ma ts" "arenas_ok h ah mas A1"
    by (auto simp: arenas_ok_Cons)
  then have "extent ts = ma_size ma" by (simp add: arena_ok_def)
  moreover have "free_arenas addr mb h mas = (h, mas)" using A Cons.IH [OF A(3)] Cons.prems(2) by simp
  ultimately show ?case using Cons.prems(2) [of "arena_base ma" ts] A(1) by auto
qed simp

lemma free_arenas_hit:
  assumes "arenas_ok h ah mas A" and "(mb, n) \<in> used A"
  shows "\<exists>h' mas' A'. free_arenas (mb + sizeof_block) mb h mas = (h', mas') \<and> arenas_ok h' ah mas' A' \<and>
           used A' = used A - {(mb, n)} \<and> rows A' = rows A \<and>
           (\<forall>x. (\<forall>(a, ts) \<in> set A. x < a \<or> a + extent ts \<le> x) \<longrightarrow> h' x = h x)"
  using assms
proof (induction mas arbitrary: A)
  case Nil
  then show ?case by (auto simp: arenas_ok_def used_def)
next
  case (Cons ma mas)
  let ?a = "arena_base ma"
  from Cons.prems(1) obtain ts A1 where A: "A = (?a, ts) # A1" "arena_ok h ah ma ts" "arenas_ok h ah mas A1"
    "\<forall>(b, us) \<in> set A1. ?a + extent ts + sizeof_arena \<le> b \<or> b + extent us + sizeof_arena \<le> ?a"
    by (auto simp: arenas_ok_Cons)
  have ext: "extent ts = ma_size ma" using A(2) by (simp add: arena_ok_def)
  obtain b xs ys where ub: "(b, xs @ (n, True) # ys) \<in> set A" "mb = b + extent xs"
    "h mb = \<lparr>mb_magic = MB_MAGIC, mb_size = - int n\<rparr>" "0 < n"
    using used_block [OF Cons.prems] by metis
  show ?case
  proof (cases "(b, xs @ (n, True) # ys) = (?a, ts)")
    case True
    then have b: "b = ?a" and ts: "ts = xs @ (n, True) # ys" by simp_all
    from arena_free [OF A(2) [unfolded ts]] obtain h' fl where
      f: "add_free_memory_block (?a + extent xs) (n + sizeof_block) (h, ma_freeblks ma) = (h', fl)"
        "arena_ok h' ah (ma\<lparr>ma_freeblks := fl\<rparr>) (join xs n ys)"
        "\<And>x. x < ?a \<or> ?a + ma_size ma \<le> x \<Longrightarrow> h' x = h x" by blast
    have rest: "arenas_ok h' ah mas A1"
      using A(3)
    proof (rule arenas_ok_frame)
      fix x a us assume x: "(a, us) \<in> set A1" "a \<le> x" "x < a + extent us"
      have "h' x = h x" by (rule f(3)) (use A(4) x ext in fastforce)
      then show "h' x = h x \<and> (ah x = ah x \<or> am_magic (ah x) \<noteq> AlignedMemBlockMagic)" by simp
    qed
    have in_row: "?a \<le> mb" "mb + sizeof_block < ?a + extent ts" using ub(2,4) b ts by simp_all
    have "free_arenas (mb + sizeof_block) mb h' mas = (h', mas)"
      using rest by (rule free_arenas_miss) (use A(4) in_row in fastforce)
    then have "free_arenas (mb + sizeof_block) mb h (ma # mas) = (h', ma\<lparr>ma_freeblks := fl\<rparr> # mas)"
      using f(1) ub(2,3) b in_row ext by simp
    moreover have "arenas_ok h' ah (ma\<lparr>ma_freeblks := fl\<rparr> # mas) ((?a, join xs n ys) # A1)"
      using f(2) rest A(4) ts by (auto simp: arenas_ok_Cons)
    moreover have "used ((?a, join xs n ys) # A1) = used A - {(mb, n)}"
    proof -
      have "(mb, n) \<notin> used_at ?a xs" using used_range [of mb n ?a xs] ub(2,4) b by auto
      moreover have "(mb, n) \<notin> used_at (?a + extent xs + sizeof_block + n) ys"
        using used_range [of mb n "?a + extent xs + sizeof_block + n" ys] ub(2) b by auto
      moreover have "(mb, n) \<notin> used A1"
      proof
        assume "(mb, n) \<in> used A1"
        then obtain c us where c: "(c, us) \<in> set A1" "(mb, n) \<in> used_at c us" by (auto simp: used_def)
        from used_range [OF c(2)] A(4) c(1) in_row show False by fastforce
      qed
      ultimately show ?thesis unfolding A(1) ts used_Cons used_at_join using ub(2) b by auto
    qed
    moreover have "\<forall>x. (\<forall>(a, ts) \<in> set A. x < a \<or> a + extent ts \<le> x) \<longrightarrow> h' x = h x"
      using f(3) A(1) ext by auto
    moreover have "rows ((?a, join xs n ys) # A1) = rows A" using A(1) ts by simp
    ultimately show ?thesis by blast
  next
    case False
    with ub(1) A(1) have in1: "(b, xs @ (n, True) # ys) \<in> set A1" by auto
    then have u1: "(mb, n) \<in> used A1" using ub(2) by (force simp: used_def)
    have out: "\<not> (?a \<le> mb + sizeof_block \<and> mb + sizeof_block < ?a + ma_size ma)"
      using A(4) in1 ub(2) ext by fastforce
    from Cons.IH [OF A(3) u1] obtain h' mas' A' where
      r: "free_arenas (mb + sizeof_block) mb h mas = (h', mas')" "arenas_ok h' ah mas' A'"
        "used A' = used A1 - {(mb, n)}" "rows A' = rows A1"
        "\<forall>x. (\<forall>(a, ts) \<in> set A1. x < a \<or> a + extent ts \<le> x) \<longrightarrow> h' x = h x" by blast
    have "arena_ok h' ah ma ts"
      using A(2)
    proof (rule arena_ok_frame)
      fix x assume x: "?a \<le> x" "x < ?a + extent ts"
      show "h' x = h x" by (rule r(5) [rule_format]) (use A(4) x in fastforce)
    qed simp
    moreover have "\<forall>(b, us) \<in> set A'. ?a + extent ts + sizeof_arena \<le> b \<or> b + extent us + sizeof_arena \<le> ?a"
      using A(4) rows_mem [OF r(4)] by fastforce
    ultimately have "arenas_ok h' ah (ma # mas') ((?a, ts) # A')" using r(2) by (auto simp: arenas_ok_Cons)
    moreover have "free_arenas (mb + sizeof_block) mb h (ma # mas) = (h', ma # mas')" using out r(1) by auto
    moreover have "(mb, n) \<notin> used_at ?a ts"
      using used_range [of mb n ?a ts] A(4) in1 ub(2,4) by fastforce
    then have "used ((?a, ts) # A') = used A - {(mb, n)}" using r(3) A(1) by auto
    moreover have "rows ((?a, ts) # A') = rows A" using A(1) r(4) by simp
    moreover have "\<forall>x. (\<forall>(a, ts) \<in> set A. x < a \<or> a + extent ts \<le> x) \<longrightarrow> h' x = h x"
      using r(5) A(1) by auto
    ultimately show ?thesis by blast
  qed
qed

lemma kfree_ok:
  assumes ok: "heap_ok mp A" and u: "(mb, n) \<in> used A" and p: "free_addr mp q = mb + sizeof_block"
  obtains mp' A' where "kfree q mp = Inr mp'" "heap_ok mp' A'" "used A' = used A - {(mb, n)}" "rows A' = rows A"
    "bytes mp' = bytes mp"
proof -
  have o: "arenas_ok (hdr mp) (ahdr mp) (mp_arena mp) A" "mp_magic mp = MB_MAGIC" using ok by (simp_all add: heap_ok_def)
  have h: "hdr mp mb = \<lparr>mb_magic = MB_MAGIC, mb_size = - int n\<rparr>" "0 < n" using used_block [OF o(1) u] by metis+
  from free_arenas_hit [OF o(1) u] obtain h' mas' A' where
    f: "free_arenas (mb + sizeof_block) mb (hdr mp) (mp_arena mp) = (h', mas')" "arenas_ok h' (ahdr mp) mas' A'"
      "used A' = used A - {(mb, n)}" "rows A' = rows A" by blast
  let ?mp = "clear_aligned mb (mp\<lparr>hdr := h', mp_arena := mas'\<rparr>)"
  have "kfree q mp = Inr ?mp" using f(1) h o(2) p by (simp add: kfree_def)
  moreover have "arenas_ok h' (clear_opt (Some mb) (ahdr mp)) mas' A'"
    using f(2) by (rule arenas_ok_frame) (use clear_opt_magic in blast)
  then have "heap_ok ?mp A'" using o(2) by (simp add: heap_ok_def clear_aligned_def clear_opt_def)
  ultimately show thesis using that f(3,4) by (simp add: clear_aligned_def)
qed

lemma free_addr_plain:
  assumes ok: "heap_ok mp A" and u: "(mb, n) \<in> used A"
  shows "free_addr mp (mb + sizeof_block) = mb + sizeof_block"
  using used_block [of "hdr mp" "ahdr mp" "mp_arena mp" A mb n] ok u
  by (simp add: heap_ok_def free_addr_def Let_def) metis

section \<open>Arenas, aligned pointers and reallocation\<close>

lemma kmalloc_add_arena_ok:
  assumes ok: "heap_ok mp A" and sz: "48 \<le> arena_size" "arena_size < 2 ^ 31" "8 dvd arena_size"
    and st: "8 dvd start" "start + arena_size < 2 ^ 32"
    and ap: "\<And>b us. (b, us) \<in> set A \<Longrightarrow> start + arena_size + sizeof_arena \<le> b \<or> b + extent us \<le> start"
  shows "heap_ok (kmalloc_add_arena start arena_size mp) ((start + sizeof_arena, [(arena_size - 48, False)]) # A)"
proof -
  let ?mb = "start + sizeof_arena"
  let ?h = "(hdr mp)(?mb := \<lparr>mb_magic = MB_MAGIC, mb_size = int (arena_size - 48)\<rparr>)"
  let ?ma = "\<lparr>ma_addr = start, ma_size = arena_size - sizeof_arena, ma_magic = MB_MAGIC, ma_freeblks = [?mb]\<rparr>"
  have "to_int32 (int (arena_size - sizeof_arena) - int sizeof_block) = int (arena_size - 48)"
    using sz by (subst to_int32_id) auto
  then have eq: "kmalloc_add_arena start arena_size mp = clear_aligned ?mb (mp\<lparr>mp_arena := ?ma # mp_arena mp, hdr := ?h\<rparr>)"
    using sz(1) by (simp add: kmalloc_add_arena_def add_free_memory_block_def Let_def)
  have o: "arenas_ok (hdr mp) (ahdr mp) (mp_arena mp) A" "mp_magic mp = MB_MAGIC" using ok by (simp_all add: heap_ok_def)
  have "8 dvd arena_size - 48" using sz(3) by (simp add: dvd_diff_nat)
  then have "arena_ok ?h (clear_opt (Some ?mb) (ahdr mp)) ?ma [(arena_size - 48, False)]"
    using sz st by (simp add: arena_ok_def tiles_ok_def clear_opt_def AlignedMemBlockMagic_def)
  moreover have "arenas_ok ?h (clear_opt (Some ?mb) (ahdr mp)) (mp_arena mp) A"
    using o(1)
  proof (rule arenas_ok_frame)
    fix x a ts assume x: "(a, ts) \<in> set A" "a \<le> x" "x < a + extent ts"
    have "x \<noteq> ?mb" using ap [OF x(1)] x(2,3) sz(1) by auto
    then show "?h x = hdr mp x \<and> (clear_opt (Some ?mb) (ahdr mp) x = ahdr mp x \<or>
        am_magic (clear_opt (Some ?mb) (ahdr mp) x) \<noteq> AlignedMemBlockMagic)"
      using clear_opt_magic by simp
  qed
  moreover have "\<forall>(b, us) \<in> set A. ?mb + extent [(arena_size - 48, False)] + sizeof_arena \<le> b \<or>
      b + extent us + sizeof_arena \<le> ?mb"
    using ap sz(1) by auto
  ultimately show ?thesis
    using o(2) by (auto simp: eq heap_ok_def arenas_ok_Cons clear_aligned_def clear_opt_def)
qed

lemma plain_upd:
  "x < a \<or> a + extent ts \<le> x \<Longrightarrow> plain (ah(x := v)) a ts = plain ah a ts"
  by (induction ts arbitrary: a) auto

lemma heap_ok_payload:
  assumes ok: "heap_ok mp A" and u: "(mb, n) \<in> used A" and x: "mb + sizeof_block \<le> x" "x < mb + sizeof_block + n"
  shows "heap_ok (mp\<lparr>ahdr := (ahdr mp)(x := v)\<rparr>) A"
proof -
  let ?ah = "(ahdr mp)(x := v)"
  have o: "arenas_ok (hdr mp) (ahdr mp) (mp_arena mp) A" "mp_magic mp = MB_MAGIC" using ok by (simp_all add: heap_ok_def)
  have "plain ?ah a ts" if a: "(a, ts) \<in> set A" for a ts
  proof (cases "(mb, n) \<in> used_at a ts")
    case True
    then obtain xs ys where s: "ts = xs @ (n, True) # ys" "mb = a + extent xs" using used_split by blast
    with x heap_row_aligned(7) [OF o(1) a] show ?thesis by (auto simp: plain_upd)
  next
    case False
    from u obtain b us where b: "(b, us) \<in> set A" "(mb, n) \<in> used_at b us" by (auto simp: used_def)
    with False have "(a, ts) \<noteq> (b, us)" by auto
    with a b(1) obtain i j where "i < length A" "j < length A" "i \<noteq> j" "A ! i = (a, ts)" "A ! j = (b, us)"
      by (metis in_set_conv_nth)
    with o(1) have "a + extent ts + sizeof_arena \<le> b \<or> b + extent us + sizeof_arena \<le> a"
      unfolding arenas_ok_def rows_apart_def by fastforce
    with used_range [OF b(2)] x have "x < a \<or> a + extent ts \<le> x" by linarith
    with heap_row_aligned(7) [OF o(1) a] show ?thesis by (simp add: plain_upd)
  qed
  then have "arenas_ok (hdr mp) ?ah (mp_arena mp) A"
    using o(1) unfolding arenas_ok_def
    by (auto simp: list_all2_conv_all_nth arena_ok_def split: prod.splits) (metis nth_mem)
  with o(2) show ?thesis by (simp add: heap_ok_def)
qed

lemma align_word:
  assumes "k < 16" "x + 2 ^ k \<le> 2 ^ 32"
  shows "2 ^ k dvd unat (align_to (of_nat x) (of_nat (2 ^ k)))"
    and "x \<le> unat (align_to (of_nat x) (of_nat (2 ^ k)))"
    and "unat (align_to (of_nat x) (of_nat (2 ^ k))) < x + 2 ^ k"
proof -
  have p: "(0 :: nat) < 2 ^ k" by simp
  have lt: "x < 2 ^ 32" "x + (2 ^ k - 1) < 2 ^ 32" using assms(2) p by linarith+
  have "unat (of_nat x :: u32) = x" using lt(1) by (simp add: unat_of_nat)
  moreover have "(x + (2 ^ k - 1)) mod 2 ^ 32 = x + (2 ^ k - 1)" using lt(2) by (rule mod_less)
  ultimately have eq: "unat (align_to (of_nat x) (of_nat (2 ^ k))) = (x + (2 ^ k - 1)) div 2 ^ k * 2 ^ k"
    using assms(1) unat_align_to [of k "of_nat x"] by simp
  have "(x + (2 ^ k - 1)) div 2 ^ k * 2 ^ k + (x + (2 ^ k - 1)) mod 2 ^ k = x + (2 ^ k - 1)" by (rule div_mult_mod_eq)
  moreover have "(x + (2 ^ k - 1)) mod 2 ^ k < 2 ^ k" by simp
  ultimately have "x \<le> (x + (2 ^ k - 1)) div 2 ^ k * 2 ^ k" "(x + (2 ^ k - 1)) div 2 ^ k * 2 ^ k < x + 2 ^ k"
    using p by linarith+
  then show "2 ^ k dvd unat (align_to (of_nat x) (of_nat (2 ^ k)))"
    and "x \<le> unat (align_to (of_nat x) (of_nat (2 ^ k)))"
    and "unat (align_to (of_nat x) (of_nat (2 ^ k))) < x + 2 ^ k" unfolding eq by simp_all
qed

lemma kmemalign_cases:
  assumes ok: "heap_ok mp A" and k: "k < 16" and sz: "sz + 2 ^ k + 36 \<le> 2 ^ 32"
  obtains (none) "kmemalign sz (2 ^ k) nowait zero mp = (if nowait then Inr (None, mp) else Inl (Panic ''memory exhausted''))"
    | (some) q mb n mp' A' where "kmemalign sz (2 ^ k) nowait zero mp = Inr (Some q, mp')" "heap_ok mp' A'"
      "used A' = insert (mb, n) (used A)" "(mb, n) \<notin> used A" "2 ^ k dvd q" "mb + sizeof_block \<le> q"
      "q + sz \<le> mb + sizeof_block + n" "free_addr mp' q = mb + sizeof_block"
proof -
  let ?pad = "sz + 2 ^ k + sizeof_aligned"
  have pad: "?pad mod 2 ^ 32 = ?pad" "0 < ?pad" "?pad + 32 \<le> 2 ^ 32" using sz by simp_all
  show thesis
  proof (rule kmalloc_cases [OF ok pad(2,3), of nowait zero])
    assume "kmalloc ?pad nowait zero mp = (if nowait then Inr (None, mp) else Inl (Panic ''memory exhausted''))"
    then show thesis by (intro none) (simp add: kmemalign_def pad(1) [simplified] Let_def)
  next
    fix mb mp' A' n
    assume s: "kmalloc ?pad nowait zero mp = Inr (Some (mb + sizeof_block), mp')" "heap_ok mp' A'"
      "used A' = insert (mb, n) (used A)" "(mb, n) \<notin> used A" "?pad \<le> n"
    let ?p = "mb + sizeof_block"
    have u: "(mb, n) \<in> used A'" using s(3) by simp
    have o: "arenas_ok (hdr mp') (ahdr mp') (mp_arena mp') A'" using s(2) by (simp add: heap_ok_def)
    have lim: "?p + n < 2 ^ 32" using used_block [OF o u] by metis
    show thesis
    proof (cases "?p mod 2 ^ k = 0")
      case True
      then have "kmemalign sz (2 ^ k) nowait zero mp = Inr (Some ?p, mp')"
        using s(1) by (simp add: kmemalign_def pad(1) [simplified] Let_def)
      moreover have "2 ^ k dvd ?p" using True by (simp only: mod_eq_0_iff_dvd)
      ultimately show thesis using s free_addr_plain [OF s(2) u] by (intro some [of ?p mp' A' mb n]) auto
    next
      case False
      let ?q = "unat (align_to (of_nat (?p + sizeof_aligned)) (of_nat (2 ^ k)))"
      let ?mp = "mp'\<lparr>ahdr := (ahdr mp')(?q - sizeof_aligned := \<lparr>am_magic = AlignedMemBlockMagic, am_offset = ?q - ?p\<rparr>)\<rparr>"
      have "?p + sizeof_aligned + 2 ^ k \<le> 2 ^ 32" using lim s(5) by linarith
      note al = align_word [OF k this]
      have "(2 :: nat) ^ k \<le> 2 ^ 15" using k by (intro power_increasing) auto
      then have off: "(?q - ?p) mod 2 ^ 16 = ?q - ?p" using al(3) by simp
      have en: "(?p + ?pad) mod 2 ^ 32 = ?p + ?pad" using lim s(5) by (intro mod_less) linarith
      have le: "?q + sz \<le> ?p + ?pad" using al(3) by linarith
      have "int (?p + ?pad) - int ?q = int (?p + ?pad - ?q)" using le by (simp only: of_nat_diff)
      moreover have "?p + ?pad - ?q < 2 ^ 32" using lim s(5) by linarith
      ultimately have "nat ((int (?p + ?pad) - int ?q) mod 2 ^ 32) = ?p + ?pad - ?q"
        by (simp only: nat_mod_distrib) (simp add: nat_mod_distrib)
      then have "\<not> nat ((int (?p + ?pad) - int ?q) mod 2 ^ 32) < sz" using le by linarith
      then have "kmemalign sz (2 ^ k) nowait zero mp = Inr (Some ?q, ?mp)"
        unfolding kmemalign_def Let_def pad(1) s(1) sum.case prod.case option.case en off if_not_P [OF False]
        by (simp only: if_False)
      moreover have "heap_ok ?mp A'"
        using s(2) u by (rule heap_ok_payload) (use al s(5) in linarith)+
      moreover have "free_addr ?mp ?q = ?p" using al(2) by (simp add: free_addr_def Let_def)
      ultimately show thesis
        using s al le by (intro some [of ?q ?mp A' mb n]) auto
    qed
  qed
qed

lemma krealloc_cases:
  assumes ok: "heap_ok mp A" and u: "(mb, n) \<in> used A" and sz: "0 < sz" "sz + 32 \<le> 2 ^ 32"
  obtains (none) "krealloc (mb + sizeof_block) sz nowait zero mp = (if nowait then Inr (None, mp) else Inl (Panic ''memory exhausted''))"
    | (some) mb' n' mp' A' where "krealloc (mb + sizeof_block) sz nowait zero mp = Inr (Some (mb' + sizeof_block), mp')"
      "heap_ok mp' A'" "used A' = insert (mb', n') (used A) - {(mb, n)}" "(mb', n') \<notin> used A"
      "sz \<le> n'" "n \<le> n'" "n' \<le> size_align sz + sizeof_block"
      "\<And>i. i < n \<Longrightarrow> bytes mp' (mb' + sizeof_block + i) = bytes mp (mb + sizeof_block + i)"
      "\<And>x. x < mb' + sizeof_block \<or> mb' + sizeof_block + n' \<le> x \<Longrightarrow> bytes mp' x = bytes mp x"
    | (overrun) "krealloc (mb + sizeof_block) sz nowait zero mp = Inl (Undefined ''memcpy past the new block'')" "sz < n"
proof -
  have o: "arenas_ok (hdr mp) (ahdr mp) (mp_arena mp) A" "mp_magic mp = MB_MAGIC" using ok by (simp_all add: heap_ok_def)
  have h: "hdr mp mb = \<lparr>mb_magic = MB_MAGIC, mb_size = - int n\<rparr>" "0 < n" using used_block [OF o(1) u] by metis+
  show thesis
  proof (rule kmalloc_cases [OF ok sz, of nowait zero])
    assume "kmalloc sz nowait zero mp = (if nowait then Inr (None, mp) else Inl (Panic ''memory exhausted''))"
    then show thesis using h o(2) sz(1) by (intro none) (simp add: krealloc_def)
  next
    fix mb' mp1 A1 n'
    assume s: "kmalloc sz nowait zero mp = Inr (Some (mb' + sizeof_block), mp1)" "heap_ok mp1 A1"
      "used A1 = insert (mb', n') (used A)" "(mb', n') \<notin> used A" "sz \<le> n'" "n' \<le> size_align sz + sizeof_block"
      "\<And>x. bytes mp1 x = (if zero \<and> mb' + sizeof_block \<le> x \<and> x < mb' + sizeof_block + sz then 0 else bytes mp x)"
    have o1: "arenas_ok (hdr mp1) (ahdr mp1) (mp_arena mp1) A1" using s(2) by (simp add: heap_ok_def)
    have u1: "(mb, n) \<in> used A1" "(mb', n') \<in> used A1" using s(3) u by simp_all
    have ne: "(mb, n) \<noteq> (mb', n')" using s(4) u by blast
    note ap = used_apart [OF o1 u1 ne]
    have h1: "hdr mp1 mb = \<lparr>mb_magic = MB_MAGIC, mb_size = - int n\<rparr>" using used_block [OF o1 u1(1)] by metis
    have h2: "hdr mp1 mb' = \<lparr>mb_magic = MB_MAGIC, mb_size = - int n'\<rparr>" using used_block [OF o1 u1(2)] by metis
    show thesis
    proof (cases "n' < n")
      case True
      then have "krealloc (mb + sizeof_block) sz nowait zero mp = Inl (Undefined ''memcpy past the new block'')"
        using s(1) h h1 h2 o(2) sz(1) by (simp add: krealloc_def)
      then show thesis using True s(5) by (intro overrun) auto
    next
      case False
      let ?mp = "copy_bytes (mb' + sizeof_block) (mb + sizeof_block) n mp1"
      have ok1: "heap_ok ?mp A1" using s(2) by (simp add: heap_ok_def copy_bytes_def)
      from kfree_ok [OF ok1 u1(1) free_addr_plain [OF ok1 u1(1)]] obtain mp' A' where
        f: "kfree (mb + sizeof_block) ?mp = Inr mp'" "heap_ok mp' A'" "used A' = used A1 - {(mb, n)}" "bytes mp' = bytes ?mp"
        by blast
      have "krealloc (mb + sizeof_block) sz nowait zero mp = Inr (Some (mb' + sizeof_block), mp')"
        using s(1) h h1 h2 o(2) sz(1) f(1) False by (simp add: krealloc_def)
      moreover have "bytes mp' (mb' + sizeof_block + i) = bytes mp (mb + sizeof_block + i)" if "i < n" for i
        using that ap s(5) by (auto simp: f(4) copy_bytes_def s(7))
      moreover have "bytes mp' x = bytes mp x" if "x < mb' + sizeof_block \<or> mb' + sizeof_block + n' \<le> x" for x
        using that s(5) False by (auto simp: f(4) copy_bytes_def s(7))
      ultimately show thesis using f(2,3) s(3-6) False by (intro some [of mb' mp' A' n']) auto
    qed
  qed
qed

section \<open>Requests near the end of the address space\<close>

lemma join_merged:
  assumes "merged (xs @ (n, False) # ys)" shows "join xs n ys = xs @ (n, False) # ys"
proof -
  have "ys = [] \<or> snd (hd ys)" "xs = [] \<or> snd (last xs)" using assms by (auto simp: merged_append)
  then show ?thesis by (cases "(n, ys)" rule: join_right.cases) (auto simp: join_def)
qed

text \<open>
  For a request of \<open>2^32 - 16\<close> bytes the sum of the request and the header is 0, which every block satisfies.
\<close>

lemma try_allocating_wrap:
  assumes h: "hdrs_ok h a (xs @ (n, False) # ys)" and ok: "tiles_ok (xs @ (n, False) # ys)"
    and b: "extent (xs @ (n, False) # ys) < 2 ^ 31" "a + extent (xs @ (n, False) # ys) < 2 ^ 32" and n: "0 < n"
    and f: "find_entry h 0 (frees a (xs @ (n, False) # ys)) = Inr (Some (a + extent xs))"
  shows "\<exists>h'. try_allocating_in_area (h, frees a (xs @ (n, False) # ys)) (2 ^ 32 - 16) =
           Inr (Some (a + extent xs, Some (a + extent xs)), (h', frees a (xs @ (n, False) # ys))) \<and>
           hdrs_ok h' a (xs @ (n, False) # ys) \<and>
           (\<forall>x. x < a \<or> a + extent (xs @ (n, False) # ys) \<le> x \<longrightarrow> h' x = h x)"
proof -
  let ?mb = "a + extent xs"
  let ?h1 = "h(?mb := \<lparr>mb_magic = MB_MAGIC, mb_size = 16\<rparr>)"
  have hm: "h ?mb = \<lparr>mb_magic = MB_MAGIC, mb_size = int n\<rparr>" using h by simp
  have "(int n - int (2 ^ 32 - 16)) mod 2 ^ 32 = (int (n + 16) + (- 1) * 2 ^ 32) mod 2 ^ 32" by simp
  also have "\<dots> = int (n + 16) mod 2 ^ 32" by (rule mod_mult_self1)
  also have "\<dots> = int (n + 16)" using b(1) by simp
  finally have left: "nat ((int n - int (2 ^ 32 - 16)) mod 2 ^ 32) = n + 16" by simp
  have ti: "to_int32 (- int (2 ^ 32 - 16)) = 16" by (simp add: to_int32_def signed_take_bit_def)
  have nm: "(?mb + (2 ^ 32 - 16) + sizeof_block) mod 2 ^ 32 = ?mb" using b(2) by simp
  have rq: "(2 ^ 32 - 16 + sizeof_block) mod 2 ^ 32 = 0" by simp
  have pre: "hdrs_ok ?h1 a xs" "hdrs_ok ?h1 (?mb + sizeof_block + n) ys" "extent xs + sizeof_block + n + extent ys < 2 ^ 31"
    using h b(1) by simp_all
  have jm: "join xs n ys = xs @ (n, False) # ys" using ok by (intro join_merged) (simp add: tiles_ok_def)
  from add_free_ok [OF pre] obtain h' where
    h': "add_free_memory_block ?mb (n + sizeof_block) (?h1, frees a xs @ frees (?mb + sizeof_block + n) ys) = (h', frees a (xs @ (n, False) # ys))"
      "hdrs_ok h' a (xs @ (n, False) # ys)" "\<forall>x. x < a \<or> ?mb + sizeof_block + n + extent ys \<le> x \<longrightarrow> h' x = ?h1 x"
    unfolding jm by blast
  have "try_allocating_in_area (h, frees a (xs @ (n, False) # ys)) (2 ^ 32 - 16) =
      Inr (Some (?mb, Some ?mb), (h', frees a (xs @ (n, False) # ys)))"
    unfolding try_allocating_in_area_def prod.case rq f sum.case option.case Let_def hm mem_block.simps left ti nm remove1_frees
    using h'(1) n by simp
  moreover have "h' x = h x" if "x < a \<or> a + extent (xs @ (n, False) # ys) \<le> x" for x
    using that h'(3) by auto
  ultimately show ?thesis using h'(2) by blast
qed

section \<open>A pool with one arena\<close>

definition pool1 :: malloc_pool where
  "pool1 = kmalloc_add_arena 4096 1024
     (kmalloc_init (\<lambda>_. \<lparr>mb_magic = 0, mb_size = 0\<rparr>) (\<lambda>_. \<lparr>am_magic = 0, am_offset = 0\<rparr>) (\<lambda>_. 0))"

definition aheap1 :: aheap where
  "aheap1 = [(4128, [(976, False)])]"

lemma pool1_ok: "heap_ok pool1 aheap1"
proof -
  have "heap_ok (kmalloc_init h ah b) []" for h ah b
    by (simp add: heap_ok_def kmalloc_init_def arenas_ok_def rows_apart_def)
  from kmalloc_add_arena_ok [OF this, of 1024 4096] show ?thesis
    by (simp add: pool1_def aheap1_def)
qed

lemma pool1_alloc:
  obtains mb mp A n where "kmalloc 64 False False pool1 = Inr (Some (mb + sizeof_block), mp)" "heap_ok mp A"
    "(mb, n) \<in> used A" "n \<le> 80"
proof (rule kmalloc_cases [OF pool1_ok, of 64 False False])
  have sa: "size_align 64 = 64" by (simp add: size_align_def MB_ALIGNMENT_def align_to_def)
  {
    assume "\<And>a ts n. (a, ts) \<in> set aheap1 \<Longrightarrow> (n, False) \<in> set ts \<Longrightarrow> n < size_align 64 + sizeof_block"
    from this [of 4128 "[(976, False)]" 976] show thesis by (simp add: aheap1_def sa)
  next
    fix mb mp' A' n
    assume "kmalloc 64 False False pool1 = Inr (Some (mb + sizeof_block), mp')" "heap_ok mp' A'"
      "used A' = insert (mb, n) (used aheap1)" "n \<le> size_align 64 + sizeof_block"
    then show thesis using that [of mb mp' A' n] sa by simp
  }
qed simp_all

section \<open>Properties\<close>



text \<open>
  C8: \<open>kfree\<close> of the address of a block in use succeeds, frees exactly that block, merges it with free
  neighbours (the invariant has no two adjacent free blocks), and touches no byte of the callers' data.
\<close>

theorem kfree_refines:
  assumes "heap_ok mp A" and "(mb, n) \<in> used A"
  shows "\<exists>mp' A'. kfree (mb + sizeof_block) mp = Inr mp' \<and> heap_ok mp' A' \<and> used A' = used A - {(mb, n)} \<and>
           rows A' = rows A \<and> bytes mp' = bytes mp"
  using kfree_ok [OF assms free_addr_plain [OF assms]] by metis

theorem kfree_refines_witness:
  "\<exists>mb mp A n. kmalloc 64 False False pool1 = Inr (Some (mb + sizeof_block), mp) \<and> heap_ok mp A \<and> (mb, n) \<in> used A \<and>
     (\<exists>mp' A'. kfree (mb + sizeof_block) mp = Inr mp' \<and> heap_ok mp' A' \<and> used A' = used A - {(mb, n)} \<and>
        rows A' = rows A \<and> bytes mp' = bytes mp)"
proof (rule pool1_alloc)
  fix mb mp A n
  assume a: "kmalloc 64 False False pool1 = Inr (Some (mb + sizeof_block), mp)" "heap_ok mp A" "(mb, n) \<in> used A"
  show ?thesis
    by (rule exI [of _ mb], rule exI [of _ mp], rule exI [of _ A], rule exI [of _ n]) (intro conjI a kfree_refines)
qed

text \<open>
  C9: a pointer \<open>kmemalign\<close> returns for an alignment \<open>2^k\<close> below \<open>2^16\<close> is a multiple of the
  alignment, has room for \<open>sz\<close> bytes in one block in use, and \<open>kfree\<close> of that pointer frees exactly this block;
  its assertion on the room never fails.
\<close>

theorem kmemalign_roundtrip:
  assumes "heap_ok mp A" and "k < 16" and "sz + 2 ^ k + 36 \<le> 2 ^ 32"
  shows "kmemalign sz (2 ^ k) nowait zero mp = (if nowait then Inr (None, mp) else Inl (Panic ''memory exhausted'')) \<or>
         (\<exists>q mb n mp' A'. kmemalign sz (2 ^ k) nowait zero mp = Inr (Some q, mp') \<and> heap_ok mp' A' \<and>
            used A' = insert (mb, n) (used A) \<and> 2 ^ k dvd q \<and> mb + sizeof_block \<le> q \<and> q + sz \<le> mb + sizeof_block + n \<and>
            (\<exists>mp'' A''. kfree q mp' = Inr mp'' \<and> heap_ok mp'' A'' \<and> used A'' = used A))"
proof (rule kmemalign_cases [OF assms, of nowait zero])
  fix q mb n mp' A'
  assume s: "kmemalign sz (2 ^ k) nowait zero mp = Inr (Some q, mp')" "heap_ok mp' A'"
    "used A' = insert (mb, n) (used A)" "(mb, n) \<notin> used A" "2 ^ k dvd q" "mb + sizeof_block \<le> q"
    "q + sz \<le> mb + sizeof_block + n" "free_addr mp' q = mb + sizeof_block"
  have "(mb, n) \<in> used A'" using s(3) by simp
  from kfree_ok [OF s(2) this s(8)] obtain mp'' A'' where
    "kfree q mp' = Inr mp''" "heap_ok mp'' A''" "used A'' = used A' - {(mb, n)}" by blast
  moreover have "used A' - {(mb, n)} = used A" using s(3,4) by blast
  ultimately show ?thesis using s by auto
qed blast

theorem kmemalign_roundtrip_witness:
  "kmemalign 100 (2 ^ 7) True False pool1 = (if True then Inr (None, pool1) else Inl (Panic ''memory exhausted'')) \<or>
   (\<exists>q mb n mp' A'. kmemalign 100 (2 ^ 7) True False pool1 = Inr (Some q, mp') \<and> heap_ok mp' A' \<and>
      used A' = insert (mb, n) (used aheap1) \<and> 2 ^ 7 dvd q \<and> mb + sizeof_block \<le> q \<and> q + 100 \<le> mb + sizeof_block + n \<and>
      (\<exists>mp'' A''. kfree q mp' = Inr mp'' \<and> heap_ok mp'' A'' \<and> used A'' = used aheap1))"
  by (rule kmemalign_roundtrip [OF pool1_ok]) simp_all



text \<open>
  C11: the size check of \<open>kmalloc\<close> wraps around. A request of \<open>2^32 - 16\<close> bytes on a pool whose first arena has a
  free block returns the data of that block although it is smaller, and leaves the block on the free list: the
  pool still implements the heap in which nothing was allocated, so a later request can get the same memory.
\<close>

theorem kmalloc_wraps:
  assumes "heap_ok mp ((a, ts) # A)" and "(n, False) \<in> set ts" and "\<forall>(m, u) \<in> set ts. 0 < m"
  shows "\<exists>mb mp'. kmalloc (2 ^ 32 - 16) nowait False mp = Inr (Some (mb + sizeof_block), mp') \<and>
           heap_ok mp' ((a, ts) # A) \<and> mb \<in> set (ma_freeblks (hd (mp_arena mp')))"
proof -
  from assms(1) obtain ma mas where ma: "mp_arena mp = ma # mas" "a = arena_base ma" "arena_ok (hdr mp) (ahdr mp) ma ts"
    "arenas_ok (hdr mp) (ahdr mp) mas A" and mg: "mp_magic mp = MB_MAGIC"
    and ap: "\<forall>(b, us) \<in> set A. a + extent ts + sizeof_arena \<le> b \<or> b + extent us + sizeof_arena \<le> a"
    by (cases "mp_arena mp") (auto simp: heap_ok_def arenas_ok_Cons, auto simp: arenas_ok_def)
  note o = ma(3) [unfolded arena_ok_def, folded ma(2)]
  have fl: "ma_freeblks ma = frees a ts" and ext: "extent ts = ma_size ma" and mm: "ma_magic ma = MB_MAGIC" using o by blast+
  have pre: "hdrs_ok (hdr mp) a ts" "extent ts < 2 ^ 31" using o by auto
  from find_entry_cases [OF pre, of 0] assms(2) obtain xs k ys where
    f: "find_entry (hdr mp) 0 (frees a ts) = Inr (Some (a + extent xs))" "ts = xs @ (k, False) # ys"
    by (metis less_nat_zero_code)
  have "tiles_ok ts" "a + extent ts < 2 ^ 32" "0 < k" using o assms(3) f(2) by auto
  with try_allocating_wrap [of "hdr mp" a xs k ys] pre f obtain h' where
    t: "try_allocating_in_area (hdr mp, frees a ts) (2 ^ 32 - 16) = Inr (Some (a + extent xs, Some (a + extent xs)), (h', frees a ts))"
      "hdrs_ok h' a ts" "\<forall>x. x < a \<or> a + extent ts \<le> x \<longrightarrow> h' x = hdr mp x" by auto
  let ?mb = "a + extent xs"
  let ?ah = "clear_opt (Some ?mb) (ahdr mp)"
  let ?mp = "mp\<lparr>hdr := h', ahdr := ?ah\<rparr>"
  have sa: "size_align (2 ^ 32 - 16) = 2 ^ 32 - 16"
    using unat_align_to [of 3 "of_nat (2 ^ 32 - 16)"] by (simp add: size_align_def MB_ALIGNMENT_def unat_of_nat)
  have "alloc_arenas (hdr mp) (2 ^ 32 - 16) (mp_arena mp) = Inr (Some (?mb, Some ?mb), h', mp_arena mp)"
    using t(1) mm by (simp add: ma(1) fl [symmetric])
  then have "kmalloc (2 ^ 32 - 16) nowait False mp = Inr (Some (?mb + sizeof_block), ?mp)"
    unfolding kmalloc_def sa by (simp add: clear_aligned_def clear_opt_def Let_def)
  moreover have "arena_ok h' ?ah ma ts"
    using o t(2) plain_clear_opt [of "ahdr mp" a ts] by (simp add: arena_ok_def ma(2) [symmetric])
  moreover have "arenas_ok h' ?ah mas A"
    using ma(4)
  proof (rule arenas_ok_frame)
    fix x b us assume x: "(b, us) \<in> set A" "b \<le> x" "x < b + extent us"
    have "h' x = hdr mp x" using t(3) ap x by fastforce
    then show "h' x = hdr mp x \<and> (?ah x = ahdr mp x \<or> am_magic (?ah x) \<noteq> AlignedMemBlockMagic)"
      using clear_opt_magic by blast
  qed
  ultimately have "kmalloc (2 ^ 32 - 16) nowait False mp = Inr (Some (?mb + sizeof_block), ?mp)" "heap_ok ?mp ((a, ts) # A)"
    using ap mg ma(1,2) by (auto simp: heap_ok_def arenas_ok_Cons)
  moreover have "?mb \<in> set (ma_freeblks (hd (mp_arena ?mp)))" using ma(1) fl f(2) by simp
  ultimately show ?thesis by blast
qed

theorem kmalloc_wraps_witness:
  "\<exists>mb mp'. kmalloc (2 ^ 32 - 16) False False pool1 = Inr (Some (mb + sizeof_block), mp') \<and>
     heap_ok mp' ((4128, [(976, False)]) # []) \<and> mb \<in> set (ma_freeblks (hd (mp_arena mp')))"
  by (rule kmalloc_wraps [where n = 976]) (use pool1_ok in \<open>simp_all add: aheap1_def\<close>)

end
