(* ===== verification/Hash_Map.thy ===== *)
theory Hash_Map
  imports Crc32
begin

text \<open>
  The kernel's string-keyed hash map, src/kernel/lib/primitives/hashmap.c, and the class template
  around it in hashmap.h. A slot that is not in use is \<open>None\<close>. Keys are the bytes before the terminating
  zero, so that \<open>strcmp\<close> is equality. Whether \<open>calloc\<close> can serve \<open>n\<close> elements is a parameter \<open>mem\<close>.
\<close>

section \<open>State\<close>

definition INITIAL_SIZE :: nat where
  "INITIAL_SIZE = 256"

definition MAX_CHAIN_LENGTH :: nat where
  "MAX_CHAIN_LENGTH = 8"

datatype map_status = MAP_OK | MAP_OMEM | MAP_MISSING

type_synonym hkey = "u8 list"

record 'v hashmap_map =
  table_size :: nat
  hm_size :: int
  hm_data :: "(hkey \<times> 'v) option list"

definition hashmap_new :: "(nat \<Rightarrow> bool) \<Rightarrow> bool \<Rightarrow> 'v hashmap_map option" where
  "hashmap_new mem m_ok =
     (if \<not> m_ok then None
      else if \<not> mem INITIAL_SIZE then None
      else Some \<lparr>table_size = INITIAL_SIZE, hm_size = 0, hm_data = replicate INITIAL_SIZE None\<rparr>)"

section \<open>Hashing and probing\<close>

definition hash_mix :: "u32 \<Rightarrow> u32" where
  "hash_mix key0 =
     (let k1 = key0 + push_bit 12 key0;
          k2 = k1 XOR drop_bit 22 k1;
          k3 = k2 + push_bit 4 k2;
          k4 = k3 XOR drop_bit 9 k3;
          k5 = k4 + push_bit 10 k4;
          k6 = k5 XOR drop_bit 2 k5;
          k7 = k6 + push_bit 7 k6;
          k8 = k7 XOR drop_bit 12 k7
      in drop_bit 3 k8 * 2654435761)"

definition hashmap_hash_int :: "nat \<Rightarrow> hkey \<Rightarrow> nat" where
  "hashmap_hash_int tsize keystring = unat (hash_mix (crc32 keystring)) mod tsize"

text \<open>The probing loops of \<open>hashmap_hash\<close> and of \<open>hashmap_get\<close>/\<open>hashmap_remove\<close>; \<open>n\<close> slots are left to look at.\<close>

fun probe_slot :: "nat \<Rightarrow> 'v hashmap_map \<Rightarrow> hkey \<Rightarrow> nat \<Rightarrow> nat option" where
  "probe_slot 0 m key cur = None"
| "probe_slot (Suc n) m key cur =
     (case hm_data m ! cur of
        None \<Rightarrow> Some cur
      | Some (k, _) \<Rightarrow> if k = key then Some cur else probe_slot n m key ((cur + 1) mod table_size m))"

fun probe_key :: "nat \<Rightarrow> 'v hashmap_map \<Rightarrow> hkey \<Rightarrow> nat \<Rightarrow> nat option" where
  "probe_key 0 m key cur = None"
| "probe_key (Suc n) m key cur =
     (case hm_data m ! cur of
        None \<Rightarrow> probe_key n m key ((cur + 1) mod table_size m)
      | Some (k, _) \<Rightarrow> if k = key then Some cur else probe_key n m key ((cur + 1) mod table_size m))"

text \<open>\<open>None\<close> is \<open>MAP_FULL\<close>.\<close>

definition hashmap_hash :: "'v hashmap_map \<Rightarrow> hkey \<Rightarrow> nat option" where
  "hashmap_hash m key =
     (if int (table_size m div 2) \<le> hm_size m then None
      else probe_slot MAX_CHAIN_LENGTH m key (hashmap_hash_int (table_size m) key))"

section \<open>Operations\<close>

definition hm_store :: "nat \<Rightarrow> hkey \<Rightarrow> 'v \<Rightarrow> 'v hashmap_map \<Rightarrow> 'v hashmap_map" where
  "hm_store i key v m = m\<lparr>hm_data := (hm_data m)[i := Some (key, v)], hm_size := hm_size m + 1\<rparr>"

text \<open>
  \<open>hashmap_put\<close> and \<open>hashmap_rehash\<close> call each other; the number bounds the depth of the calls and the
  turns of the \<open>while\<close> loop. \<open>None\<close>: the bound was too small.
\<close>

fun hashmap_put :: "(nat \<Rightarrow> bool) \<Rightarrow> nat \<Rightarrow> hkey \<Rightarrow> 'v \<Rightarrow> 'v hashmap_map \<Rightarrow> (map_status \<times> 'v hashmap_map) option"
and hashmap_rehash :: "(nat \<Rightarrow> bool) \<Rightarrow> nat \<Rightarrow> 'v hashmap_map \<Rightarrow> (map_status \<times> 'v hashmap_map) option"
and rehash_loop :: "(nat \<Rightarrow> bool) \<Rightarrow> nat \<Rightarrow> (hkey \<times> 'v) option list \<Rightarrow> 'v hashmap_map \<Rightarrow>
      (map_status \<times> 'v hashmap_map) option" where
  "hashmap_put mem 0 key v m = None"
| "hashmap_put mem (Suc f) key v m =
     (case hashmap_hash m key of
        Some i \<Rightarrow> Some (MAP_OK, hm_store i key v m)
      | None \<Rightarrow>
          (case hashmap_rehash mem f m of
             None \<Rightarrow> None
           | Some (st, m1) \<Rightarrow> if st = MAP_OMEM then Some (MAP_OMEM, m1) else hashmap_put mem f key v m1))"
| "hashmap_rehash mem 0 m = None"
| "hashmap_rehash mem (Suc f) m =
     (if \<not> mem (2 * table_size m) then Some (MAP_OMEM, m)
      else rehash_loop mem f (hm_data m)
             \<lparr>table_size = 2 * table_size m, hm_size = 0, hm_data = replicate (2 * table_size m) None\<rparr>)"
| "rehash_loop mem f [] m = Some (MAP_OK, m)"
| "rehash_loop mem f (e # es) m =
     (case e of
        None \<Rightarrow> rehash_loop mem f es m
      | Some (k, v) \<Rightarrow>
          (case hashmap_put mem f k v m of
             None \<Rightarrow> None
           | Some (st, m1) \<Rightarrow> if st \<noteq> MAP_OK then Some (st, m1) else rehash_loop mem f es m1))"

declare hashmap_put.simps [simp del] hashmap_rehash.simps [simp del] rehash_loop.simps [simp del]

definition hashmap_get :: "'v hashmap_map \<Rightarrow> hkey \<Rightarrow> 'v option" where
  "hashmap_get m key =
     (case probe_key MAX_CHAIN_LENGTH m key (hashmap_hash_int (table_size m) key) of
        None \<Rightarrow> None
      | Some i \<Rightarrow> map_option snd (hm_data m ! i))"

definition hashmap_remove :: "hkey \<Rightarrow> 'v hashmap_map \<Rightarrow> map_status \<times> 'v hashmap_map" where
  "hashmap_remove key m =
     (case probe_key MAX_CHAIN_LENGTH m key (hashmap_hash_int (table_size m) key) of
        None \<Rightarrow> (MAP_MISSING, m)
      | Some i \<Rightarrow> (MAP_OK, m\<lparr>hm_data := (hm_data m)[i := None], hm_size := hm_size m - 1\<rparr>))"

definition hashmap_length :: "'v hashmap_map \<Rightarrow> int" where
  "hashmap_length m = hm_size m"

fun iterate_slots :: "('s \<Rightarrow> hkey \<Rightarrow> 'v \<Rightarrow> map_status \<times> 's) \<Rightarrow> (hkey \<times> 'v) option list \<Rightarrow> 's \<Rightarrow> map_status \<times> 's" where
  "iterate_slots f [] s = (MAP_OK, s)"
| "iterate_slots f (e # es) s =
     (case e of
        None \<Rightarrow> iterate_slots f es s
      | Some (k, v) \<Rightarrow>
          (case f s k v of (st, s1) \<Rightarrow> if st \<noteq> MAP_OK then (st, s1) else iterate_slots f es s1))"

definition hashmap_iterate ::
  "'v hashmap_map \<Rightarrow> ('s \<Rightarrow> hkey \<Rightarrow> 'v \<Rightarrow> map_status \<times> 's) \<Rightarrow> 's \<Rightarrow> map_status \<times> 's" where
  "hashmap_iterate m f item =
     (if hashmap_length m \<le> 0 then (MAP_MISSING, item) else iterate_slots f (hm_data m) item)"

section \<open>The class template\<close>

text \<open>
  \<open>%08x\<close> of a 32-bit key, and a string key cut by \<open>strncpy\<close> to 31 bytes: a key of 31 bytes or more is not
  terminated.
\<close>

definition MAX_KEY_SIZE :: nat where
  "MAX_KEY_SIZE = 32"

definition hex_digit :: "u32 \<Rightarrow> u8" where
  "hex_digit d = (if d < 10 then 0x30 + ucast d else 0x57 + ucast d)"

definition int_key :: "u32 \<Rightarrow> hkey" where
  "int_key x = map (\<lambda>i. hex_digit (drop_bit (4 * i) x AND 0xf)) [7, 6, 5, 4, 3, 2, 1, 0]"

definition string_key :: "hkey \<Rightarrow> hkey result" where
  "string_key key = (if length key < MAX_KEY_SIZE - 1 then Inr key else Inl (Undefined ''unterminated key''))"

definition HashMap_put ::
  "(nat \<Rightarrow> bool) \<Rightarrow> bool \<Rightarrow> nat \<Rightarrow> hkey \<Rightarrow> 'v \<Rightarrow> 'v hashmap_map \<Rightarrow> (bool \<times> 'v hashmap_map) option" where
  "HashMap_put mem new_ok f key v m =
     (if \<not> new_ok then Some (False, m)
      else map_option (\<lambda>(st, m1). (True, m1)) (hashmap_put mem f key v m))"

definition HashMap_remove :: "hkey \<Rightarrow> 'v hashmap_map \<Rightarrow> bool \<times> 'v hashmap_map" where
  "HashMap_remove key m =
     (if hashmap_get m key = None then (False, m)
      else case hashmap_remove key m of (st, m1) \<Rightarrow> (st = MAP_OK, m1))"

definition HashMap_clear :: "'v hashmap_map \<Rightarrow> 'v hashmap_map" where
  "HashMap_clear m =
     fold (\<lambda>k m. snd (HashMap_remove k m)) (snd (hashmap_iterate m (\<lambda>ks k v. (MAP_OK, ks @ [k])) [])) m"

end
