(* ===== verification/Key_Map.thy ===== *)
theory Key_Map
  imports Gz_Prelude
begin

text \<open>
  The contract of a key-value map as the ARP cache, the socket tables and the system call table use it. An
  insertion can fail for lack of memory. The well-formedness of the map is only promised to survive
  the insertion of a key that is not there yet.
\<close>

locale key_map =
  fixes insert :: "'k \<Rightarrow> 'v \<Rightarrow> 'm \<Rightarrow> 'm option"
    and delete :: "'k \<Rightarrow> 'm \<Rightarrow> 'm"
    and lookup :: "'m \<Rightarrow> 'k \<Rightarrow> 'v option"
    and invar :: "'m \<Rightarrow> bool"
  assumes insert_lookup: "invar m \<Longrightarrow> insert k v m = Some m' \<Longrightarrow> lookup m' = (lookup m)(k \<mapsto> v)"
    and insert_invar: "invar m \<Longrightarrow> insert k v m = Some m' \<Longrightarrow> lookup m k = None \<Longrightarrow> invar m'"
    and delete_lookup: "invar m \<Longrightarrow> lookup (delete k m) = (lookup m)(k := None)"
    and delete_invar: "invar m \<Longrightarrow> invar (delete k m)"
begin

text \<open>Filling a map from a list of entries with distinct keys.\<close>

fun insert_all :: "('k \<times> 'v) list \<Rightarrow> 'm \<Rightarrow> 'm option" where
  "insert_all [] m = Some m"
| "insert_all ((k, v) # es) m = (case insert k v m of None \<Rightarrow> None | Some m' \<Rightarrow> insert_all es m')"

lemma insert_all_ok:
  "invar m \<Longrightarrow> distinct (map fst es) \<Longrightarrow> (\<And>k. k \<in> fst ` set es \<Longrightarrow> lookup m k = None) \<Longrightarrow>
     insert_all es m = Some m' \<Longrightarrow> invar m' \<and> lookup m' = lookup m ++ map_of es"
proof (induction es arbitrary: m)
  case (Cons e es)
  obtain k v where e: "e = (k, v)" by fastforce
  from Cons.prems(4) e obtain m1 where m1: "insert k v m = Some m1" "insert_all es m1 = Some m'"
    by (auto split: option.splits)
  have fresh: "lookup m k = None" using Cons.prems(3) [of k] e by simp
  have l1: "lookup m1 = (lookup m)(k \<mapsto> v)" using Cons.prems(1) m1(1) by (rule insert_lookup)
  have "invar m1" using Cons.prems(1) m1(1) fresh by (rule insert_invar)
  moreover have "lookup m1 k' = None" if "k' \<in> fst ` set es" for k'
    using that Cons.prems(2) Cons.prems(3) [of k'] e by (auto simp: l1)
  ultimately have "invar m' \<and> lookup m' = lookup m1 ++ map_of es"
    using Cons.IH [OF _ _ _ m1(2)] Cons.prems(2) by auto
  moreover have "map_of es k = None" using Cons.prems(2) e by (simp add: map_of_eq_None_iff)
  ultimately show ?case by (auto simp: l1 e map_add_def split: option.splits)
qed simp

lemma delete_all_ok:
  "invar m \<Longrightarrow> invar (fold delete ks m) \<and> lookup (fold delete ks m) = (\<lambda>k. if k \<in> set ks then None else lookup m k)"
  by (induction ks arbitrary: m) (auto simp: delete_invar delete_lookup)

end

end
