(* ===== verification/Hash_Map_Props.thy ===== *)
theory Hash_Map_Props
  imports Hash_Map Key_Map
begin

text \<open>
  The hash map as a map from keys to values: \<open>hashmap_get\<close> is the abstraction, and \<open>hm_ok\<close> is the
  invariant (every key sits within eight slots of its hash, and in one slot only).
\<close>

section \<open>Chains\<close>

definition has_key :: "'v hashmap_map \<Rightarrow> hkey \<Rightarrow> nat \<Rightarrow> bool" where
  "has_key m key i \<longleftrightarrow> (\<exists>v. hm_data m ! i = Some (key, v))"

definition chain_from :: "nat \<Rightarrow> nat \<Rightarrow> nat \<Rightarrow> nat list" where
  "chain_from n ts c = map (\<lambda>d. (c + d) mod ts) [0..<n]"

abbreviation chain_of :: "'v hashmap_map \<Rightarrow> hkey \<Rightarrow> nat list" where
  "chain_of m key \<equiv> chain_from MAX_CHAIN_LENGTH (table_size m) (hashmap_hash_int (table_size m) key)"

lemma chain_from_Suc:
  assumes "c < ts" shows "chain_from (Suc n) ts c = c # chain_from n ts ((c + 1) mod ts)"
proof -
  have "(c + Suc d) mod ts = ((c + 1) mod ts + d) mod ts" for d by (simp add: mod_simps)
  then show ?thesis
    using assms by (simp add: chain_from_def upt_conv_Cons map_Suc_upt [symmetric] del: upt_Suc)
qed

lemma chain_from_0 [simp]: "chain_from 0 ts c = []"
  by (simp add: chain_from_def)

lemma chain_less: "0 < ts \<Longrightarrow> i \<in> set (chain_from n ts c) \<Longrightarrow> i < ts"
  by (auto simp: chain_from_def)

lemma probe_key_find:
  "c < table_size m \<Longrightarrow> probe_key n m key c = find (has_key m key) (chain_from n (table_size m) c)"
proof (induction n arbitrary: c)
  case (Suc n)
  have "(c + 1) mod table_size m < table_size m" using Suc.prems by simp
  from Suc.IH [OF this] show ?case
    by (auto simp: chain_from_Suc [OF Suc.prems] has_key_def split: option.splits)
qed simp

lemma probe_slot_find:
  "c < table_size m \<Longrightarrow> probe_slot n m key c =
     find (\<lambda>i. hm_data m ! i = None \<or> has_key m key i) (chain_from n (table_size m) c)"
proof (induction n arbitrary: c)
  case (Suc n)
  have "(c + 1) mod table_size m < table_size m" using Suc.prems by simp
  from Suc.IH [OF this] show ?case
    by (auto simp: chain_from_Suc [OF Suc.prems] has_key_def split: option.splits)
qed simp

section \<open>The invariant\<close>

definition hm_wf :: "'v hashmap_map \<Rightarrow> bool" where
  "hm_wf m \<longleftrightarrow> length (hm_data m) = table_size m \<and> 0 < table_size m"

definition hm_ok :: "'v hashmap_map \<Rightarrow> bool" where
  "hm_ok m \<longleftrightarrow>
     hm_wf m \<and>
     (\<forall>k. \<forall>i < table_size m. has_key m k i \<longrightarrow> i \<in> set (chain_of m k)) \<and>
     (\<forall>k. \<forall>i < table_size m. \<forall>j < table_size m. has_key m k i \<longrightarrow> has_key m k j \<longrightarrow> i = j)"

lemma hash_less: "hm_wf m \<Longrightarrow> hashmap_hash_int (table_size m) key < table_size m"
  by (simp add: hm_wf_def hashmap_hash_int_def)

lemma hashmap_get_find:
  "hm_wf m \<Longrightarrow> hashmap_get m key =
     (case find (has_key m key) (chain_of m key) of None \<Rightarrow> None | Some i \<Rightarrow> map_option snd (hm_data m ! i))"
  by (simp add: hashmap_get_def probe_key_find [OF hash_less])

lemma hashmap_get_cong:
  assumes "hm_wf m" "hm_wf m'" "table_size m' = table_size m" "has_key m' k = has_key m k"
    and "\<And>j. has_key m k j \<Longrightarrow> hm_data m' ! j = hm_data m ! j"
  shows "hashmap_get m' k = hashmap_get m k"
proof (cases "find (has_key m k) (chain_of m k)")
  case None
  with assms show ?thesis by (simp add: hashmap_get_find)
next
  case (Some i)
  then have "has_key m k i" by (auto simp: find_Some_iff)
  with assms Some show ?thesis by (simp add: hashmap_get_find)
qed

lemma find_weaken:
  assumes "find P xs = Some i" "\<And>j. \<not> P j \<Longrightarrow> \<not> Q j" "Q i" shows "find Q xs = Some i"
  using assms by (induction xs) (auto split: if_splits)

lemma get_NoneD:
  assumes "hm_ok m" "hashmap_get m k = None" "i < table_size m" shows "\<not> has_key m k i"
proof
  assume k: "has_key m k i"
  have wf: "hm_wf m" using assms(1) by (simp add: hm_ok_def)
  have "find (has_key m k) (chain_of m k) = None"
    using assms(2) wf by (auto simp: hashmap_get_find has_key_def find_Some_iff split: option.splits)
  moreover have "i \<in> set (chain_of m k)" using assms(1,3) k by (simp add: hm_ok_def)
  ultimately show False using k by (simp add: find_None_iff)
qed

section \<open>Storing and removing\<close>

lemma hm_store_fields [simp]:
  "table_size (hm_store i k v m) = table_size m" "hm_wf (hm_store i k v m) = hm_wf m"
  by (simp_all add: hm_store_def hm_wf_def)

lemma has_key_store:
  "i < length (hm_data m) \<Longrightarrow> has_key (hm_store i k v m) k' j = (if i = j then k' = k else has_key m k' j)"
  by (auto simp: has_key_def hm_store_def)

lemma hashmap_hash_slot:
  assumes "hm_wf m" "hashmap_hash m k = Some i"
  shows "find (\<lambda>i. hm_data m ! i = None \<or> has_key m k i) (chain_of m k) = Some i"
    and "i < table_size m" and "i \<in> set (chain_of m k)" and "hm_data m ! i = None \<or> has_key m k i"
proof -
  show f: "find (\<lambda>i. hm_data m ! i = None \<or> has_key m k i) (chain_of m k) = Some i"
    using assms by (simp add: hashmap_hash_def probe_slot_find [OF hash_less] split: if_splits)
  show c: "i \<in> set (chain_of m k)" and "hm_data m ! i = None \<or> has_key m k i"
    using f by (auto simp: find_Some_iff)
  from c assms(1) show "i < table_size m" by (auto simp: hm_wf_def intro: chain_less)
qed

lemma get_store:
  assumes wf: "hm_wf m" and h: "hashmap_hash m k = Some i"
  shows "hashmap_get (hm_store i k v m) = (hashmap_get m)(k \<mapsto> v)"
proof
  fix k'
  let ?m = "hm_store i k v m"
  note s = hashmap_hash_slot [OF wf h]
  have i: "i < length (hm_data m)" using s(2) wf by (simp add: hm_wf_def)
  have wf': "hm_wf ?m" using wf by simp
  show "hashmap_get ?m k' = ((hashmap_get m)(k \<mapsto> v)) k'"
  proof (cases "k' = k")
    case True
    have "find (has_key ?m k) (chain_of m k) = Some i"
      by (rule find_weaken [OF s(1)]) (use s(4) i in \<open>auto simp: has_key_store\<close>)
    moreover have "hm_data ?m ! i = Some (k, v)" using i by (simp add: hm_store_def)
    ultimately show ?thesis using True by (simp add: hashmap_get_find [OF wf'])
  next
    case False
    have ni: "\<not> has_key m k' i" using False s(4) by (auto simp: has_key_def)
    then have "has_key ?m k' = has_key m k'" using False i by (auto simp: has_key_store fun_eq_iff)
    moreover have "hm_data ?m ! j = hm_data m ! j" if "has_key m k' j" for j
      using that ni by (auto simp: hm_store_def)
    ultimately show ?thesis using False hashmap_get_cong [OF wf wf'] by simp
  qed
qed

lemma ok_store:
  assumes ok: "hm_ok m" and h: "hashmap_hash m k = Some i" and fresh: "hashmap_get m k = None"
  shows "hm_ok (hm_store i k v m)"
proof -
  have wf: "hm_wf m" using ok by (simp add: hm_ok_def)
  note s = hashmap_hash_slot [OF wf h]
  have i: "i < length (hm_data m)" using s(2) wf by (simp add: hm_wf_def)
  show ?thesis
    using ok s(3) get_NoneD [OF ok fresh] by (auto simp: hm_ok_def has_key_store [OF i])
qed

lemma hashmap_remove_cases:
  assumes wf: "hm_wf m"
  obtains (missing) "hashmap_remove k m = (MAP_MISSING, m)" "hashmap_get m k = None"
    | (found) i where "hashmap_remove k m = (MAP_OK, m\<lparr>hm_data := (hm_data m)[i := None], hm_size := hm_size m - 1\<rparr>)"
      "i < table_size m" "has_key m k i" "hashmap_get m k \<noteq> None"
proof (cases "find (has_key m k) (chain_of m k)")
  case None
  with wf show thesis by (intro missing) (simp_all add: hashmap_remove_def probe_key_find [OF hash_less] hashmap_get_find)
next
  case (Some i)
  then have i: "i \<in> set (chain_of m k)" "has_key m k i" by (auto simp: find_Some_iff)
  have "i < table_size m" using i(1) wf by (auto simp: hm_wf_def intro: chain_less)
  with Some i wf show thesis
    by (intro found [of i])
      (auto simp: hashmap_remove_def probe_key_find [OF hash_less] hashmap_get_find has_key_def)
qed

lemma remove_ok:
  assumes ok: "hm_ok m" and r: "hashmap_remove k m = (st, m')"
  shows "hm_ok m'" and "hashmap_get m' = (hashmap_get m)(k := None)" and "table_size m' = table_size m"
proof -
  have wf: "hm_wf m" using ok by (simp add: hm_ok_def)
  have "hm_ok m' \<and> hashmap_get m' = (hashmap_get m)(k := None) \<and> table_size m' = table_size m"
  proof (rule hashmap_remove_cases [OF wf, of k])
    assume "hashmap_remove k m = (MAP_MISSING, m)" "hashmap_get m k = None"
    with ok r show ?thesis by auto
  next
    fix i
    assume f: "hashmap_remove k m = (MAP_OK, m\<lparr>hm_data := (hm_data m)[i := None], hm_size := hm_size m - 1\<rparr>)"
      "i < table_size m" "has_key m k i"
    let ?m = "m\<lparr>hm_data := (hm_data m)[i := None], hm_size := hm_size m - 1\<rparr>"
    have i: "i < length (hm_data m)" using f(2) wf by (simp add: hm_wf_def)
    have hk: "has_key ?m k' j = (j \<noteq> i \<and> has_key m k' j)" for k' j
      using i by (auto simp: has_key_def)
    have ok': "hm_ok ?m" using ok unfolding hm_ok_def by (auto simp: hk hm_wf_def)
    then have wf': "hm_wf ?m" by (simp add: hm_ok_def)
    have "hashmap_get ?m k' = ((hashmap_get m)(k := None)) k'" for k'
    proof (cases "k' = k")
      case True
      have "\<not> has_key ?m k j" if "j \<in> set (chain_of m k)" for j
      proof -
        have "j < table_size m" using that wf by (auto simp: hm_wf_def intro: chain_less)
        then show ?thesis using ok f(2,3) by (auto simp: hk hm_ok_def)
      qed
      then have "find (has_key ?m k) (chain_of m k) = None" by (simp add: find_None_iff)
      with True show ?thesis by (simp add: hashmap_get_find [OF wf'])
    next
      case False
      have eq: "has_key ?m k' = has_key m k'" using False f(3) by (auto simp: hk has_key_def fun_eq_iff)
      moreover have "hm_data ?m ! j = hm_data m ! j" if "has_key m k' j" for j
        using that False f(3) by (auto simp: has_key_def)
      ultimately show ?thesis using False hashmap_get_cong [OF wf wf'] by simp
    qed
    with ok' f(1) r show ?thesis by auto
  qed
  then show "hm_ok m'" and "hashmap_get m' = (hashmap_get m)(k := None)" and "table_size m' = table_size m" by auto
qed

section \<open>Growing the table\<close>

definition entries :: "(hkey \<times> 'v) option list \<Rightarrow> (hkey \<times> 'v) list" where
  "entries es = map the (filter (\<lambda>e. e \<noteq> None) es)"

lemma entries_simps [simp]:
  "entries [] = []" "entries (None # es) = entries es" "entries (Some kv # es) = kv # entries es"
  by (simp_all add: entries_def)

lemma set_entries: "kv \<in> set (entries es) \<longleftrightarrow> (\<exists>i < length es. es ! i = Some kv)"
  by (force simp: entries_def in_set_conv_nth [of _ es, symmetric])

lemma distinct_entries:
  assumes "\<And>i j k v v'. i < length es \<Longrightarrow> j < length es \<Longrightarrow> es ! i = Some (k, v) \<Longrightarrow> es ! j = Some (k, v') \<Longrightarrow> i = j"
  shows "distinct (map fst (entries es))"
  using assms
proof (induction es)
  case (Cons e es)
  have IH: "distinct (map fst (entries es))"
  proof (rule Cons.IH)
    fix i j k v v' assume "i < length es" "j < length es" "es ! i = Some (k, v)" "es ! j = Some (k, v')"
    with Cons.prems [of "Suc i" "Suc j" k v v'] show "i = j" by simp
  qed
  show ?case
  proof (cases e)
    case (Some kv)
    obtain k v where kv: "kv = (k, v)" by fastforce
    have "(k, v') \<notin> set (entries es)" for v'
    proof
      assume "(k, v') \<in> set (entries es)"
      then obtain j where "j < length es" "es ! j = Some (k, v')" by (auto simp: set_entries)
      with Cons.prems [of 0 "Suc j" k v v'] Some kv show False by simp
    qed
    with IH Some kv show ?thesis by auto
  qed (use IH in simp)
qed simp

lemma get_Some_iff:
  assumes ok: "hm_ok m"
  shows "hashmap_get m k = Some v \<longleftrightarrow> (\<exists>i < table_size m. hm_data m ! i = Some (k, v))"
proof
  have wf: "hm_wf m" using ok by (simp add: hm_ok_def)
  assume "hashmap_get m k = Some v"
  then obtain i where "find (has_key m k) (chain_of m k) = Some i" "map_option snd (hm_data m ! i) = Some v"
    using wf by (auto simp: hashmap_get_find split: option.splits)
  moreover from this have "i \<in> set (chain_of m k)" "has_key m k i" by (auto simp: find_Some_iff)
  moreover from this(1) wf have "i < table_size m" by (auto simp: hm_wf_def intro: chain_less)
  ultimately show "\<exists>i < table_size m. hm_data m ! i = Some (k, v)" by (auto simp: has_key_def)
next
  have wf: "hm_wf m" using ok by (simp add: hm_ok_def)
  assume "\<exists>i < table_size m. hm_data m ! i = Some (k, v)"
  then obtain i where i: "i < table_size m" "hm_data m ! i = Some (k, v)" by blast
  then have "has_key m k i" by (simp add: has_key_def)
  with ok i(1) have "i \<in> set (chain_of m k)" by (simp add: hm_ok_def)
  with \<open>has_key m k i\<close> obtain j where j: "find (has_key m k) (chain_of m k) = Some j"
    by (cases "find (has_key m k) (chain_of m k)") (auto simp: find_None_iff)
  then have "j \<in> set (chain_of m k)" "has_key m k j" by (auto simp: find_Some_iff)
  moreover from this(1) wf have "j < table_size m" by (auto simp: hm_wf_def intro: chain_less)
  ultimately have "j = i" using ok i(1) \<open>has_key m k i\<close> by (simp add: hm_ok_def)
  with j i(2) wf show "hashmap_get m k = Some v" by (simp add: hashmap_get_find)
qed

lemma map_of_entries:
  assumes ok: "hm_ok m"
  shows "map_of (entries (hm_data m)) = hashmap_get m" and "distinct (map fst (entries (hm_data m)))"
proof -
  have l: "length (hm_data m) = table_size m" using ok by (simp add: hm_ok_def hm_wf_def)
  show d: "distinct (map fst (entries (hm_data m)))"
  proof (rule distinct_entries)
    fix i j k v v' assume "i < length (hm_data m)" "j < length (hm_data m)"
      "hm_data m ! i = Some (k, v)" "hm_data m ! j = Some (k, v')"
    then have "i < table_size m" "j < table_size m" "has_key m k i" "has_key m k j" using l by (auto simp: has_key_def)
    then show "i = j" using ok unfolding hm_ok_def by blast
  qed
  show "map_of (entries (hm_data m)) = hashmap_get m"
  proof
    fix k
    have "map_of (entries (hm_data m)) k = Some v \<longleftrightarrow> hashmap_get m k = Some v" for v
      using d l by (auto simp: map_of_eq_Some_iff set_entries get_Some_iff [OF ok])
    then show "map_of (entries (hm_data m)) k = hashmap_get m k"
      by (cases "hashmap_get m k"; cases "map_of (entries (hm_data m)) k") auto
  qed
qed

definition empty_table :: "nat \<Rightarrow> 'v hashmap_map" where
  "empty_table n = \<lparr>table_size = n, hm_size = 0, hm_data = replicate n None\<rparr>"

lemma empty_table_ok:
  assumes n: "0 < n"
  shows "hm_ok (empty_table n :: 'v hashmap_map)" and "hashmap_get (empty_table n :: 'v hashmap_map) = Map.empty"
proof -
  let ?m = "empty_table n :: 'v hashmap_map"
  have hk: "i < n \<Longrightarrow> \<not> has_key ?m k i" for k i by (simp add: has_key_def empty_table_def)
  show ok: "hm_ok ?m"
    using n hk by (auto simp: hm_ok_def hm_wf_def) (auto simp: empty_table_def)
  have "hashmap_get ?m k \<noteq> Some v" for k v
    unfolding get_Some_iff [OF ok] by (simp add: empty_table_def)
  then show "hashmap_get ?m = Map.empty" by (intro ext) (meson not_None_eq)
qed

lemma put_correct:
  fixes v :: 'v and m n p m' n' p' :: "'v hashmap_map"
  shows "hm_ok m \<Longrightarrow> hashmap_put mem f k v m = Some (st, m') \<Longrightarrow>
     st \<in> {MAP_OK, MAP_OMEM} \<and>
     (st = MAP_OK \<longrightarrow> hm_wf m' \<and> hashmap_get m' = (hashmap_get m)(k \<mapsto> v) \<and> (hashmap_get m k = None \<longrightarrow> hm_ok m'))"
  "hm_ok n \<Longrightarrow> hashmap_rehash mem f n = Some (st', n') \<Longrightarrow>
     st' \<in> {MAP_OK, MAP_OMEM} \<and> (st' = MAP_OK \<longrightarrow> hm_ok n' \<and> hashmap_get n' = hashmap_get n)"
  "hm_ok p \<Longrightarrow> distinct (map fst (entries es)) \<Longrightarrow> (\<And>k. k \<in> fst ` set (entries es) \<Longrightarrow> hashmap_get p k = None) \<Longrightarrow>
     rehash_loop mem f es p = Some (st'', p') \<Longrightarrow>
     st'' \<in> {MAP_OK, MAP_OMEM} \<and> (st'' = MAP_OK \<longrightarrow> hm_ok p' \<and> hashmap_get p' = hashmap_get p ++ map_of (entries es))"
proof (induction mem f k v m and mem f n and mem f es p
    arbitrary: st m' and st' n' and st'' p' rule: hashmap_put_hashmap_rehash_rehash_loop.induct)
  case (1 mem key v m)
  then show ?case by (simp add: hashmap_put.simps)
next
  case (2 mem f key v m)
  show ?case
  proof (cases "hashmap_hash m key")
    case None
    with 2(4) obtain st1 m1 where r: "hashmap_rehash mem f m = Some (st1, m1)"
      by (auto simp: hashmap_put.simps split: option.splits)
    from 2(1) [OF None 2(3) r] have m1: "st1 \<in> {MAP_OK, MAP_OMEM}"
      "st1 = MAP_OK \<Longrightarrow> hm_ok m1 \<and> hashmap_get m1 = hashmap_get m" by auto
    show ?thesis
    proof (cases "st1 = MAP_OMEM")
      case True
      with 2(4) None r show ?thesis by (auto simp: hashmap_put.simps)
    next
      case False
      with m1 have m1': "st1 = MAP_OK" "hm_ok m1" "hashmap_get m1 = hashmap_get m" by auto
      have "hashmap_put mem f key v m1 = Some (st, m')" using 2(4) None r False by (simp add: hashmap_put.simps)
      from 2(2) [OF None r refl False m1'(2) this] m1'(3) show ?thesis by simp
    qed
  next
    case (Some i)
    have wf: "hm_wf m" using 2(3) by (simp add: hm_ok_def)
    from 2(4) Some have "st = MAP_OK" "m' = hm_store i key v m" by (simp_all add: hashmap_put.simps)
    with get_store [OF wf Some] ok_store [OF 2(3) Some] wf show ?thesis by simp
  qed
next
  case (3 mem m)
  then show ?case by (simp add: hashmap_rehash.simps)
next
  case (4 mem f m)
  show ?case
  proof (cases "mem (2 * table_size m)")
    case False
    with 4(3) show ?thesis by (simp add: hashmap_rehash.simps)
  next
    case True
    have pos: "0 < 2 * table_size m" using 4(2) by (simp add: hm_ok_def hm_wf_def)
    note e = map_of_entries [OF 4(2)]
    note et = empty_table_ok [OF pos, where ?'v = 'v]
    have l: "rehash_loop mem f (hm_data m) (empty_table (2 * table_size m)) = Some (st', n')"
      using 4(3) True by (simp add: hashmap_rehash.simps empty_table_def)
    from 4(1) [folded empty_table_def, OF _ et(1) e(2) _ l] True et(2) e(1) show ?thesis by simp
  qed
next
  case (5 mem f m)
  then show ?case by (auto simp: rehash_loop.simps)
next
  case (6 mem f e es m)
  show ?case
  proof (cases e)
    case None
    have "rehash_loop mem f es m = Some (st'', p')" using 6(7) None by (simp add: rehash_loop.simps)
    from 6(1) [OF None 6(4) _ _ this] 6(5,6) None show ?thesis by simp
  next
    case (Some kv)
    obtain k v where kv: "kv = (k, v)" by fastforce
    with 6(7) Some obtain st1 m1 where r: "hashmap_put mem f k v m = Some (st1, m1)"
      by (auto simp: rehash_loop.simps split: option.splits)
    have fresh: "hashmap_get m k = None" using 6(6) [of k] Some kv by simp
    from 6(2) [OF Some kv [symmetric] 6(4) r] fresh have s1: "st1 \<in> {MAP_OK, MAP_OMEM}"
      "st1 = MAP_OK \<Longrightarrow> hm_ok m1 \<and> hashmap_get m1 = (hashmap_get m)(k \<mapsto> v)" by auto
    show ?thesis
    proof (cases "st1 = MAP_OK")
      case False
      with 6(7) Some kv r s1(1) show ?thesis by (auto simp: rehash_loop.simps)
    next
      case True
      note m1 = s1(2) [OF True]
      have l: "rehash_loop mem f es m1 = Some (st'', p')" using 6(7) Some kv r True by (simp add: rehash_loop.simps)
      have d: "distinct (map fst (entries es))" "k \<notin> fst ` set (entries es)" using 6(5) Some kv by auto
      have "hashmap_get m1 k' = None" if "k' \<in> fst ` set (entries es)" for k'
        using that d(2) m1 6(6) [of k'] Some kv by auto
      from 6(3) [OF Some kv [symmetric] r refl _ _ d(1) this l] True m1 have
        res: "st'' \<in> {MAP_OK, MAP_OMEM} \<and> (st'' = MAP_OK \<longrightarrow> hm_ok p' \<and> hashmap_get p' = hashmap_get m1 ++ map_of (entries es))"
        by blast
      have "map_of (entries es) k = None" using d(2) by (simp add: map_of_eq_None_iff)
      with m1 have "hashmap_get m1 ++ map_of (entries es) = hashmap_get m ++ map_of (entries (e # es))"
        by (auto simp: Some kv map_add_def fun_eq_iff split: option.splits)
      with res show ?thesis by simp
    qed
  qed
qed

lemma rehash_loop_returns:
  fixes m :: "'v hashmap_map"
  assumes put: "\<And>k v (m :: 'v hashmap_map). 0 < table_size m \<Longrightarrow> b \<le> table_size m \<Longrightarrow>
                  \<exists>st m'. hashmap_put mem f k v m = Some (st, m') \<and> table_size m \<le> table_size m'"
    and "0 < table_size m" "b \<le> table_size m"
  shows "\<exists>st m'. rehash_loop mem f es m = Some (st, m') \<and> table_size m \<le> table_size m'"
  using assms(2,3)
proof (induction es arbitrary: m)
  case Nil
  then show ?case by (simp add: rehash_loop.simps)
next
  case (Cons e es)
  show ?case
  proof (cases e)
    case None
    with Cons show ?thesis by (simp add: rehash_loop.simps)
  next
    case (Some kv)
    obtain k v where kv: "kv = (k, v)" by fastforce
    from put [OF Cons.prems, of k v] obtain st m1 where
      m1: "hashmap_put mem f k v m = Some (st, m1)" "table_size m \<le> table_size m1" by blast
    with Cons.IH [of m1] Cons.prems Some kv show ?thesis
      by (cases "st = MAP_OK") (auto simp: rehash_loop.simps intro: le_trans)
  qed
qed

lemma put_returns:
  assumes mem: "\<And>n. mem n \<Longrightarrow> n \<le> L"
  shows "(\<forall>k v (m :: 'v hashmap_map). 0 < table_size m \<longrightarrow> 2 * (L - table_size m) + 2 \<le> f \<longrightarrow>
            (\<exists>st m'. hashmap_put mem f k v m = Some (st, m') \<and> table_size m \<le> table_size m')) \<and>
         (\<forall>m :: 'v hashmap_map. 0 < table_size m \<longrightarrow> 2 * (L - table_size m) + 1 \<le> f \<longrightarrow>
            (\<exists>st m'. hashmap_rehash mem f m = Some (st, m') \<and> table_size m \<le> table_size m' \<and>
               (st = MAP_OMEM \<or> (2 * table_size m \<le> table_size m' \<and> 2 * table_size m \<le> L))))"
proof (induction f)
  case 0
  then show ?case by simp
next
  case (Suc f)
  have rehash: "\<exists>st m'. hashmap_rehash mem (Suc f) m = Some (st, m') \<and> table_size m \<le> table_size m' \<and>
      (st = MAP_OMEM \<or> (2 * table_size m \<le> table_size m' \<and> 2 * table_size m \<le> L))"
    if m: "0 < table_size m" "2 * (L - table_size m) + 1 \<le> Suc f" for m :: "'v hashmap_map"
  proof (cases "mem (2 * table_size m)")
    case False
    then show ?thesis by (simp add: hashmap_rehash.simps)
  next
    case True
    let ?n = "\<lparr>table_size = 2 * table_size m, hm_size = 0, hm_data = replicate (2 * table_size m) None\<rparr> :: 'v hashmap_map"
    have le: "2 * table_size m \<le> L" using mem [OF True] .
    have "\<exists>st m'. rehash_loop mem f (hm_data m) ?n = Some (st, m') \<and> table_size ?n \<le> table_size m'"
    proof (rule rehash_loop_returns [where b = "2 * table_size m"])
      fix k v and x :: "'v hashmap_map"
      assume x: "0 < table_size x" "2 * table_size m \<le> table_size x"
      have "2 * (L - table_size x) + 2 \<le> f" using m le x(2) by simp
      with Suc.IH x(1) show "\<exists>st m'. hashmap_put mem f k v x = Some (st, m') \<and> table_size x \<le> table_size m'" by blast
    qed (use m in simp_all)
    with True le show ?thesis by (auto simp: hashmap_rehash.simps)
  qed
  moreover have "\<exists>st m'. hashmap_put mem (Suc f) k v m = Some (st, m') \<and> table_size m \<le> table_size m'"
    if m: "0 < table_size m" "2 * (L - table_size m) + 2 \<le> Suc f" for k v and m :: "'v hashmap_map"
  proof (cases "hashmap_hash m k")
    case (Some i)
    then show ?thesis by (simp add: hashmap_put.simps)
  next
    case None
    have "2 * (L - table_size m) + 1 \<le> f" using m(2) by simp
    with Suc.IH m(1) obtain st m1 where r: "hashmap_rehash mem f m = Some (st, m1)" "table_size m \<le> table_size m1"
      "st = MAP_OMEM \<or> (2 * table_size m \<le> table_size m1 \<and> 2 * table_size m \<le> L)" by blast
    show ?thesis
    proof (cases "st = MAP_OMEM")
      case True
      with None r show ?thesis by (simp add: hashmap_put.simps)
    next
      case False
      with r(3) have g: "2 * table_size m \<le> table_size m1" "2 * table_size m \<le> L" by auto
      have "0 < table_size m1" "2 * (L - table_size m1) + 2 \<le> f" using g m by simp_all
      with Suc.IH obtain st2 m2 where "hashmap_put mem f k v m1 = Some (st2, m2)" "table_size m1 \<le> table_size m2" by blast
      with None r(1,2) False show ?thesis by (simp add: hashmap_put.simps)
    qed
  qed
  ultimately show ?case by blast
qed

section \<open>The hash map is a map\<close>

definition hm_insert :: "(nat \<Rightarrow> bool) \<Rightarrow> nat \<Rightarrow> hkey \<Rightarrow> 'v \<Rightarrow> 'v hashmap_map \<Rightarrow> 'v hashmap_map option" where
  "hm_insert mem f k v m =
     (case hashmap_put mem f k v m of Some (MAP_OK, m') \<Rightarrow> Some m' | _ \<Rightarrow> None)"

lemma hm_insert_Some: "hm_insert mem f k v m = Some m' \<longleftrightarrow> hashmap_put mem f k v m = Some (MAP_OK, m')"
  by (auto simp: hm_insert_def split: option.splits map_status.splits)

interpretation hm: key_map "hm_insert mem f" "\<lambda>k m. snd (hashmap_remove k m)" hashmap_get hm_ok for mem f
proof (unfold_locales, goal_cases)
  case (1 m k v m')
  with put_correct(1) [of m mem f k v MAP_OK m'] show ?case by (simp add: hm_insert_Some)
next
  case (2 m k v m')
  with put_correct(1) [of m mem f k v MAP_OK m'] show ?case by (simp add: hm_insert_Some)
next
  case (3 m k)
  then show ?case using remove_ok(2) [of m k] by (metis prod.collapse)
next
  case (4 m k)
  then show ?case using remove_ok(1) [of m k] by (metis prod.collapse)
qed

text \<open>Integer keys are told apart by their eight hexadecimal digits.\<close>

lemma unat_hex_digit:
  assumes "a < 16" shows "unat (hex_digit a) = (if unat a < 10 then 48 + unat a else 87 + unat a)"
proof -
  have a: "unat a < 16" using assms by (simp add: word_less_nat_alt)
  then have u: "unat (ucast a :: u8) = unat a" by (simp add: unsigned_ucast_eq take_bit_nat_eq_self)
  have "a < 10 \<longleftrightarrow> unat a < 10" by (simp add: word_less_nat_alt)
  then show ?thesis using a by (simp add: hex_digit_def unat_word_ariths u)
qed

lemma hex_digit_inject:
  assumes "a < 16" "b < 16" "hex_digit a = hex_digit b" shows "a = b"
proof -
  have "unat a < 16" "unat b < 16" using assms(1,2) by (simp_all add: word_less_nat_alt)
  with unat_hex_digit [OF assms(1)] unat_hex_digit [OF assms(2)] assms(3) have "unat a = unat b"
    by (simp split: if_splits)
  then show ?thesis by (simp add: word_unat_eq_iff)
qed

lemma int_key_inject: "int_key x = int_key y \<longleftrightarrow> x = y"
proof
  assume eq: "int_key x = int_key y"
  have lt: "drop_bit k z AND 0xf < 16" for k and z :: u32
  proof -
    have "drop_bit k z AND 0xf \<le> 0xf" by (rule word_and_le1)
    then show ?thesis by (rule le_less_trans) simp
  qed
  have nib: "drop_bit (4 * i) x AND 0xf = drop_bit (4 * i) y AND 0xf" if "i < 8" for i
  proof -
    have "i \<in> set [7, 6, 5, 4, 3, 2, 1, 0]" using that by auto
    then have "hex_digit (drop_bit (4 * i) x AND 0xf) = hex_digit (drop_bit (4 * i) y AND 0xf)"
      using eq unfolding int_key_def map_eq_conv by blast
    then show ?thesis using lt hex_digit_inject by blast
  qed
  have m: "0xf = (mask 4 :: u32)" by (simp add: mask_eq_exp_minus_1)
  show "x = y"
  proof (rule bit_word_eqI)
    fix n assume n: "n < LENGTH(32)"
    let ?i = "n div 4" and ?r = "n mod 4"
    have eq: "bit (drop_bit (4 * ?i) z AND 0xf) ?r = bit z n" for z :: u32
      unfolding m by (auto simp: bit_simps)
    from n have "?i < 8" by simp
    then show "bit x n = bit y n" using nib [of ?i] eq [of x] eq [of y] by argo
  qed
qed simp

lemma status_cases:
  fixes m :: "'v hashmap_map"
  shows "(hashmap_put mem f k v m = Some (st, m') \<longrightarrow> st = MAP_OK \<or> st = MAP_OMEM) \<and>
   (hashmap_rehash mem f m = Some (st, m') \<longrightarrow> st = MAP_OK \<or> st = MAP_OMEM) \<and>
   (rehash_loop mem f es m = Some (st, m') \<longrightarrow> st = MAP_OK \<or> st = MAP_OMEM)"
proof (induction f arbitrary: k v m es st m' rule: nat.induct)
  case zero
  have "rehash_loop mem 0 es m = Some (st, m') \<longrightarrow> st = MAP_OK \<or> st = MAP_OMEM"
    by (induction es) (auto simp: rehash_loop.simps hashmap_put.simps split: option.splits prod.splits if_splits)
  then show ?case by (simp add: hashmap_put.simps hashmap_rehash.simps)
next
  case (Suc f)
  have p: "hashmap_put mem (Suc f) k v m = Some (st, m') \<longrightarrow> st = MAP_OK \<or> st = MAP_OMEM"
    for k v and m :: "'v hashmap_map" and st m'
    by (auto simp: hashmap_put.simps split: option.splits prod.splits if_splits dest: Suc.IH [THEN conjunct1, rule_format])
  have "hashmap_rehash mem (Suc f) m = Some (st, m') \<longrightarrow> st = MAP_OK \<or> st = MAP_OMEM"
    using Suc.IH [THEN conjunct2, THEN conjunct2] by (auto simp: hashmap_rehash.simps split: if_splits)
  moreover have "rehash_loop mem (Suc f) es m = Some (st, m') \<longrightarrow> st = MAP_OK \<or> st = MAP_OMEM"
    by (induction es arbitrary: m) (auto simp: rehash_loop.simps split: option.splits prod.splits if_splits dest: p [rule_format])
  ultimately show ?case using p by blast
qed

lemmas put_status = status_cases [THEN conjunct1, rule_format]

section \<open>Properties\<close>

text \<open>
  C13: the hash map implements a map. When \<open>calloc\<close> serves tables of at most \<open>L\<close> elements, \<open>hashmap_put\<close> on a well-formed map
  returns, also when it has to grow and rehash the table. With \<open>MAP_OK\<close> the key maps to the new value, no other key has changed,
  and the map is well-formed if the key was not there before; this is the answer whenever less than half of the table is used and a
  slot of the key's chain is free. The only other answer is \<open>MAP_OMEM\<close>. \<open>hashmap_remove\<close> takes exactly the key out and keeps the
  map well-formed.
\<close>

theorem hashmap_refines_map:
  assumes "hm_ok m" and "\<forall>n. mem n \<longrightarrow> n \<le> L"
  shows "\<exists>st m'. hashmap_put mem (2 * (L - table_size m) + 2) k v m = Some (st, m') \<and>
           (st = MAP_OK \<longrightarrow> hashmap_get m' = (hashmap_get m)(k \<mapsto> v) \<and> (hashmap_get m k = None \<longrightarrow> hm_ok m')) \<and>
           (hm_size m < int (table_size m div 2) \<and> (\<exists>i \<in> set (chain_of m k). hm_data m ! i = None) \<longrightarrow> st = MAP_OK) \<and>
           (st = MAP_OK \<or> st = MAP_OMEM) \<and>
           hm_ok (snd (hashmap_remove k m)) \<and> hashmap_get (snd (hashmap_remove k m)) = (hashmap_get m)(k := None)"
proof -
  have ts: "0 < table_size m" using assms(1) by (simp add: hm_ok_def hm_wf_def)
  note p = put_returns [of mem L, OF assms(2) [rule_format], THEN conjunct1, rule_format]
  obtain st m' where r: "hashmap_put mem (2 * (L - table_size m) + 2) k v m = Some (st, m')"
    using p [of m "2 * (L - table_size m) + 2" k v] ts by auto
  have a: "hashmap_get m' = (hashmap_get m)(k \<mapsto> v)" "hashmap_get m k = None \<longrightarrow> hm_ok m'" if "st = MAP_OK"
    using that r hm.insert_lookup [OF assms(1), of mem _ k v m'] hm.insert_invar [OF assms(1), of mem _ k v m']
    by (auto simp: hm_insert_Some)
  have "st = MAP_OK" if "hm_size m < int (table_size m div 2)" "i \<in> set (chain_of m k)" "hm_data m ! i = None" for i
  proof -
    have "hashmap_hash m k \<noteq> None"
      using that ts probe_slot_find [of "hashmap_hash_int (table_size m) k" m MAX_CHAIN_LENGTH k]
      by (auto simp: hashmap_hash_def find_None_iff hashmap_hash_int_def)
    then show ?thesis using r by (auto simp: hashmap_put.simps)
  qed
  then show ?thesis
    using r a put_status [OF r] hm.delete_lookup [OF assms(1)] hm.delete_invar [OF assms(1)]
    by (intro exI [of _ st] exI [of _ m']) (auto simp del: hashmap_remove_def)
qed

text \<open>A concrete instance: the empty key hashes to slot 0 of a new map.\<close>

lemma hash_mix_0 [simp]: "hash_mix 0 = 0"
  by (simp add: hash_mix_def)

lemma hashmap_new_empty: "hashmap_new mem True = Some m \<Longrightarrow> m = empty_table INITIAL_SIZE"
  by (auto simp: hashmap_new_def empty_table_def split: if_splits)

lemma probe_numeral:
  "probe_slot (numeral w) m key cur =
     (case hm_data m ! cur of
        None \<Rightarrow> Some cur
      | Some (k, _) \<Rightarrow> if k = key then Some cur else probe_slot (pred_numeral w) m key ((cur + 1) mod table_size m))"
  "probe_key (numeral w) m key cur =
     (case hm_data m ! cur of
        None \<Rightarrow> probe_key (pred_numeral w) m key ((cur + 1) mod table_size m)
      | Some (k, _) \<Rightarrow> if k = key then Some cur else probe_key (pred_numeral w) m key ((cur + 1) mod table_size m))"
  by (simp_all add: numeral_eq_Suc)

lemma put_empty_table:
  "0 < n \<Longrightarrow> hashmap_put mem (Suc f) k v (empty_table (2 * n)) =
     Some (MAP_OK, hm_store (hashmap_hash_int (2 * n) k) k v (empty_table (2 * n)))"
  by (simp add: hashmap_put.simps hashmap_hash_def empty_table_def MAX_CHAIN_LENGTH_def probe_numeral hashmap_hash_int_def)

theorem hashmap_refines_map_witness:
  "\<exists>m' :: nat hashmap_map. hashmap_put (\<lambda>n. n \<le> 256) 2 [0x61] 7 (empty_table (2 * 128)) = Some (MAP_OK, m') \<and>
     hashmap_get m' [0x61] = Some 7 \<and> hm_ok m' \<and> hashmap_get (snd (hashmap_remove [0x61] m')) [0x61] = None"
proof -
  let ?m = "empty_table (2 * 128) :: nat hashmap_map"
  have ok: "hm_ok ?m" and e: "hashmap_get ?m [0x61] = None" using empty_table_ok [of "2 * 128", where ?'v = nat] by simp_all
  obtain m' where p: "hashmap_put (\<lambda>n. n \<le> 256) 2 [0x61] 7 ?m = Some (MAP_OK, m')"
    using put_empty_table [of 128, where ?'a = nat] by (auto simp: numeral_2_eq_2)
  have ts: "2 * (256 - table_size ?m) + 2 = 2" by (simp add: empty_table_def)
  have lim: "\<forall>n :: nat. n \<le> 256 \<longrightarrow> n \<le> 256" by simp
  from hashmap_refines_map [where mem = "\<lambda>n. n \<le> 256" and L = 256 and k = "[0x61]" and v = 7, OF ok lim] obtain st x where
    x: "hashmap_put (\<lambda>n. n \<le> 256) (2 * (256 - table_size ?m) + 2) [0x61] 7 ?m = Some (st, x)"
      "st = MAP_OK \<longrightarrow> hashmap_get x = (hashmap_get ?m)([0x61] \<mapsto> 7) \<and> (hashmap_get ?m [0x61] = None \<longrightarrow> hm_ok x)"
    by (elim exE conjE) (rule that)
  have "st = MAP_OK" "x = m'" using x(1) p unfolding ts by simp_all
  then have g: "hashmap_get m' [0x61] = Some 7" and ok': "hm_ok m'" using x(2) e by simp_all
  from hashmap_refines_map [where mem = "\<lambda>n. n \<le> 256" and L = 256 and k = "[0x61]", OF ok' lim]
  have "hashmap_get (snd (hashmap_remove [0x61] m')) = (hashmap_get m')([0x61] := None)" by blast
  then have "hashmap_get (snd (hashmap_remove [0x61] m')) [0x61] = None" by simp
  with p g ok' show ?thesis by auto
qed

text \<open>
  C14: \<open>hashmap_put\<close> always returns. When \<open>calloc\<close> serves tables of at most \<open>L\<close> elements, the mutual recursion of
  \<open>hashmap_put\<close> and \<open>hashmap_rehash\<close> ends after at most \<open>2 * (L - table_size) + 2\<close> nested calls.
\<close>

theorem hashmap_put_returns:
  assumes "\<And>n. mem n \<Longrightarrow> n \<le> L" and "0 < table_size m"
  shows "\<exists>st m'. hashmap_put mem (2 * (L - table_size m) + 2) k v m = Some (st, m') \<and> table_size m \<le> table_size m'"
proof -
  note p = put_returns [of mem L, OF assms(1), THEN conjunct1, rule_format]
  show ?thesis by (rule p) (simp_all add: assms(2))
qed

theorem hashmap_put_returns_witness:
  "\<exists>st m'. hashmap_put (\<lambda>n. n \<le> 1024) 1538 [0x61] True (empty_table 256) = Some (st, m')"
  using hashmap_put_returns [of "\<lambda>n. n \<le> 1024" 1024 "empty_table 256" "[0x61]" True] by (auto simp: empty_table_def)

text \<open>
  C15: removing does not close the gap in a chain. After two keys with the same hash are put and the first is removed,
  putting the second again stores it a second time; removing it then brings its old value back.
\<close>

theorem hashmap_stale_value:
  assumes ne: "ka \<noteq> kb" and h: "hashmap_hash_int INITIAL_SIZE ka = hashmap_hash_int INITIAL_SIZE kb"
    and new: "hashmap_new mem True = Some m0"
  shows "\<exists>m1 m2 m3. hashmap_put mem 1 ka va m0 = Some (MAP_OK, m1) \<and> hashmap_put mem 1 kb v1 m1 = Some (MAP_OK, m2) \<and>
           hashmap_put mem 1 kb v2 (snd (hashmap_remove ka m2)) = Some (MAP_OK, m3) \<and>
           hashmap_get (snd (hashmap_remove kb m3)) kb = Some v1"
proof -
  define i where "i = hashmap_hash_int 256 kb"
  have i: "hashmap_hash_int 256 ka = i" "hashmap_hash_int 256 kb = i" "i < 256"
    using h by (simp_all add: i_def INITIAL_SIZE_def hashmap_hash_int_def)
  have j: "Suc i mod 256 < 256" "Suc i mod 256 \<noteq> i" using i(3) by (cases "i = 255"; simp)+
  have m0: "m0 = \<lparr>table_size = 256, hm_size = 0, hm_data = replicate 256 None\<rparr>"
    using hashmap_new_empty [OF new] by (simp add: empty_table_def INITIAL_SIZE_def)
  show ?thesis
    unfolding One_nat_def m0
    using ne i j by (simp add: hashmap_put.simps hashmap_hash_def hashmap_remove_def hashmap_get_def hm_store_def MAX_CHAIN_LENGTH_def
      probe_numeral       nth_list_update del: replicate.simps)
qed

lemma collision: "hashmap_hash_int INITIAL_SIZE [0x6f] = hashmap_hash_int INITIAL_SIZE [0x74]"
proof -
  have "crc32_tab ! 0x6f = 0xdd0d7cc9" "crc32_tab ! 0x74 = 0x5768b525" by (simp_all add: crc32_tab_def)
  then have "crc32 [0x6f] = 0xdd0d7cc9" "crc32 [0x74] = 0x5768b525"
    by (simp_all add: crc32_def crc32_step_def)
  then show ?thesis by (simp add: hashmap_hash_int_def INITIAL_SIZE_def hash_mix_def Let_def)
qed

theorem hashmap_stale_value_witness:
  "\<exists>m0 m1 m2 m3. hashmap_new (\<lambda>n. True) True = Some m0 \<and> hashmap_put (\<lambda>n. True) 1 [0x6f] (0 :: nat) m0 = Some (MAP_OK, m1) \<and>
     hashmap_put (\<lambda>n. True) 1 [0x74] 1 m1 = Some (MAP_OK, m2) \<and>
     hashmap_put (\<lambda>n. True) 1 [0x74] 2 (snd (hashmap_remove [0x6f] m2)) = Some (MAP_OK, m3) \<and>
     hashmap_get (snd (hashmap_remove [0x74] m3)) [0x74] = Some 1"
proof -
  obtain m0 :: "nat hashmap_map" where m0: "hashmap_new (\<lambda>n. True) True = Some m0" by (simp add: hashmap_new_def)
  have "[0x6f] \<noteq> [0x74 :: u8]" by simp
  from hashmap_stale_value [OF this collision m0, of 0 1 2] m0 show ?thesis by blast
qed

end
