(* ===== verification/Checksum.thy ===== *)
theory Checksum
  imports Gz_Prelude
begin

text \<open>
  The Internet checksum, src/kernel/lib/network/checksum.c. Memory is a list of bytes. The platform is
  big-endian, so that \<open>htons\<close> and \<open>ntohs\<close> are the identity and a 16-bit load puts the first byte first.
\<close>

section \<open>The code\<close>

definition be16 :: "u8 \<Rightarrow> u8 \<Rightarrow> u16" where
  "be16 a b = push_bit 8 (ucast a) OR ucast b"

fun sum_every_16bits :: "u32 \<Rightarrow> u8 list \<Rightarrow> u32" where
  "sum_every_16bits acc (a # b # rest) = sum_every_16bits (acc + ucast (be16 a b)) rest"
| "sum_every_16bits acc [a] = acc + push_bit 8 (ucast a)"
| "sum_every_16bits acc [] = acc"

lemma unat_drop16: "unat (drop_bit 16 x) = unat x div 2 ^ 16" for x :: u32
  by (simp add: drop_bit_eq_div unat_div)

lemma fold_step: "unat ((acc AND 0xffff) + drop_bit 16 acc) = unat acc mod 2 ^ 16 + unat acc div 2 ^ 16" for acc :: u32
proof -
  have m: "0xffff = (mask 16 :: u32)" by (simp add: mask_eq_exp_minus_1)
  have lo: "unat (acc AND 0xffff) = unat acc mod 2 ^ 16"
    unfolding m by (simp add: take_bit_eq_mask [symmetric] take_bit_eq_mod unat_mod)
  note hi = unat_drop16 [of acc]
  have "unat acc < 2 ^ 32" using unsigned_less [of acc] by simp
  then have "unat acc div 2 ^ 16 < 2 ^ 16" by (simp add: div_less_iff_less_mult)
  moreover have "unat acc mod 2 ^ 16 < 2 ^ 16" by simp
  ultimately show ?thesis by (simp add: unat_word_ariths lo hi)
qed

function fold_sum :: "u32 \<Rightarrow> u32" where
  "fold_sum acc = (if drop_bit 16 acc \<noteq> 0 then fold_sum ((acc AND 0xffff) + drop_bit 16 acc) else acc)"
  by pat_completeness auto

termination
proof (relation "measure unat")
  show "wf (measure (unat :: u32 \<Rightarrow> nat))" by simp
  fix acc :: u32 assume "drop_bit 16 acc \<noteq> 0"
  then have "unat (drop_bit 16 acc) \<noteq> 0" by (simp add: unat_eq_0)
  then have "0 < unat acc div 2 ^ 16" by (simp only: unat_drop16 neq0_conv)
  then have "unat acc mod 2 ^ 16 + unat acc div 2 ^ 16 < unat acc mod 2 ^ 16 + unat acc div 2 ^ 16 * 2 ^ 16"
    by (intro add_strict_left_mono) simp
  also have "\<dots> = unat acc" by (simp only: mod_div_mult_eq)
  finally have "unat acc mod 2 ^ 16 + unat acc div 2 ^ 16 < unat acc" .
  then show "((acc AND 0xffff) + drop_bit 16 acc, acc) \<in> measure unat" by (simp only: in_measure fold_step)
qed

declare fold_sum.simps [simp del]

definition checksum :: "u8 list \<Rightarrow> u32 \<Rightarrow> u16" where
  "checksum data start_sum = NOT (ucast (fold_sum (start_sum + sum_every_16bits 0 data)))"

definition tcp_udp_checksum :: "u32 \<Rightarrow> u32 \<Rightarrow> u8 \<Rightarrow> u8 list \<Rightarrow> u16 \<Rightarrow> u16" where
  "tcp_udp_checksum saddr daddr proto data len =
     checksum (take (unat len) data) (saddr + daddr + ucast proto + ucast len)"

section \<open>The reference\<close>

text \<open>Ones' complement sums of 16-bit words, over unbounded numbers.\<close>

fun words16 :: "u8 list \<Rightarrow> nat list" where
  "words16 (a # b # rest) = (256 * unat a + unat b) # words16 rest"
| "words16 [a] = [256 * unat a]"
| "words16 [] = []"

definition ones_sum :: "nat \<Rightarrow> nat" where
  "ones_sum t = (if t = 0 then 0 else (t - 1) mod 65535 + 1)"

definition rfc1071 :: "nat list \<Rightarrow> nat" where
  "rfc1071 ws = 65535 - ones_sum (sum_list ws)"

definition pseudo_header :: "u32 \<Rightarrow> u32 \<Rightarrow> u8 \<Rightarrow> u16 \<Rightarrow> nat list" where
  "pseudo_header saddr daddr proto len =
     [unat saddr div 2 ^ 16, unat saddr mod 2 ^ 16, unat daddr div 2 ^ 16, unat daddr mod 2 ^ 16, unat proto, unat len]"

lemma ones_sum_small: "t \<le> 65535 \<Longrightarrow> ones_sum t = t"
  by (cases t) (simp_all add: ones_sum_def)

lemma ones_sum_le: "ones_sum t \<le> 65535"
proof -
  have "(t - 1) mod 65535 < 65535" by simp
  then show ?thesis by (simp add: ones_sum_def del: mod_less_divisor)
qed

lemma ones_sum_cong:
  assumes "s mod 65535 = t mod 65535" "s = 0 \<longleftrightarrow> t = 0" shows "ones_sum s = ones_sum t"
proof (cases "s = 0")
  case False
  then obtain s' t' where e: "s = Suc s'" "t = Suc t'" using assms(2) by (metis not0_implies_Suc)
  have shift: "u mod 65535 = (Suc u + 65534) mod 65535" for u :: nat by simp
  have "s' mod 65535 = t' mod 65535"
    unfolding shift [of s'] shift [of t'] using assms(1) unfolding e by (metis mod_add_left_eq)
  then show ?thesis by (simp add: ones_sum_def e)
qed (use assms in \<open>simp add: ones_sum_def\<close>)

lemma fold_sum_ones: "unat (fold_sum acc) = ones_sum (unat acc)"
proof (induction acc rule: fold_sum.induct)
  case (1 acc)
  have u: "unat acc = 2 ^ 16 * (unat acc div 2 ^ 16) + unat acc mod 2 ^ 16" by simp
  show ?case
  proof (cases "drop_bit 16 acc = 0")
    case True
    then have "unat acc div 2 ^ 16 = 0" using unat_drop16 [of acc] by simp
    then have "unat acc \<le> 65535" by (simp add: div_eq_0_iff)
    with True show ?thesis by (simp add: fold_sum.simps [of acc] ones_sum_small)
  next
    case False
    let ?h = "unat acc div 2 ^ 16" and ?l = "unat acc mod 2 ^ 16"
    have "ones_sum (?l + ?h) = ones_sum (unat acc)"
    proof (rule ones_sum_cong)
      have "unat acc = (?l + ?h) + 65535 * ?h" using u by simp
      then show "(?l + ?h) mod 65535 = unat acc mod 65535" by (metis mod_mult_self2)
      show "?l + ?h = 0 \<longleftrightarrow> unat acc = 0" using u by auto
    qed
    with 1 False show ?thesis by (simp only: fold_sum.simps [of acc] fold_step if_True not_False_eq_True)
  qed
qed

lemma unat_be16: "unat (be16 a b) = 256 * unat a + unat b"
proof -
  have a: "unat a < 256" and b: "unat b < 256" using unsigned_less [of a] unsigned_less [of b] by simp_all
  have d: "push_bit 8 (ucast a :: u16) AND ucast b = 0"
    by (rule bit_word_eqI) (auto simp: bit_simps dest: bit_imp_le_length)
  have "be16 a b = push_bit 8 (ucast a) + ucast b"
    unfolding be16_def by (rule disjunctive_add [symmetric]) (use d in \<open>auto simp: bit_eq_iff bit_simps\<close>)
  then show ?thesis using a b
    by (simp add: unat_word_ariths push_bit_eq_mult unsigned_ucast_eq take_bit_nat_eq_self)
qed

lemma sum16_unat: "unat (sum_every_16bits acc data) = (unat acc + sum_list (words16 data)) mod 2 ^ 32"
proof (induction acc data rule: sum_every_16bits.induct)
  case (1 acc a b rest)
  have "unat (be16 a b) < 2 ^ 16" using unsigned_less [of "be16 a b"] by simp
  then have "unat (ucast (be16 a b) :: u32) = 256 * unat a + unat b"
    by (simp add: unsigned_ucast_eq take_bit_nat_eq_self unat_be16)
  then have "unat (acc + ucast (be16 a b)) = (unat acc + (256 * unat a + unat b)) mod 2 ^ 32" by (simp add: unat_word_ariths)
  then show ?case using 1 by (simp only: sum_every_16bits.simps words16.simps sum_list.Cons mod_add_left_eq add.assoc)
next
  case (2 acc a)
  have "unat a < 256" using unsigned_less [of a] by simp
  then have "unat (push_bit 8 (ucast a) :: u32) = 256 * unat a"
    by (simp add: push_bit_eq_mult unat_word_ariths unsigned_ucast_eq take_bit_nat_eq_self)
  then show ?case by (simp add: unat_word_ariths)
next
  case (3 acc)
  have "unat acc < 2 ^ 32" using unsigned_less [of acc] by simp
  then show ?case by simp
qed

lemma checksum_unat:
  "unat (checksum data s) = 65535 - ones_sum ((unat s + sum_list (words16 data)) mod 2 ^ 32)"
proof -
  let ?f = "fold_sum (s + sum_every_16bits 0 data)"
  have f: "unat ?f = ones_sum ((unat s + sum_list (words16 data)) mod 2 ^ 32)"
    by (simp add: fold_sum_ones unat_word_ariths sum16_unat mod_simps)
  then have "unat (ucast ?f :: u16) = unat ?f" using ones_sum_le [of "(unat s + sum_list (words16 data)) mod 2 ^ 32"]
    by (simp add: unsigned_ucast_eq take_bit_nat_eq_self)
  moreover have "unat (NOT x) = 65535 - unat x" for x :: u16
  proof -
    have "NOT x = - 1 - x" by (simp add: not_eq_complement)
    moreover have "unat (- 1 :: u16) = 65535" by (simp add: unsigned_minus_1_eq_mask mask_eq_exp_minus_1)
    ultimately show ?thesis by (simp add: unat_sub)
  qed
  ultimately show ?thesis by (simp add: checksum_def f)
qed

lemma words16_bound: "2 * sum_list (words16 data) \<le> 65535 * (length data + 1)"
proof (induction data rule: words16.induct)
  case (1 a b rest)
  have "unat a < 256" "unat b < 256" using unsigned_less [of a] unsigned_less [of b] by simp_all
  with 1 show ?case by simp
next
  case (2 a)
  have "unat a < 256" using unsigned_less [of a] by simp
  then show ?case by simp
qed simp

section \<open>Properties\<close>

text \<open>
  C16: the checksum of at most 2^16 bytes with a start value of at most 2^31 is the one's complement of the one's
  complement sum of the 16-bit words (RFC 1071), the last odd byte padded with zero; the 32-bit sum does not overflow.
\<close>

theorem checksum_is_rfc1071:
  assumes "length data \<le> 2 ^ 16" "unat s \<le> 2 ^ 31"
  shows "unat (checksum data s) = rfc1071 (unat s # words16 data)"
proof -
  have "sum_list (words16 data) < 2 ^ 31"
    using words16_bound [of data] assms(1) by simp
  then have "(unat s + sum_list (words16 data)) mod 2 ^ 32 = unat s + sum_list (words16 data)"
    using assms(2) by simp
  then show ?thesis by (simp add: checksum_unat rfc1071_def)
qed

theorem checksum_is_rfc1071_witness:
  "unat (checksum [0x45, 0, 0, 0x1c] 0) = rfc1071 (0 # words16 [0x45, 0, 0, 0x1c])"
  using checksum_is_rfc1071 [of "[0x45, 0, 0, 0x1c]" 0] by simp

text \<open>The 32-bit accumulator holds the true sum up to a number of lost carries.\<close>

lemma ones_sum_carry:
  assumes "w < 65535" "u < 2 ^ 32"
  shows "ones_sum (u + w * 2 ^ 32) = ones_sum u \<longleftrightarrow> w = 0"
proof
  assume eq: "ones_sum (u + w * 2 ^ 32) = ones_sum u"
  have m: "(u + w * 2 ^ 32) mod 65535 = (u + w) mod 65535"
  proof -
    have "u + w * 2 ^ 32 = u + w + 65535 * (w * 65537)" by simp
    then show ?thesis by (metis mod_mult_self2)
  qed
  have os: "ones_sum t mod 65535 = t mod 65535" for t
    by (cases t) (simp_all add: ones_sum_def mod_Suc_eq)
  have "(u + w) mod 65535 = (u + 0) mod 65535" using os [of u] os [of "u + w * 2 ^ 32"] eq m by simp
  then have "w mod 65535 = 0 mod 65535"
  proof -
    have "(u + w + (65535 - u mod 65535)) mod 65535 = (u + 0 + (65535 - u mod 65535)) mod 65535"
      using \<open>(u + w) mod 65535 = (u + 0) mod 65535\<close> by (metis mod_add_left_eq)
    moreover have "(u + w + (65535 - u mod 65535)) mod 65535 = w mod 65535" for w
    proof -
      define q r where "q = u div 65535" and "r = u mod 65535"
      have "r < 65535" "65535 * q + r = u" by (simp_all add: q_def r_def)
      then have "u + w + (65535 - r) = w + 65535 * (q + 1)" by simp
      then have "u + w + (65535 - u mod 65535) = w + 65535 * (q + 1)" by (simp only: r_def)
      then show ?thesis by (metis mod_mult_self2)
    qed
    ultimately show ?thesis by metis
  qed
  then show "w = 0" using assms(1) by simp
qed simp

lemma pseudo_header_sum:
  "ones_sum (sum_list (pseudo_header saddr daddr proto len) + t) =
     ones_sum (unat saddr + unat daddr + unat proto + unat len + t)"
proof (rule ones_sum_cong)
  let ?a = "unat saddr" and ?b = "unat daddr"
  let ?s = "sum_list (pseudo_header saddr daddr proto len) + t"
  have d: "x = x div 2 ^ 16 + x mod 2 ^ 16 + 65535 * (x div 2 ^ 16)" for x :: nat
    using div_mult_mod_eq [of x "2 ^ 16"] by simp
  have "?a + ?b + unat proto + unat len + t = ?s + 65535 * (?a div 2 ^ 16 + ?b div 2 ^ 16)"
    unfolding pseudo_header_def using d [of ?a] d [of ?b] by simp
  then show "?s mod 65535 = (?a + ?b + unat proto + unat len + t) mod 65535" by (metis mod_mult_self2)
  show "?s = 0 \<longleftrightarrow> ?a + ?b + unat proto + unat len + t = 0"
    unfolding pseudo_header_def using d [of ?a] d [of ?b] by auto
qed

text \<open>
  C17: the UDP and TCP checksum adds both 32-bit addresses into a 32-bit accumulator and loses the carry. It is the
  checksum of the standard pseudo header exactly when the sum of the addresses, the protocol, the length and the data
  stays below 2^32; between two addresses such as 192.168.1.1 and 192.168.1.2 it is not.
\<close>

theorem tcp_udp_checksum_carry:
  assumes "length data = unat len"
  shows "unat (tcp_udp_checksum saddr daddr proto data len) = rfc1071 (pseudo_header saddr daddr proto len @ words16 data)
     \<longleftrightarrow> unat saddr + unat daddr + unat proto + unat len + sum_list (words16 data) < 2 ^ 32"
proof -
  let ?t = "unat saddr + unat daddr + unat proto + unat len + sum_list (words16 data)"
  have p: "unat proto < 2 ^ 8" and l: "unat len < 2 ^ 16" and a: "unat saddr < 2 ^ 32" and b: "unat daddr < 2 ^ 32"
    using unsigned_less [of proto] unsigned_less [of len] unsigned_less [of saddr] unsigned_less [of daddr] by simp_all
  have "unat (ucast proto :: u32) = unat proto" "unat (ucast len :: u32) = unat len"
    using p l by (simp_all add: unsigned_ucast_eq take_bit_nat_eq_self)
  then have s: "unat (saddr + daddr + ucast proto + ucast len) = (unat saddr + unat daddr + unat proto + unat len) mod 2 ^ 32"
    by (simp add: unat_word_ariths mod_simps)
  have c: "unat (tcp_udp_checksum saddr daddr proto data len) = 65535 - ones_sum (?t mod 2 ^ 32)"
    using assms by (simp only: tcp_udp_checksum_def checksum_unat s mod_add_left_eq take_all order_refl)
  have r: "rfc1071 (pseudo_header saddr daddr proto len @ words16 data) = 65535 - ones_sum ?t"
    by (simp add: rfc1071_def pseudo_header_sum)
  have "?t < 65535 * 2 ^ 32" using words16_bound [of data] assms p l a b by simp
  then have w: "?t div 2 ^ 32 < 65535" by (simp add: div_less_iff_less_mult)
  have t: "?t = ?t mod 2 ^ 32 + ?t div 2 ^ 32 * 2 ^ 32" by simp
  have "unat (tcp_udp_checksum saddr daddr proto data len) = rfc1071 (pseudo_header saddr daddr proto len @ words16 data)
      \<longleftrightarrow> ones_sum ?t = ones_sum (?t mod 2 ^ 32)"
    using c r ones_sum_le [of ?t] ones_sum_le [of "?t mod 2 ^ 32"] by linarith
  also have "\<dots> \<longleftrightarrow> ?t div 2 ^ 32 = 0"
    by (subst t) (rule ones_sum_carry [OF w], simp)
  also have "\<dots> \<longleftrightarrow> ?t < 2 ^ 32" by (simp add: div_eq_0_iff)
  finally show ?thesis .
qed

theorem tcp_udp_checksum_carry_witness:
  "unat (tcp_udp_checksum 0xc0a80101 0xc0a80102 17 [] 0) \<noteq> rfc1071 (pseudo_header 0xc0a80101 0xc0a80102 17 0 @ words16 [])"
  using tcp_udp_checksum_carry [of "[]" 0 "0xc0a80101" "0xc0a80102" 17] by simp

end
