(* ===== verification/Tcp.thy ===== *)
theory Tcp
  imports Checksum
begin

text \<open>
  TCP, src/kernel/lib/network/tcp: the segment header (tcp.h), sequence numbers (TcpSequence.cpp), the session
  (TcpSession.cpp) and its state objects (states). A session is a record; what it does to the rest of the kernel
  is kept in two lists of the record: the segments the IP layer took over and the events emitted to waiting threads.
\<close>

section \<open>Segments\<close>

record tcp_t =
  th_sport :: u16
  th_dport :: u16
  th_seq :: u32
  th_ack_seq :: u32
  th_hl :: u8
  th_rsvd :: u8
  th_flags :: u16
  th_win :: u16
  th_csum :: u16
  th_urp :: u16
  th_data :: "u8 list"

definition TCP_FLAGS_FIN :: u16 where "TCP_FLAGS_FIN = 1"
definition TCP_FLAGS_SYN :: u16 where "TCP_FLAGS_SYN = 2"
definition TCP_FLAGS_RESET :: u16 where "TCP_FLAGS_RESET = 4"
definition TCP_FLAGS_PUSH :: u16 where "TCP_FLAGS_PUSH = 8"
definition TCP_FLAGS_ACK :: u16 where "TCP_FLAGS_ACK = 16"

lemmas tcp_flags = TCP_FLAGS_FIN_def TCP_FLAGS_SYN_def TCP_FLAGS_RESET_def TCP_FLAGS_PUSH_def TCP_FLAGS_ACK_def

definition tcp_is_ack :: "tcp_t \<Rightarrow> bool" where
  "tcp_is_ack tcp = (th_flags tcp AND TCP_FLAGS_ACK \<noteq> 0)"

definition tcp_is_syn :: "tcp_t \<Rightarrow> bool" where
  "tcp_is_syn tcp = (th_flags tcp AND TCP_FLAGS_SYN \<noteq> 0)"

definition tcp_is_synack :: "tcp_t \<Rightarrow> bool" where
  "tcp_is_synack tcp = (tcp_is_syn tcp \<and> tcp_is_ack tcp)"

definition tcp_is_rst :: "tcp_t \<Rightarrow> bool" where
  "tcp_is_rst tcp = (th_flags tcp AND TCP_FLAGS_RESET \<noteq> 0)"

definition tcp_is_fin :: "tcp_t \<Rightarrow> bool" where
  "tcp_is_fin tcp = (th_flags tcp AND TCP_FLAGS_FIN \<noteq> 0)"

definition tcp_header_length :: "tcp_t \<Rightarrow> u16" where
  "tcp_header_length hdr = ucast (th_hl hdr) * 4"

text \<open>The length of the IP payload is the first argument; the difference wraps around.\<close>

definition tcp_data_length :: "u16 \<Rightarrow> tcp_t \<Rightarrow> u16" where
  "tcp_data_length ip_data_length tcp = ip_data_length - tcp_header_length tcp"

text \<open>The layout of the packed structure.\<close>

definition bytes16 :: "u16 \<Rightarrow> u8 list" where
  "bytes16 w = [ucast (drop_bit 8 w), ucast w]"

definition bytes32 :: "u32 \<Rightarrow> u8 list" where
  "bytes32 w = [ucast (drop_bit 24 w), ucast (drop_bit 16 w), ucast (drop_bit 8 w), ucast w]"

definition be32 :: "u8 \<Rightarrow> u8 \<Rightarrow> u8 \<Rightarrow> u8 \<Rightarrow> u32" where
  "be32 a b c d = push_bit 24 (ucast a) OR push_bit 16 (ucast b) OR push_bit 8 (ucast c) OR ucast d"

definition tcp_bytes :: "tcp_t \<Rightarrow> u8 list" where
  "tcp_bytes t =
     bytes16 (th_sport t) @ bytes16 (th_dport t) @ bytes32 (th_seq t) @ bytes32 (th_ack_seq t) @
     [push_bit 4 (th_hl t) OR push_bit 1 (th_rsvd t) OR ucast (drop_bit 8 (th_flags t)), ucast (th_flags t)] @
     bytes16 (th_win t) @ bytes16 (th_csum t) @ bytes16 (th_urp t) @ th_data t"

definition TCP_HDR :: nat where
  "TCP_HDR = 20"

fun tcp_parse :: "u8 list \<Rightarrow> tcp_t option" where
  "tcp_parse (s0 # s1 # d0 # d1 # q0 # q1 # q2 # q3 # a0 # a1 # a2 # a3 # h0 # h1 # w0 # w1 # c0 # c1 # u0 # u1 # rest) =
     Some \<lparr>th_sport = be16 s0 s1, th_dport = be16 d0 d1, th_seq = be32 q0 q1 q2 q3, th_ack_seq = be32 a0 a1 a2 a3,
           th_hl = drop_bit 4 h0, th_rsvd = drop_bit 1 h0 AND 7, th_flags = be16 (h0 AND 1) h1,
           th_win = be16 w0 w1, th_csum = be16 c0 c1, th_urp = be16 u0 u1, th_data = rest\<rparr>"
| "tcp_parse _ = None"

text \<open>\<open>tcp_checksum\<close>: over the bytes of the segment with a zero checksum, and the addresses of the IP header.\<close>

definition IPPROTO_TCP :: u8 where
  "IPPROTO_TCP = 6"

definition tcp_checksum :: "u32 \<Rightarrow> u32 \<Rightarrow> u16 \<Rightarrow> tcp_t \<Rightarrow> u16" where
  "tcp_checksum saddr daddr len t = tcp_udp_checksum saddr daddr IPPROTO_TCP (tcp_bytes (t\<lparr>th_csum := 0\<rparr>)) len"

section \<open>Sequence numbers\<close>

record TcpSequence =
  sq_sequence :: u32
  sq_prev :: u32

definition advance :: "u32 \<Rightarrow> TcpSequence \<Rightarrow> TcpSequence" where
  "advance bytes q = \<lparr>sq_sequence = sq_sequence q + bytes, sq_prev = sq_sequence q\<rparr>"

definition assign_seq :: "u32 \<Rightarrow> TcpSequence" where
  "assign_seq q = \<lparr>sq_sequence = q, sq_prev = 0\<rparr>"

section \<open>Sessions\<close>

datatype TcpStateEnum = Closed | SynSent | SynReceived | Established | Listening | FinSent | CloseWait | LastAck

text \<open>The state objects: \<open>TcpStateEstablished\<close> has a flag, \<open>TcpStateListening\<close> a queue of a given capacity.\<close>

datatype TcpState =
    TcpStateClosed
  | TcpStateSynSent
  | TcpStateSynReceived
  | TcpStateEstablished bool
  | TcpStateListening nat "nat list"
  | TcpStateFinSent
  | TcpStateCloseWait
  | TcpStateLastAck

fun state_enum :: "TcpState \<Rightarrow> TcpStateEnum" where
  "state_enum TcpStateClosed = Closed"
| "state_enum TcpStateSynSent = SynSent"
| "state_enum TcpStateSynReceived = SynReceived"
| "state_enum (TcpStateEstablished _) = Established"
| "state_enum (TcpStateListening _ _) = Listening"
| "state_enum TcpStateFinSent = FinSent"
| "state_enum TcpStateCloseWait = CloseWait"
| "state_enum TcpStateLastAck = LastAck"

fun has_second_stage :: "TcpState \<Rightarrow> bool" where
  "has_second_stage TcpStateSynReceived = True"
| "has_second_stage TcpStateFinSent = True"
| "has_second_stage TcpStateCloseWait = True"
| "has_second_stage _ = False"

record SocketAddress =
  sa_address :: u32
  sa_port :: u16

datatype tcp_event = StateChanged TcpStateEnum | InputEvent nat | OutputEvent nat

record TcpSession =
  s_state :: TcpState
  s_localPort :: u16
  s_remoteAddr :: SocketAddress
  s_seq :: TcpSequence
  s_receive_next_ack :: u32
  s_receive_window :: u16
  s_releasePortOnClose :: bool
  s_inputBuffer :: "u8 list"
  s_outputBuffer :: "u8 list"
  s_sent :: "tcp_t list"
  s_events :: "tcp_event list"

text \<open>
  What a session sees of the layers below: whether \<open>ip_alloc_nbuf\<close> has a buffer for a destination and a size, the
  source address it puts in the IP header, and whether \<open>ip_output\<close> takes a segment over.
\<close>

record tcp_env =
  nbuf_ok :: "u32 \<Rightarrow> nat \<Rightarrow> bool"
  local_ip :: "u32 \<Rightarrow> u32"
  ip_output_ok :: "tcp_t \<Rightarrow> bool"

definition new_TcpSession :: "u16 \<Rightarrow> SocketAddress \<Rightarrow> bool \<Rightarrow> TcpSession" where
  "new_TcpSession localPort remoteAddr releasePortOnClose =
     \<lparr>s_state = TcpStateClosed, s_localPort = localPort, s_remoteAddr = remoteAddr,
      s_seq = \<lparr>sq_sequence = 0, sq_prev = 0\<rparr>, s_receive_next_ack = 0, s_receive_window = 29200,
      s_releasePortOnClose = releasePortOnClose, s_inputBuffer = [], s_outputBuffer = [], s_sent = [], s_events = []\<rparr>"

definition session_state :: "TcpSession \<Rightarrow> TcpStateEnum" where
  "session_state s = state_enum (s_state s)"

definition is_seq_match :: "TcpSession \<Rightarrow> tcp_t \<Rightarrow> bool" where
  "is_seq_match s tcp = (th_ack_seq tcp = sq_sequence (s_seq s))"

definition emit :: "tcp_event \<Rightarrow> TcpSession \<Rightarrow> TcpSession" where
  "emit e s = s\<lparr>s_events := s_events s @ [e]\<rparr>"

subsection \<open>Sending\<close>

text \<open>The data area of the new buffer is not initialised by the code; the only caller that asks for one fills it.\<close>

definition tcp_alloc_nbuf :: "tcp_env \<Rightarrow> u16 \<Rightarrow> nat \<Rightarrow> TcpSession \<Rightarrow> tcp_t option \<times> TcpSession" where
  "tcp_alloc_nbuf env flags data_size s =
     (if \<not> nbuf_ok env (sa_address (s_remoteAddr s)) (TCP_HDR + data_size) then (None, s)
      else
        let tcp = \<lparr>th_sport = s_localPort s, th_dport = sa_port (s_remoteAddr s), th_seq = sq_sequence (s_seq s),
                   th_ack_seq = s_receive_next_ack s, th_hl = 5, th_rsvd = 0, th_flags = flags,
                   th_win = s_receive_window s, th_csum = 0, th_urp = 0, th_data = replicate data_size 0\<rparr>;
            q1 = advance (of_nat data_size) (s_seq s);
            q2 = (if flags AND TCP_FLAGS_SYN \<noteq> 0 then advance 1 q1 else q1);
            q3 = (if flags AND TCP_FLAGS_FIN \<noteq> 0 then advance 1 q2 else q2)
        in (Some tcp, s\<lparr>s_seq := q3\<rparr>))"

definition tcp_transmit :: "tcp_env \<Rightarrow> tcp_t \<Rightarrow> TcpSession \<Rightarrow> bool \<times> TcpSession" where
  "tcp_transmit env tcp s =
     (let daddr = sa_address (s_remoteAddr s);
          tcp' = (if th_csum tcp = 0
                  then tcp\<lparr>th_csum := tcp_checksum (local_ip env daddr) daddr (of_nat (TCP_HDR + length (th_data tcp))) tcp\<rparr>
                  else tcp)
      in if ip_output_ok env tcp' then (True, s\<lparr>s_sent := s_sent s @ [tcp']\<rparr>) else (False, s))"

definition send_plain :: "tcp_env \<Rightarrow> u16 \<Rightarrow> TcpSession \<Rightarrow> bool \<times> TcpSession" where
  "send_plain env flags s =
     (case tcp_alloc_nbuf env flags 0 s of
        (None, s1) \<Rightarrow> (False, s1)
      | (Some nbuf, s1) \<Rightarrow> tcp_transmit env nbuf s1)"

definition send_syn :: "tcp_env \<Rightarrow> TcpSession \<Rightarrow> bool \<times> TcpSession" where
  "send_syn env s = send_plain env TCP_FLAGS_SYN s"

definition send_ack :: "tcp_env \<Rightarrow> TcpSession \<Rightarrow> bool \<times> TcpSession" where
  "send_ack env s = send_plain env TCP_FLAGS_ACK s"

definition send_syn_ack :: "tcp_env \<Rightarrow> TcpSession \<Rightarrow> bool \<times> TcpSession" where
  "send_syn_ack env s = send_plain env (TCP_FLAGS_SYN OR TCP_FLAGS_ACK) s"

definition send_fin :: "tcp_env \<Rightarrow> TcpSession \<Rightarrow> bool \<times> TcpSession" where
  "send_fin env s = send_plain env (TCP_FLAGS_FIN OR TCP_FLAGS_ACK) s"

definition send_rst :: "tcp_env \<Rightarrow> tcp_t option \<Rightarrow> TcpSession \<Rightarrow> bool \<times> TcpSession" where
  "send_rst env packet s =
     (case tcp_alloc_nbuf env (TCP_FLAGS_ACK OR TCP_FLAGS_RESET) 0 s of
        (None, s1) \<Rightarrow> (False, s1)
      | (Some rst, s1) \<Rightarrow>
          (case packet of
             None \<Rightarrow> tcp_transmit env rst s1
           | Some pkt \<Rightarrow> tcp_transmit env (rst\<lparr>th_seq := 0, th_ack_seq := th_seq pkt + 1\<rparr>) s1))"

definition send_ack_push :: "tcp_env \<Rightarrow> u8 list \<Rightarrow> TcpSession \<Rightarrow> bool \<times> TcpSession" where
  "send_ack_push env buffer s =
     (let frameSize = min (length buffer) 1400 in
      case tcp_alloc_nbuf env (TCP_FLAGS_ACK OR TCP_FLAGS_PUSH) frameSize s of
        (None, s1) \<Rightarrow> (False, s1)
      | (Some nbuf, s1) \<Rightarrow> tcp_transmit env (nbuf\<lparr>th_data := take frameSize buffer\<rparr>) s1)"

subsection \<open>Buffers\<close>

definition push_input_bytes :: "u8 list \<Rightarrow> TcpSession \<Rightarrow> TcpSession" where
  "push_input_bytes buffer s =
     emit (InputEvent (length buffer))
       (s\<lparr>s_inputBuffer := s_inputBuffer s @ buffer, s_receive_next_ack := s_receive_next_ack s + of_nat (length buffer)\<rparr>)"

text \<open>Without waiting; the only caller does not wait.\<close>

definition pop_output_bytes :: "nat \<Rightarrow> TcpSession \<Rightarrow> u8 list \<times> TcpSession" where
  "pop_output_bytes sz s =
     (let avail_size = min (length (s_outputBuffer s)) sz
      in if avail_size = 0 then ([], s)
         else (take avail_size (s_outputBuffer s), s\<lparr>s_outputBuffer := drop avail_size (s_outputBuffer s)\<rparr>))"

text \<open>
  A read returns a status and bytes, or waits for the next input event, after which the loop is entered again.
\<close>

datatype read_result = ReadBytes "u8 list" | ReadError | ReadWaits

definition pop_input_bytes :: "nat \<Rightarrow> bool \<Rightarrow> TcpSession \<Rightarrow> read_result \<times> TcpSession" where
  "pop_input_bytes sz wait s =
     (if session_state s = Closed then (ReadBytes [], s)
      else if session_state s \<noteq> Established then (ReadError, s)
      else if s_inputBuffer s = [] \<and> wait then (ReadWaits, s)
      else let avail_size = min (length (s_inputBuffer s)) sz
           in (ReadBytes (take avail_size (s_inputBuffer s)), s\<lparr>s_inputBuffer := drop avail_size (s_inputBuffer s)\<rparr>))"

subsection \<open>States\<close>

text \<open>\<open>TcpStateEstablished::handle_output_trigger\<close>: the result, the flag \<open>_waiting_for_ack\<close> after it, the session.\<close>

definition established_output_trigger :: "tcp_env \<Rightarrow> bool \<Rightarrow> TcpSession \<Rightarrow> bool \<times> bool \<times> TcpSession" where
  "established_output_trigger env waiting s =
     (if waiting then (False, waiting, s)
      else case pop_output_bytes 1400 s of (buffer, s1) \<Rightarrow>
        if buffer = [] then (False, waiting, s1)
        else (True, True, snd (send_ack_push env buffer s1)))"

definition handle_output_trigger :: "tcp_env \<Rightarrow> TcpSession \<Rightarrow> bool \<times> TcpSession" where
  "handle_output_trigger env s =
     (case s_state s of
        TcpStateEstablished waiting \<Rightarrow>
          (case established_output_trigger env waiting s of
             (r, waiting', s1) \<Rightarrow> (r, s1\<lparr>s_state := TcpStateEstablished waiting'\<rparr>))
      | _ \<Rightarrow> (False, s))"

text \<open>The constructors of the states; each runs while the session is still in its old state.\<close>

definition new_TcpStateEstablished :: "tcp_env \<Rightarrow> TcpSession \<Rightarrow> TcpState \<times> TcpSession" where
  "new_TcpStateEstablished env s =
     (case established_output_trigger env False s of (_, waiting, s1) \<Rightarrow> (TcpStateEstablished waiting, s1))"

definition new_TcpStateSynSent :: "tcp_env \<Rightarrow> TcpSession \<Rightarrow> TcpState \<times> TcpSession" where
  "new_TcpStateSynSent env s = (TcpStateSynSent, snd (send_syn env s))"

definition new_TcpStateSynReceived :: "u32 \<Rightarrow> TcpSession \<Rightarrow> TcpState \<times> TcpSession" where
  "new_TcpStateSynReceived q s = (TcpStateSynReceived, s\<lparr>s_receive_next_ack := q + 1, s_seq := assign_seq 0\<rparr>)"

definition new_TcpStateCloseWait :: "tcp_env \<Rightarrow> TcpSession \<Rightarrow> TcpState \<times> TcpSession" where
  "new_TcpStateCloseWait env s =
     (TcpStateCloseWait, snd (send_fin env (s\<lparr>s_receive_next_ack := s_receive_next_ack s + 1\<rparr>)))"

definition new_TcpStateFinSent :: "tcp_env \<Rightarrow> TcpSession \<Rightarrow> TcpState \<times> TcpSession" where
  "new_TcpStateFinSent env s = (TcpStateFinSent, snd (send_fin env s))"

text \<open>
  \<open>TcpSession::set_state\<close> with \<open>handle_second_stage\<close> of the new state; the second stage of \<open>FinSent\<close> and \<open>CloseWait\<close> is
  itself a change of state.
\<close>

fun second_stages :: "TcpState \<Rightarrow> nat" where
  "second_stages TcpStateFinSent = 1"
| "second_stages TcpStateCloseWait = 1"
| "second_stages _ = 0"

function set_state :: "tcp_env \<Rightarrow> TcpState \<Rightarrow> TcpSession \<Rightarrow> TcpSession" where
  "set_state env newState s =
     (let notifyWaitingThreads = (session_state s = Established);
          s1 = emit (StateChanged (state_enum newState)) (s\<lparr>s_state := newState\<rparr>);
          s2 = (case newState of
                  TcpStateSynReceived \<Rightarrow> snd (send_syn_ack env s1)
                | TcpStateFinSent \<Rightarrow> set_state env TcpStateLastAck s1
                | TcpStateCloseWait \<Rightarrow> set_state env TcpStateLastAck s1
                | _ \<Rightarrow> s1)
      in if notifyWaitingThreads then emit (OutputEvent 0) (emit (InputEvent 0) s2) else s2)"
  by pat_completeness auto
termination by (relation "measure (\<lambda>(env, st, s). second_stages st)") auto

declare set_state.simps [simp del]

definition enter :: "tcp_env \<Rightarrow> TcpState \<times> TcpSession \<Rightarrow> TcpSession" where
  "enter env p = set_state env (fst p) (snd p)"

subsection \<open>Incoming segments\<close>

record tcp_packet =
  pk_saddr :: u32
  pk_daddr :: u32
  pk_ip_data_length :: u16
  pk_tcp :: tcp_t

definition synsent_incoming :: "tcp_env \<Rightarrow> tcp_packet \<Rightarrow> TcpSession \<Rightarrow> TcpSession" where
  "synsent_incoming env p s =
     (let tcp = pk_tcp p in
      if is_seq_match s tcp \<and> tcp_is_rst tcp then set_state env TcpStateClosed s
      else if \<not> tcp_is_synack tcp \<or> \<not> is_seq_match s tcp then set_state env TcpStateClosed s
      else
        let s1 = s\<lparr>s_receive_next_ack := th_seq tcp + 1\<rparr>;
            s2 = snd (send_ack env s1)
        in enter env (new_TcpStateEstablished env s2))"

definition synreceived_incoming :: "tcp_env \<Rightarrow> tcp_packet \<Rightarrow> TcpSession \<Rightarrow> TcpSession" where
  "synreceived_incoming env p s =
     (if is_seq_match s (pk_tcp p) \<and> tcp_is_ack (pk_tcp p) then enter env (new_TcpStateEstablished env s) else s)"

text \<open>The data pointer of the header is behind its 20 fixed bytes, whatever the header length field says. A packet that passed
  \<open>tcp_validate_packet\<close> has all the bytes the segment length counts, so taking that many of them cuts nothing.\<close>

definition established_incoming :: "tcp_env \<Rightarrow> tcp_packet \<Rightarrow> TcpSession \<Rightarrow> TcpSession" where
  "established_incoming env p s =
     (let tcp = pk_tcp p in
      if \<not> is_seq_match s tcp then s
      else if is_seq_match s tcp \<and> tcp_is_fin tcp then enter env (new_TcpStateCloseWait env s)
      else
        let s1 = s\<lparr>s_state := TcpStateEstablished False\<rparr>;
            data_size = tcp_data_length (pk_ip_data_length p) tcp
        in if data_size = 0 then snd (handle_output_trigger env s1)
           else
             let s2 = push_input_bytes (take (unat data_size) (th_data tcp)) s1
             in case handle_output_trigger env s2 of
                  (True, s3) \<Rightarrow> s3
                | (False, s3) \<Rightarrow> snd (send_ack env s3))"

definition lastack_incoming :: "tcp_env \<Rightarrow> tcp_packet \<Rightarrow> TcpSession \<Rightarrow> TcpSession" where
  "lastack_incoming env p s =
     (if \<not> tcp_is_ack (pk_tcp p) \<or> \<not> is_seq_match s (pk_tcp p) then s
      else set_state env TcpStateClosed (snd (send_ack env s)))"

text \<open>
  \<open>TcpStateListening\<close> answers a segment that is not a plain SYN with a reset, and asks for a new descriptor for a SYN.
\<close>

definition listening_incoming ::
  "tcp_env \<Rightarrow> tcp_packet \<Rightarrow> TcpSession \<Rightarrow> TcpSession \<times> (SocketAddress \<times> u32) option" where
  "listening_incoming env p s =
     (if th_flags (pk_tcp p) \<noteq> TCP_FLAGS_SYN then (snd (send_rst env (Some (pk_tcp p)) s), None)
      else (s, Some (\<lparr>sa_address = pk_saddr p, sa_port = th_sport (pk_tcp p)\<rparr>, th_seq (pk_tcp p))))"

definition handle_incoming_segment ::
  "tcp_env \<Rightarrow> tcp_packet \<Rightarrow> TcpSession \<Rightarrow> TcpSession \<times> (SocketAddress \<times> u32) option" where
  "handle_incoming_segment env p s =
     (case s_state s of
        TcpStateClosed \<Rightarrow> (snd (send_rst env (Some (pk_tcp p)) s), None)
      | TcpStateSynSent \<Rightarrow> (synsent_incoming env p s, None)
      | TcpStateSynReceived \<Rightarrow> (synreceived_incoming env p s, None)
      | TcpStateEstablished _ \<Rightarrow> (established_incoming env p s, None)
      | TcpStateListening _ _ \<Rightarrow> listening_incoming env p s
      | TcpStateFinSent \<Rightarrow> (s, None)
      | TcpStateCloseWait \<Rightarrow> (s, None)
      | TcpStateLastAck \<Rightarrow> (lastack_incoming env p s, None))"

subsection \<open>The rest of the session\<close>

definition push_output_bytes :: "tcp_env \<Rightarrow> u8 list \<Rightarrow> TcpSession \<Rightarrow> TcpSession" where
  "push_output_bytes env buffer s =
     snd (handle_output_trigger env (emit (OutputEvent (length buffer)) (s\<lparr>s_outputBuffer := s_outputBuffer s @ buffer\<rparr>)))"

definition createTcpClient :: "tcp_env \<Rightarrow> u16 \<Rightarrow> SocketAddress \<Rightarrow> TcpSession" where
  "createTcpClient env localPort remoteAddr = enter env (new_TcpStateSynSent env (new_TcpSession localPort remoteAddr True))"

definition createTcpRejector :: "u16 \<Rightarrow> SocketAddress \<Rightarrow> TcpSession" where
  "createTcpRejector localPort remoteAddr = new_TcpSession localPort remoteAddr False"

definition createTcpServer :: "tcp_env \<Rightarrow> u16 \<Rightarrow> nat \<Rightarrow> TcpSession" where
  "createTcpServer env localPort backlog =
     set_state env (TcpStateListening backlog []) (new_TcpSession localPort \<lparr>sa_address = 0, sa_port = 0\<rparr> True)"

definition createTcpClientAcceptor :: "tcp_env \<Rightarrow> u16 \<Rightarrow> SocketAddress \<Rightarrow> u32 \<Rightarrow> TcpSession" where
  "createTcpClientAcceptor env localPort remoteAddr q =
     enter env (new_TcpStateSynReceived q (new_TcpSession localPort remoteAddr False))"

text \<open>
  \<open>close\<close>: \<open>Inl\<close> waits for the next change of state and goes on with \<open>close_resume\<close>; the last component of \<open>Inr\<close> is
  the port to release.
\<close>

definition close_resume :: "TcpSession \<Rightarrow> TcpSession \<times> u16 option" where
  "close_resume s =
     (s\<lparr>s_receive_next_ack := 0, s_receive_window := 0, s_localPort := 0,
        s_remoteAddr := \<lparr>sa_address = 0, sa_port = 0\<rparr>\<rparr>,
      if s_localPort s \<noteq> 0 \<and> s_releasePortOnClose s then Some (s_localPort s) else None)"

definition TcpSession_close :: "tcp_env \<Rightarrow> TcpSession \<Rightarrow> TcpSession + (TcpSession \<times> u16 option)" where
  "TcpSession_close env s =
     (if session_state s \<noteq> Closed then Inl (enter env (new_TcpStateFinSent env s)) else Inr (close_resume s))"

text \<open>\<open>poll\<close>: \<open>None\<close> is an error; otherwise the values stored for reading and writing, if any.\<close>

definition TcpSession_poll :: "TcpSession \<Rightarrow> (bool option \<times> bool option) option" where
  "TcpSession_poll s =
     (case s_state s of
        TcpStateEstablished _ \<Rightarrow>
          Some (Some (s_inputBuffer s \<noteq> []), Some (length (s_outputBuffer s) < unat (s_receive_window s)))
      | TcpStateListening _ q \<Rightarrow> Some (Some (q \<noteq> []), None)
      | _ \<Rightarrow> None)"

end
