(* ===== verification/Tcp_Socket.thy ===== *)
theory Tcp_Socket
  imports Tcp
begin

text \<open>
  The TCP file descriptors (tcp_socket.cpp), the tables of descriptors and ports (tcp_sessions.cpp) and the input task
  (tcp_in_task.cpp). Descriptors are objects that the table, the accept queues and the processes share, so they live in
  a store and are named by a number.
\<close>

section \<open>State\<close>

record TcpFileDescriptor =
  fd_localPort :: u16
  fd_remoteAddr :: SocketAddress
  fd_session :: "TcpSession option"
  fd_blocking_state :: int

record tcp_world =
  w_fds :: "nat \<rightharpoonup> TcpFileDescriptor"
  w_next :: nat
  w_tcpSessions :: "nat list"
  w_tcpPorts :: "u16 set"
  w_basePort :: u16
  w_inSegments :: "(u32 \<times> u32 \<times> u16 \<times> u8 list) list"

text \<open>A thread goes on, waits for an event of a session, or stops on a fault.\<close>

datatype 'a run = Done 'a | Blocks 'a | Crash fault

abbreviation no_addr :: SocketAddress where
  "no_addr \<equiv> \<lparr>sa_address = 0, sa_port = 0\<rparr>"

section \<open>Tables\<close>

definition registerTcpDescriptor :: "nat \<Rightarrow> tcp_world \<Rightarrow> tcp_world" where
  "registerTcpDescriptor i w = w\<lparr>w_tcpSessions := w_tcpSessions w @ [i]\<rparr>"

definition removeTcpDescriptor :: "nat \<Rightarrow> tcp_world \<Rightarrow> tcp_world" where
  "removeTcpDescriptor i w = w\<lparr>w_tcpSessions := remove1 i (w_tcpSessions w)\<rparr>"

definition is_listening :: "TcpFileDescriptor \<Rightarrow> bool" where
  "is_listening fd = (case fd_session fd of None \<Rightarrow> False | Some s \<Rightarrow> session_state s = Listening)"

definition is_connected :: "TcpFileDescriptor \<Rightarrow> bool" where
  "is_connected fd = (case fd_session fd of None \<Rightarrow> False | Some s \<Rightarrow> session_state s = Established)"

definition active_match :: "SocketAddress \<Rightarrow> SocketAddress \<Rightarrow> TcpFileDescriptor \<Rightarrow> bool" where
  "active_match localEP remoteEP fd = (fd_localPort fd = sa_port localEP \<and> fd_remoteAddr fd = remoteEP)"

definition listening_match :: "SocketAddress \<Rightarrow> TcpFileDescriptor \<Rightarrow> bool" where
  "listening_match localEP fd = (is_listening fd \<and> fd_localPort fd = sa_port localEP)"

definition fd_sat :: "tcp_world \<Rightarrow> (TcpFileDescriptor \<Rightarrow> bool) \<Rightarrow> nat \<Rightarrow> bool" where
  "fd_sat w P i = (case w_fds w i of None \<Rightarrow> False | Some fd \<Rightarrow> P fd)"

definition getTcpDescriptorByFourTuple :: "SocketAddress \<Rightarrow> SocketAddress \<Rightarrow> tcp_world \<Rightarrow> nat option" where
  "getTcpDescriptorByFourTuple localEP remoteEP w =
     (case find (fd_sat w (active_match localEP remoteEP)) (w_tcpSessions w) of
        Some i \<Rightarrow> Some i
      | None \<Rightarrow> find (fd_sat w (listening_match localEP)) (w_tcpSessions w))"

text \<open>The search for a free port from \<open>i\<close>; the limit \<open>UINT16_MAX\<close> is not tried.\<close>

function free_port :: "u16 set \<Rightarrow> nat \<Rightarrow> nat option" where
  "free_port ports i = (if i < 65535 then (if of_nat i \<notin> ports then Some i else free_port ports (Suc i)) else None)"
  by pat_completeness auto
termination by (relation "measure (\<lambda>(ports, i). 65535 - i)") auto

declare free_port.simps [simp del]

text \<open>\<open>rnd\<close> is what \<open>rand () % UINT16_MAX\<close> gives.\<close>

definition allocatePort :: "u16 \<Rightarrow> u16 \<Rightarrow> tcp_world \<Rightarrow> u16 \<times> tcp_world" where
  "allocatePort rnd port w =
     (let w1 = (if w_basePort w = 0 then w\<lparr>w_basePort := max 10000 rnd\<rparr> else w) in
      if port \<noteq> 0 then
        (if port \<notin> w_tcpPorts w1 then (port, w1\<lparr>w_tcpPorts := insert port (w_tcpPorts w1)\<rparr>) else (0, w1))
      else
        (case free_port (w_tcpPorts w1) (unat (w_basePort w1)) of
           Some i \<Rightarrow> (of_nat i, w1\<lparr>w_tcpPorts := insert (of_nat i) (w_tcpPorts w1)\<rparr>)
         | None \<Rightarrow> (0, w1)))"

definition releasePort :: "u16 \<Rightarrow> tcp_world \<Rightarrow> bool \<times> tcp_world" where
  "releasePort port w = (port \<in> w_tcpPorts w, w\<lparr>w_tcpPorts := w_tcpPorts w - {port}\<rparr>)"

section \<open>Descriptors\<close>

definition put_fd :: "nat \<Rightarrow> TcpFileDescriptor \<Rightarrow> tcp_world \<Rightarrow> tcp_world" where
  "put_fd i fd w = w\<lparr>w_fds := (w_fds w)(i \<mapsto> fd)\<rparr>"

definition new_fd :: "TcpFileDescriptor \<Rightarrow> tcp_world \<Rightarrow> nat \<times> tcp_world" where
  "new_fd fd w = (w_next w, registerTcpDescriptor (w_next w) ((put_fd (w_next w) fd w)\<lparr>w_next := w_next w + 1\<rparr>))"

definition createPlainDescriptor :: "tcp_world \<Rightarrow> nat \<times> tcp_world" where
  "createPlainDescriptor w =
     new_fd \<lparr>fd_localPort = 0, fd_remoteAddr = no_addr, fd_session = None, fd_blocking_state = 1\<rparr> w"

definition createRejectingDescriptor :: "u16 \<Rightarrow> SocketAddress \<Rightarrow> tcp_world \<Rightarrow> nat \<times> tcp_world" where
  "createRejectingDescriptor localPort remoteAddr w =
     new_fd \<lparr>fd_localPort = localPort, fd_remoteAddr = remoteAddr,
             fd_session = Some (createTcpRejector localPort remoteAddr), fd_blocking_state = 1\<rparr> w"

definition createListeningDescriptor :: "tcp_env \<Rightarrow> u16 \<Rightarrow> SocketAddress \<Rightarrow> u32 \<Rightarrow> tcp_world \<Rightarrow> nat \<times> tcp_world" where
  "createListeningDescriptor env localPort remoteAddr q w =
     new_fd \<lparr>fd_localPort = localPort, fd_remoteAddr = remoteAddr,
             fd_session = Some (createTcpClientAcceptor env localPort remoteAddr q), fd_blocking_state = 1\<rparr> w"

definition release_opt :: "u16 option \<Rightarrow> tcp_world \<Rightarrow> tcp_world" where
  "release_opt p w = (case p of None \<Rightarrow> w | Some port \<Rightarrow> snd (releasePort port w))"

text \<open>\<open>TcpFileDescriptor::close\<close>; after a wait the thread goes on with \<open>fd_close_resume\<close>.\<close>

definition fd_close_resume :: "nat \<Rightarrow> tcp_world \<Rightarrow> tcp_world" where
  "fd_close_resume i w =
     (case w_fds w i of
        None \<Rightarrow> w
      | Some fd \<Rightarrow>
          (case fd_session fd of
             None \<Rightarrow> put_fd i (fd\<lparr>fd_localPort := 0, fd_remoteAddr := no_addr\<rparr>) w
           | Some s \<Rightarrow>
               (case close_resume s of
                  (s1, p) \<Rightarrow>
                    release_opt p
                      (put_fd i (fd\<lparr>fd_session := Some s1, fd_localPort := 0, fd_remoteAddr := no_addr\<rparr>) w))))"

definition fd_close :: "tcp_env \<Rightarrow> nat \<Rightarrow> tcp_world \<Rightarrow> tcp_world run" where
  "fd_close env i w =
     (case w_fds w i of
        None \<Rightarrow> Crash (Undefined ''no descriptor'')
      | Some fd \<Rightarrow>
          (case fd_session fd of
             None \<Rightarrow> Done (fd_close_resume i w)
           | Some s \<Rightarrow>
               (case TcpSession_close env s of
                  Inl s1 \<Rightarrow> Blocks (put_fd i (fd\<lparr>fd_session := Some s1\<rparr>) w)
                | Inr _ \<Rightarrow> Done (fd_close_resume i w))))"

text \<open>The destructor: close, leave the table, destroy the session (whose own close finds it closed).\<close>

definition destroy_fd :: "tcp_env \<Rightarrow> nat \<Rightarrow> tcp_world \<Rightarrow> tcp_world run" where
  "destroy_fd env i w =
     (case fd_close env i w of
        Done w1 \<Rightarrow> Done ((removeTcpDescriptor i w1)\<lparr>w_fds := (w_fds w1)(i := None)\<rparr>)
      | Blocks w1 \<Rightarrow> Blocks w1
      | Crash e \<Rightarrow> Crash e)"

section \<open>System calls on a descriptor\<close>

text \<open>Results of the calls: the C return value, with the bytes read where there are any.\<close>

definition EINPROGRESS :: int where
  "EINPROGRESS = 119"

definition fd_read :: "nat \<Rightarrow> TcpFileDescriptor \<Rightarrow> read_result \<times> TcpFileDescriptor" where
  "fd_read sz fd =
     (case fd_session fd of
        None \<Rightarrow> (ReadBytes [], fd)
      | Some s \<Rightarrow>
          if \<not> is_connected fd then (ReadBytes [], fd)
          else (case pop_input_bytes sz (fd_blocking_state fd = 1) s of (r, s1) \<Rightarrow> (r, fd\<lparr>fd_session := Some s1\<rparr>)))"

definition fd_recvfrom :: "nat \<Rightarrow> TcpFileDescriptor \<Rightarrow> read_result \<times> SocketAddress option \<times> TcpFileDescriptor" where
  "fd_recvfrom sz fd =
     (case fd_read sz fd of
        (ReadError, fd1) \<Rightarrow> (ReadError, None, fd1)
      | (ReadBytes bs, fd1) \<Rightarrow> (ReadBytes bs, Some (fd_remoteAddr fd1), fd1)
      | (ReadWaits, fd1) \<Rightarrow> (ReadWaits, None, fd1))"

definition fd_write :: "tcp_env \<Rightarrow> u8 list \<Rightarrow> TcpFileDescriptor \<Rightarrow> int \<times> TcpFileDescriptor" where
  "fd_write env buffer fd =
     (case fd_session fd of
        None \<Rightarrow> (0, fd)
      | Some s \<Rightarrow>
          if \<not> is_connected fd then (0, fd)
          else (int (length buffer), fd\<lparr>fd_session := Some (push_output_bytes env buffer s)\<rparr>))"

definition fd_sendto :: "tcp_env \<Rightarrow> u8 list \<Rightarrow> SocketAddress \<Rightarrow> TcpFileDescriptor \<Rightarrow> int \<times> TcpFileDescriptor" where
  "fd_sendto env buffer address fd =
     (if sa_address address \<noteq> sa_address (fd_remoteAddr fd) \<or> sa_port address \<noteq> sa_port (fd_remoteAddr fd) then (-1, fd)
      else fd_write env buffer fd)"

definition fd_bind :: "u16 \<Rightarrow> SocketAddress \<Rightarrow> nat \<Rightarrow> tcp_world \<Rightarrow> int \<times> tcp_world" where
  "fd_bind rnd addr i w =
     (if sa_address addr \<noteq> 0 then (-1, w)
      else case allocatePort rnd (sa_port addr) w of (port, w1) \<Rightarrow>
        if port = 0 then (-1, w1)
        else case w_fds w1 i of
               None \<Rightarrow> (-1, w1)
             | Some fd \<Rightarrow> (0, put_fd i (fd\<lparr>fd_localPort := port\<rparr>) w1))"

definition bind_if_needed :: "u16 \<Rightarrow> nat \<Rightarrow> tcp_world \<Rightarrow> int \<times> tcp_world" where
  "bind_if_needed rnd i w =
     (case w_fds w i of
        None \<Rightarrow> (-1, w)
      | Some fd \<Rightarrow> if fd_localPort fd = 0 then fd_bind rnd no_addr i w else (0, w))"

text \<open>\<open>ok\<close>: the session object can be allocated.\<close>

definition fd_listen :: "tcp_env \<Rightarrow> bool \<Rightarrow> u16 \<Rightarrow> nat \<Rightarrow> nat \<Rightarrow> tcp_world \<Rightarrow> int \<times> tcp_world" where
  "fd_listen env ok rnd backlog i w =
     (case w_fds w i of
        None \<Rightarrow> (-1, w)
      | Some fd \<Rightarrow>
          if fd_session fd \<noteq> None then (-1, w)
          else case bind_if_needed rnd i w of (r, w1) \<Rightarrow>
            if r \<noteq> 0 then (-1, w1)
            else if \<not> ok then (-1, w1)
            else case w_fds w1 i of
                   None \<Rightarrow> (-1, w1)
                 | Some fd1 \<Rightarrow>
                     (0, put_fd i (fd1\<lparr>fd_session := Some (createTcpServer env (fd_localPort fd1) backlog)\<rparr>) w1))"

text \<open>
  \<open>connect\<close>: a blocking call waits for the next change of state; then its result is that of \<open>connect_resume\<close>.
\<close>

datatype connect_result = ConnectReturns int | ConnectWaits

definition fd_connect ::
  "tcp_env \<Rightarrow> bool \<Rightarrow> u16 \<Rightarrow> SocketAddress \<Rightarrow> nat \<Rightarrow> tcp_world \<Rightarrow> connect_result \<times> tcp_world" where
  "fd_connect env ok rnd addr i w =
     (case w_fds w i of
        None \<Rightarrow> (ConnectReturns (-1), w)
      | Some fd \<Rightarrow>
          if fd_session fd \<noteq> None then (ConnectReturns (-1), w)
          else if sa_address addr = 0 \<or> sa_port addr = 0 then (ConnectReturns (-1), w)
          else case bind_if_needed rnd i w of (r, w1) \<Rightarrow>
            if r \<noteq> 0 then (ConnectReturns (-1), w1)
            else case w_fds w1 i of
                   None \<Rightarrow> (ConnectReturns (-1), w1)
                 | Some fd1 \<Rightarrow>
                     let fd2 = fd1\<lparr>fd_remoteAddr := addr\<rparr>
                     in if \<not> ok then (ConnectReturns (-1), put_fd i fd2 w1)
                        else
                          let w2 = put_fd i (fd2\<lparr>fd_session := Some (createTcpClient env (fd_localPort fd2) addr)\<rparr>) w1
                          in if fd_blocking_state fd2 = 0 then (ConnectReturns (- EINPROGRESS), w2)
                             else (ConnectWaits, w2))"

definition connect_resume :: "TcpStateEnum \<Rightarrow> int" where
  "connect_resume new_state = (if new_state = Established then 0 else -1)"

definition fd_poll :: "TcpFileDescriptor \<Rightarrow> (bool option \<times> bool option) option" where
  "fd_poll fd = (case fd_session fd of None \<Rightarrow> None | Some s \<Rightarrow> TcpSession_poll s)"

text \<open>
  \<open>accept\<close>: \<open>getNewClientFd\<close> pops descriptors until one is connected. The result is that descriptor, no descriptor
  (\<open>AcceptNone\<close>), or a wait: for a new client, or for the next change of state of the client popped.
\<close>

datatype accept_result = AcceptFd nat | AcceptNone | AcceptWaitsQueue | AcceptWaitsClient nat

fun getNewClientFd :: "bool \<Rightarrow> tcp_world \<Rightarrow> nat list \<Rightarrow> accept_result \<times> nat list" where
  "getNewClientFd wait w [] = (if wait then AcceptWaitsQueue else AcceptNone, [])"
| "getNewClientFd wait w (c # q) =
     (case w_fds w c of
        None \<Rightarrow> getNewClientFd wait w q
      | Some fd \<Rightarrow>
          if fd_session fd = None then getNewClientFd wait w q
          else if is_connected fd then (AcceptFd c, q)
          else (AcceptWaitsClient c, q))"

definition fd_accept :: "nat \<Rightarrow> tcp_world \<Rightarrow> accept_result \<times> tcp_world" where
  "fd_accept i w =
     (case w_fds w i of
        None \<Rightarrow> (AcceptNone, w)
      | Some fd \<Rightarrow>
          (case fd_session fd of
             None \<Rightarrow> (AcceptNone, w)
           | Some s \<Rightarrow>
               (case s_state s of
                  TcpStateListening cap q \<Rightarrow>
                    (case getNewClientFd (fd_blocking_state fd = 1) w q of
                       (r, q1) \<Rightarrow> (r, put_fd i (fd\<lparr>fd_session := Some (s\<lparr>s_state := TcpStateListening cap q1\<rparr>)\<rparr>) w))
                | _ \<Rightarrow> (AcceptNone, w))))"

section \<open>The input task\<close>

text \<open>A packet as \<open>ip_input\<close> hands it over: addresses, length of the IP payload, bytes from the TCP header on.\<close>

definition tcp_cast :: "u32 \<times> u32 \<times> u16 \<times> u8 list \<Rightarrow> tcp_packet option" where
  "tcp_cast pkt =
     (case pkt of (saddr, daddr, dlen, bytes) \<Rightarrow>
        map_option (\<lambda>tcp. \<lparr>pk_saddr = saddr, pk_daddr = daddr, pk_ip_data_length = dlen, pk_tcp = tcp\<rparr>) (tcp_parse bytes))"

definition tcp_validate_packet :: "u32 \<times> u32 \<times> u16 \<times> u8 list \<Rightarrow> bool" where
  "tcp_validate_packet pkt =
     (case tcp_cast pkt of
        None \<Rightarrow> False
      | Some p \<Rightarrow>
          if length (th_data (pk_tcp p)) < unat (tcp_data_length (pk_ip_data_length p) (pk_tcp p)) then False
          else if th_csum (pk_tcp p) \<noteq> tcp_checksum (pk_saddr p) (pk_daddr p) (pk_ip_data_length p) (pk_tcp p) then False
          else True)"

definition tcp_input :: "u32 \<times> u32 \<times> u16 \<times> u8 list \<Rightarrow> tcp_world \<Rightarrow> int \<times> tcp_world" where
  "tcp_input pkt w =
     (if \<not> tcp_validate_packet pkt then (-1, w)
      else if length (w_inSegments w) = 150 then (-1, w)
      else (0, w\<lparr>w_inSegments := w_inSegments w @ [pkt]\<rparr>))"

text \<open>
  The queue of a listening session is full: the new descriptor is not moved into it and is destroyed at the end of the
  handler.
\<close>

definition accept_client ::
  "tcp_env \<Rightarrow> nat \<Rightarrow> TcpFileDescriptor \<Rightarrow> TcpSession \<Rightarrow> SocketAddress \<Rightarrow> u32 \<Rightarrow> tcp_world \<Rightarrow> tcp_world run" where
  "accept_client env i fd s remote q w =
     (case s_state s of
        TcpStateListening cap queue \<Rightarrow>
          (case createListeningDescriptor env (s_localPort s) remote q w of
             (c, w1) \<Rightarrow>
               if cap = length queue then destroy_fd env c w1
               else Done (put_fd i (fd\<lparr>fd_session := Some (s\<lparr>s_state := TcpStateListening cap (queue @ [c])\<rparr>)\<rparr>) w1))
      | _ \<Rightarrow> Done w)"

definition process_in_segment :: "tcp_env \<Rightarrow> tcp_packet \<Rightarrow> nat \<Rightarrow> tcp_world \<Rightarrow> tcp_world run" where
  "process_in_segment env p i w =
     (case w_fds w i of
        None \<Rightarrow> Crash (Undefined ''no descriptor'')
      | Some fd \<Rightarrow>
          (case fd_session fd of
             None \<Rightarrow> Crash (Undefined ''descriptor without session'')
           | Some s \<Rightarrow>
               (case handle_incoming_segment env p s of
                  (s1, None) \<Rightarrow> Done (put_fd i (fd\<lparr>fd_session := Some s1\<rparr>) w)
                | (s1, Some (remote, q)) \<Rightarrow> accept_client env i fd s1 remote q w)))"

text \<open>One turn of the loop of \<open>tcp_in_main\<close>.\<close>

definition tcp_in_turn :: "tcp_env \<Rightarrow> tcp_world \<Rightarrow> tcp_world run" where
  "tcp_in_turn env w =
     (case w_inSegments w of
        [] \<Rightarrow> Blocks w
      | pkt # rest \<Rightarrow>
          (case tcp_cast pkt of
             None \<Rightarrow> Crash (Undefined ''short segment'')
           | Some p \<Rightarrow>
               let w1 = w\<lparr>w_inSegments := rest\<rparr>;
                   localEP = \<lparr>sa_address = pk_daddr p, sa_port = th_dport (pk_tcp p)\<rparr>;
                   remoteEP = \<lparr>sa_address = pk_saddr p, sa_port = th_sport (pk_tcp p)\<rparr>
               in case getTcpDescriptorByFourTuple localEP remoteEP w1 of
                    Some i \<Rightarrow> process_in_segment env p i w1
                  | None \<Rightarrow>
                      (case createRejectingDescriptor (sa_port localEP) remoteEP w1 of
                         (i, w2) \<Rightarrow>
                           (case process_in_segment env p i w2 of
                              Done w3 \<Rightarrow> destroy_fd env i w3
                            | Blocks w3 \<Rightarrow> Blocks w3
                            | Crash e \<Rightarrow> Crash e))))"

end
