(* ===== verification/Tcp_Props.thy ===== *)
theory Tcp_Props
  imports Tcp_Socket "HOL-Library.Sublist"
begin

text \<open>
  What the TCP sessions guarantee: the bytes written are the bytes sent, in order and numbered without gaps; the bytes
  read are the payloads accepted; the handshake and a transfer between two sessions succeed; states change only along
  the edges of the state machine.
\<close>

section \<open>Effects of sending\<close>

text \<open>The layers below take every segment.\<close>

definition env_ok :: "tcp_env \<Rightarrow> bool" where
  "env_ok env \<longleftrightarrow> (\<forall>a n. nbuf_ok env a n) \<and> (\<forall>t. ip_output_ok env t)"

definition seg_len :: "tcp_t \<Rightarrow> nat" where
  "seg_len t = length (th_data t) + (if tcp_is_syn t then 1 else 0) + (if tcp_is_fin t then 1 else 0)"

text \<open>Setting the checksum.\<close>

definition summed :: "tcp_env \<Rightarrow> TcpSession \<Rightarrow> tcp_t \<Rightarrow> tcp_t" where
  "summed env s t =
     (if th_csum t = 0
      then t\<lparr>th_csum := tcp_checksum (local_ip env (sa_address (s_remoteAddr s))) (sa_address (s_remoteAddr s))
                           (of_nat (TCP_HDR + length (th_data t))) t\<rparr>
      else t)"

lemma summed_fields [simp]:
  "th_sport (summed env s t) = th_sport t" "th_dport (summed env s t) = th_dport t" "th_seq (summed env s t) = th_seq t"
  "th_ack_seq (summed env s t) = th_ack_seq t" "th_hl (summed env s t) = th_hl t" "th_flags (summed env s t) = th_flags t"
  "th_data (summed env s t) = th_data t" "th_win (summed env s t) = th_win t" "th_rsvd (summed env s t) = th_rsvd t"
  by (simp_all add: summed_def)

lemma flags_summed [simp]:
  "tcp_is_syn (summed env s t) = tcp_is_syn t" "tcp_is_fin (summed env s t) = tcp_is_fin t"
  "tcp_is_rst (summed env s t) = tcp_is_rst t" "tcp_is_ack (summed env s t) = tcp_is_ack t" "seg_len (summed env s t) = seg_len t"
  by (simp_all add: tcp_is_syn_def tcp_is_fin_def tcp_is_rst_def tcp_is_ack_def seg_len_def)

lemma transmit_ok: "env_ok env \<Longrightarrow> tcp_transmit env t s = (True, s\<lparr>s_sent := s_sent s @ [summed env s t]\<rparr>)"
  by (simp add: tcp_transmit_def env_ok_def summed_def Let_def)

text \<open>The segment \<open>tcp_alloc_nbuf\<close> prepares, with its data.\<close>

definition fresh_seg :: "u16 \<Rightarrow> u8 list \<Rightarrow> TcpSession \<Rightarrow> tcp_t" where
  "fresh_seg flags bytes s =
     \<lparr>th_sport = s_localPort s, th_dport = sa_port (s_remoteAddr s), th_seq = sq_sequence (s_seq s),
      th_ack_seq = s_receive_next_ack s, th_hl = 5, th_rsvd = 0, th_flags = flags,
      th_win = s_receive_window s, th_csum = 0, th_urp = 0, th_data = bytes\<rparr>"

lemma alloc_ok:
  assumes "env_ok env"
  shows "\<exists>q. tcp_alloc_nbuf env flags n s = (Some (fresh_seg flags (replicate n 0) s), s\<lparr>s_seq := q\<rparr>) \<and>
             sq_sequence q = sq_sequence (s_seq s) + of_nat (seg_len (fresh_seg flags (replicate n 0) s))"
  using assms
  by (auto simp: tcp_alloc_nbuf_def env_ok_def fresh_seg_def Let_def seg_len_def tcp_is_syn_def tcp_is_fin_def advance_def)

text \<open>Sending a segment: it is appended to the segments sent, and the sequence number moves past it.\<close>

definition sends :: "tcp_env \<Rightarrow> tcp_t \<Rightarrow> TcpSession \<Rightarrow> TcpSession \<Rightarrow> bool" where
  "sends env t s s' \<longleftrightarrow>
     (\<exists>q. s' = s\<lparr>s_seq := q, s_sent := s_sent s @ [summed env s t]\<rparr> \<and> sq_sequence q = sq_sequence (s_seq s) + of_nat (seg_len t))"

lemma sends_plain:
  assumes "env_ok env" shows "sends env (fresh_seg flags [] s) s (snd (send_plain env flags s))"
  using alloc_ok [OF assms, of flags 0 s] transmit_ok [OF assms]
  by (auto simp: send_plain_def sends_def summed_def)

lemma sends_rst:
  assumes "env_ok env"
  shows "sends env ((fresh_seg (TCP_FLAGS_ACK OR TCP_FLAGS_RESET) [] s)\<lparr>th_seq := 0, th_ack_seq := th_seq p + 1\<rparr>) s
           (snd (send_rst env (Some p) s))"
  using alloc_ok [OF assms, of "TCP_FLAGS_ACK OR TCP_FLAGS_RESET" 0 s] transmit_ok [OF assms]
  by (auto simp: send_rst_def sends_def summed_def seg_len_def tcp_is_syn_def tcp_is_fin_def)

lemma sends_push:
  assumes "env_ok env"
  shows "sends env (fresh_seg (TCP_FLAGS_ACK OR TCP_FLAGS_PUSH) (take 1400 buffer) s) s (snd (send_ack_push env buffer s))"
  using alloc_ok [OF assms, of "TCP_FLAGS_ACK OR TCP_FLAGS_PUSH" "min (length buffer) 1400" s] transmit_ok [OF assms]
  by (auto simp: send_ack_push_def sends_def summed_def seg_len_def tcp_is_syn_def tcp_is_fin_def Let_def fresh_seg_def
      min_def)

section \<open>What the operations of a session keep\<close>

lemma new_state_session:
  "snd (new_TcpStateEstablished env s) = snd (snd (established_output_trigger env False s))"
  "snd (new_TcpStateCloseWait env s) = snd (send_fin env (s\<lparr>s_receive_next_ack := s_receive_next_ack s + 1\<rparr>))"
  "snd (new_TcpStateFinSent env s) = snd (send_fin env s)"
  "snd (new_TcpStateSynSent env s) = snd (send_syn env s)"
  by (simp_all add: new_TcpStateEstablished_def new_TcpStateCloseWait_def new_TcpStateFinSent_def new_TcpStateSynSent_def
      split: prod.split)

text \<open>
  A property of the sending side that the three ways to send a segment keep, when the layers below behave as \<open>ok\<close> says, is
  kept by every operation of a session.
\<close>

locale session_invariant =
  fixes I :: "TcpSession \<Rightarrow> bool" and ok :: "tcp_env \<Rightarrow> bool"
  assumes I_cong: "I s \<Longrightarrow> s_sent s' = s_sent s \<Longrightarrow> s_outputBuffer s' = s_outputBuffer s \<Longrightarrow> s_seq s' = s_seq s \<Longrightarrow> I s'"
    and I_plain: "ok env \<Longrightarrow> I s \<Longrightarrow> I (snd (send_plain env flags s))"
    and I_rst: "ok env \<Longrightarrow> I s \<Longrightarrow> I (snd (send_rst env (Some t) s))"
    and I_push: "ok env \<Longrightarrow> I s \<Longrightarrow>
      I (snd (send_ack_push env (take 1400 (s_outputBuffer s)) (s\<lparr>s_outputBuffer := drop 1400 (s_outputBuffer s)\<rparr>)))"
begin

lemma I_fields [simp]:
  "I (s\<lparr>s_state := st\<rparr>) = I s" "I (s\<lparr>s_inputBuffer := b\<rparr>) = I s" "I (s\<lparr>s_receive_next_ack := a\<rparr>) = I s"
  "I (s\<lparr>s_events := e\<rparr>) = I s" "I (emit ev s) = I s"
proof -
  have eq: "I s' = I s" if "s_sent s' = s_sent s" "s_outputBuffer s' = s_outputBuffer s" "s_seq s' = s_seq s" for s s'
    using I_cong [of s s'] I_cong [of s' s] that by auto
  show "I (s\<lparr>s_state := st\<rparr>) = I s" "I (s\<lparr>s_inputBuffer := b\<rparr>) = I s" "I (s\<lparr>s_receive_next_ack := a\<rparr>) = I s"
    "I (s\<lparr>s_events := e\<rparr>) = I s" "I (emit ev s) = I s"
    by (rule eq; simp add: emit_def)+
qed

lemma I_trigger:
  assumes "ok env" "I s" shows "I (snd (snd (established_output_trigger env w s)))"
proof (cases "w \<or> s_outputBuffer s = []")
  case True
  then show ?thesis using assms by (auto simp: established_output_trigger_def pop_output_bytes_def)
next
  case False
  have "snd (snd (established_output_trigger env w s)) =
      snd (send_ack_push env (take 1400 (s_outputBuffer s)) (s\<lparr>s_outputBuffer := drop 1400 (s_outputBuffer s)\<rparr>))"
    using False by (auto simp: established_output_trigger_def pop_output_bytes_def Let_def min_def)
  then show ?thesis using I_push [OF assms] by simp
qed

lemma I_output:
  assumes "ok env" "I s" shows "I (snd (handle_output_trigger env s))"
  using I_trigger [OF assms]
  by (auto simp: handle_output_trigger_def assms(2) split: TcpState.split prod.split)
    (metis snd_conv)

lemma I_set_state:
  assumes "ok env" "I s" shows "I (set_state env st s)"
  using assms
proof (induction env st s rule: set_state.induct)
  case (1 env st s)
  then show ?case by (cases st) (auto simp: set_state.simps Let_def send_syn_ack_def I_plain)
qed

lemma I_enter:
  assumes "ok env" "I (snd p)" shows "I (enter env p)"
  using I_set_state [OF assms] by (simp add: enter_def)

lemma I_ack: "ok env \<Longrightarrow> I s \<Longrightarrow> I (snd (send_ack env s))"
  by (simp add: send_ack_def I_plain)

lemma I_established:
  assumes "ok env" "I s" shows "I (established_incoming env p s)"
proof -
  let ?s1 = "s\<lparr>s_state := TcpStateEstablished False\<rparr>"
  let ?s2 = "push_input_bytes (take (unat (tcp_data_length (pk_ip_data_length p) (pk_tcp p))) (th_data (pk_tcp p))) ?s1"
  have o1: "I (snd (handle_output_trigger env ?s1))" by (rule I_output) (use assms in simp_all)
  have o2: "I (snd (handle_output_trigger env ?s2))" by (rule I_output) (use assms in \<open>simp_all add: push_input_bytes_def\<close>)
  have cw: "I (enter env (new_TcpStateCloseWait env s))"
    by (rule I_enter) (use assms in \<open>simp_all add: new_state_session send_fin_def I_plain\<close>)
  obtain r s3 where e: "handle_output_trigger env ?s2 = (r, s3)" by fastforce
  have "I (case handle_output_trigger env ?s2 of (True, s3) \<Rightarrow> s3 | (False, s3) \<Rightarrow> snd (send_ack env s3))"
    using o2 I_ack [OF assms(1), of s3] by (cases r) (simp_all add: e)
  with o1 cw show ?thesis using assms(2) unfolding established_incoming_def Let_def by (simp split: if_split)
qed

lemma I_synsent:
  assumes "ok env" "I s" shows "I (synsent_incoming env p s)"
proof -
  let ?s1 = "s\<lparr>s_receive_next_ack := th_seq (pk_tcp p) + 1\<rparr>"
  have "I (enter env (new_TcpStateEstablished env (snd (send_ack env ?s1))))"
    by (rule I_enter) (use assms I_ack [of env ?s1] in \<open>simp_all add: new_state_session I_trigger\<close>)
  then show ?thesis
    unfolding synsent_incoming_def Let_def using I_set_state [OF assms] by (simp split: if_split)
qed

lemma I_incoming:
  assumes "ok env" "I s" shows "I (fst (handle_incoming_segment env p s))"
proof -
  have "I (synreceived_incoming env p s)"
    unfolding synreceived_incoming_def using assms by (auto intro!: I_enter I_trigger simp: new_state_session)
  moreover have "I (lastack_incoming env p s)"
    unfolding lastack_incoming_def using assms I_ack by (auto intro!: I_set_state)
  ultimately show ?thesis
    using assms I_established [OF assms] I_synsent [OF assms]
    by (auto simp: handle_incoming_segment_def listening_incoming_def I_rst split: TcpState.split)
qed

lemma I_client: "ok env \<Longrightarrow> I (new_TcpSession port remote True) \<Longrightarrow> I (createTcpClient env port remote)"
  unfolding createTcpClient_def by (rule I_enter) (simp_all add: new_state_session send_syn_def I_plain)

end

section \<open>The stream of bytes sent\<close>

fun next_seq :: "u32 \<Rightarrow> tcp_t list \<Rightarrow> u32" where
  "next_seq n [] = n"
| "next_seq n (t # ts) = next_seq (n + of_nat (seg_len t)) ts"

fun numbered :: "u32 \<Rightarrow> tcp_t list \<Rightarrow> bool" where
  "numbered n [] \<longleftrightarrow> True"
| "numbered n (t # ts) \<longleftrightarrow> (tcp_is_rst t \<or> th_seq t = n) \<and> numbered (n + of_nat (seg_len t)) ts"

lemma next_seq_append [simp]: "next_seq n (ts @ us) = next_seq (next_seq n ts) us"
  by (induction ts arbitrary: n) auto

lemma numbered_append [simp]: "numbered n (ts @ us) \<longleftrightarrow> numbered n ts \<and> numbered (next_seq n ts) us"
  by (induction ts arbitrary: n) auto

text \<open>
  The invariant: the data of the segments sent and the bytes still in the output buffer are the bytes written; the
  segments are numbered without gaps from the initial sequence number on; no segment has more than 1400 bytes.
\<close>

definition stream_inv :: "u32 \<Rightarrow> u8 list \<Rightarrow> TcpSession \<Rightarrow> bool" where
  "stream_inv isn written s \<longleftrightarrow>
     concat (map th_data (s_sent s)) @ s_outputBuffer s = written \<and>
     numbered isn (s_sent s) \<and> sq_sequence (s_seq s) = next_seq isn (s_sent s) \<and>
     (\<forall>t \<in> set (s_sent s). length (th_data t) \<le> 1400)"

lemma stream_inv_sends:
  assumes "sends env t s s'" "stream_inv isn W (s\<lparr>s_outputBuffer := th_data t @ s_outputBuffer s\<rparr>)"
    and "tcp_is_rst t \<or> th_seq t = sq_sequence (s_seq s)" "length (th_data t) \<le> 1400"
  shows "stream_inv isn W s'"
  using assms by (auto simp: stream_inv_def sends_def)

interpretation stream: session_invariant "stream_inv isn W" env_ok for isn W
proof unfold_locales
  fix env s flags
  assume e: "env_ok env" and i: "stream_inv isn W s"
  show "stream_inv isn W (snd (send_plain env flags s))"
    by (rule stream_inv_sends [OF sends_plain [OF e]]) (use i in \<open>simp_all add: fresh_seg_def\<close>)
next
  fix env s t
  assume e: "env_ok env" and i: "stream_inv isn W s"
  show "stream_inv isn W (snd (send_rst env (Some t) s))"
    by (rule stream_inv_sends [OF sends_rst [OF e]]) (use i in \<open>simp_all add: fresh_seg_def tcp_is_rst_def tcp_flags\<close>)
next
  fix env s
  assume e: "env_ok env" and i: "stream_inv isn W s"
  show "stream_inv isn W (snd (send_ack_push env (take 1400 (s_outputBuffer s)) (s\<lparr>s_outputBuffer := drop 1400 (s_outputBuffer s)\<rparr>)))"
    by (rule stream_inv_sends [OF sends_push [OF e]]) (use i in \<open>simp_all add: fresh_seg_def stream_inv_def\<close>)
qed (simp add: stream_inv_def)

lemma stream_inv_push:
  assumes "env_ok env" "stream_inv isn W s" shows "stream_inv isn (W @ buffer) (push_output_bytes env buffer s)"
  unfolding push_output_bytes_def
  by (rule stream.I_output) (use assms in \<open>auto simp: stream_inv_def emit_def\<close>)

lemma created_stream_inv:
  assumes "env_ok env"
  shows "stream_inv 0 [] (createTcpClient env port remote)" "stream_inv 0 [] (createTcpClientAcceptor env port remote q)"
proof -
  show "stream_inv 0 [] (createTcpClient env port remote)"
    by (rule stream.I_client [OF assms]) (simp add: stream_inv_def new_TcpSession_def)
  show "stream_inv 0 [] (createTcpClientAcceptor env port remote q)"
    unfolding createTcpClientAcceptor_def
    by (rule stream.I_enter [OF assms])
      (simp add: new_TcpStateSynReceived_def stream_inv_def new_TcpSession_def assign_seq_def)
qed

text \<open>
  When buffers run out or \<open>ip_output\<close> refuses a segment, bytes can be missing, but what is sent and what waits is still a
  subsequence of what was written.
\<close>

definition lossy_inv :: "u8 list \<Rightarrow> TcpSession \<Rightarrow> bool" where
  "lossy_inv written s \<longleftrightarrow>
     subseq (concat (map th_data (s_sent s)) @ s_outputBuffer s) written \<and> (\<forall>t \<in> set (s_sent s). length (th_data t) \<le> 1400)"

text \<open>A call that sends at most one segment with the data \<open>bs\<close>.\<close>

definition may_send :: "u8 list \<Rightarrow> TcpSession \<Rightarrow> TcpSession \<Rightarrow> bool" where
  "may_send bs s s' \<longleftrightarrow> s_outputBuffer s' = s_outputBuffer s \<and>
     (s_sent s' = s_sent s \<or> (\<exists>t. th_data t = bs \<and> s_sent s' = s_sent s @ [t]))"

lemma may_send_calls:
  "may_send [] s (snd (send_plain env flags s))" "may_send [] s (snd (send_rst env (Some t) s))"
  "may_send (take 1400 bs) s (snd (send_ack_push env bs s))"
  by (auto simp: may_send_def send_plain_def send_rst_def send_ack_push_def tcp_alloc_nbuf_def tcp_transmit_def Let_def min_def)

lemma lossy_inv_send:
  assumes "may_send bs s s'" "lossy_inv W (s\<lparr>s_outputBuffer := bs @ s_outputBuffer s\<rparr>)" "length bs \<le> 1400"
  shows "lossy_inv W s'"
proof -
  let ?c = "concat (map th_data (s_sent s))"
  have w: "subseq (?c @ bs @ s_outputBuffer s) W" using assms(2) by (simp add: lossy_inv_def)
  have "subseq (?c @ s_outputBuffer s) (?c @ bs @ s_outputBuffer s)" by (intro list_emb_append_mono list_emb_append2 subseq_order.order_refl)
  then have "subseq (?c @ s_outputBuffer s) W" using w by (rule subseq_order.order_trans)
  then show ?thesis using assms w by (auto simp: lossy_inv_def may_send_def)
qed

interpretation lossy: session_invariant "lossy_inv W" "\<lambda>_. True" for W
proof unfold_locales
  fix env s flags
  assume "lossy_inv W s"
  then show "lossy_inv W (snd (send_plain env flags s))" by (intro lossy_inv_send [OF may_send_calls(1)]) simp_all
next
  fix env s t
  assume "lossy_inv W s"
  then show "lossy_inv W (snd (send_rst env (Some t) s))" by (intro lossy_inv_send [OF may_send_calls(2)]) simp_all
next
  fix env s
  assume "lossy_inv W s"
  then show "lossy_inv W (snd (send_ack_push env (take 1400 (s_outputBuffer s)) (s\<lparr>s_outputBuffer := drop 1400 (s_outputBuffer s)\<rparr>)))"
    by (intro lossy_inv_send [OF may_send_calls(3)]) (simp_all add: lossy_inv_def)
qed (simp add: lossy_inv_def)

lemma lossy_inv_push:
  assumes "lossy_inv W s" shows "lossy_inv (W @ buffer) (push_output_bytes env buffer s)"
  unfolding push_output_bytes_def
  by (rule lossy.I_output) (use assms in \<open>auto simp: lossy_inv_def emit_def simp flip: append_assoc intro: list_emb_append_mono\<close>)

lemma created_lossy_inv:
  "lossy_inv [] (createTcpClient env port remote)" "lossy_inv [] (createTcpClientAcceptor env port remote q)"
proof -
  show "lossy_inv [] (createTcpClient env port remote)"
    by (rule lossy.I_client) (simp_all add: lossy_inv_def new_TcpSession_def)
  show "lossy_inv [] (createTcpClientAcceptor env port remote q)"
    unfolding createTcpClientAcceptor_def
    by (rule lossy.I_enter) (simp_all add: new_TcpStateSynReceived_def lossy_inv_def new_TcpSession_def)
qed

section \<open>Runs of a session\<close>

text \<open>The payload a session takes from a segment.\<close>

definition accepted :: "tcp_packet \<Rightarrow> TcpSession \<Rightarrow> u8 list" where
  "accepted p s =
     (if session_state s = Established \<and> is_seq_match s (pk_tcp p) \<and> \<not> tcp_is_fin (pk_tcp p)
      then take (unat (tcp_data_length (pk_ip_data_length p) (pk_tcp p))) (th_data (pk_tcp p)) else [])"

text \<open>
  The states a session reaches from \<open>s0\<close> by incoming segments, writes and reads, in any order, with the bytes written,
  the payloads accepted and the bytes read on the way. At every step the layers below behave in some way that \<open>E\<close> allows.
\<close>

inductive tcp_run :: "(tcp_env \<Rightarrow> bool) \<Rightarrow> TcpSession \<Rightarrow> u8 list \<Rightarrow> u8 list \<Rightarrow> u8 list \<Rightarrow> TcpSession \<Rightarrow> bool" for E s0 where
  run_start: "tcp_run E s0 [] [] [] s0"
| run_segment: "tcp_run E s0 W R D s \<Longrightarrow> E env \<Longrightarrow>
    tcp_run E s0 W (R @ accepted p s) D (fst (handle_incoming_segment env p s))"
| run_write: "tcp_run E s0 W R D s \<Longrightarrow> E env \<Longrightarrow> tcp_run E s0 (W @ buffer) R D (push_output_bytes env buffer s)"
| run_read: "tcp_run E s0 W R D s \<Longrightarrow> pop_input_bytes n wait s = (ReadBytes bs, s') \<Longrightarrow> tcp_run E s0 W R (D @ bs) s'"

lemma run_lossy:
  assumes "tcp_run E s0 W R D s" "lossy_inv [] s0" shows "lossy_inv W s"
  using assms
proof (induction rule: tcp_run.induct)
  case (run_read W R D s n wait bs s')
  then have "lossy_inv W s" by simp
  with run_read.hyps(2) show ?case by (auto simp: pop_input_bytes_def Let_def split: if_splits)
qed (simp_all add: lossy.I_incoming lossy_inv_push)

lemma run_stream:
  assumes "tcp_run E s0 W R D s" "stream_inv 0 [] s0" "\<And>env. E env \<Longrightarrow> env_ok env" shows "stream_inv 0 W s"
  using assms
proof (induction rule: tcp_run.induct)
  case (run_read W R D s n wait bs s')
  then have "stream_inv 0 W s" by simp
  with run_read.hyps(2) show ?case by (auto simp: pop_input_bytes_def Let_def split: if_splits)
qed (simp_all add: stream.I_incoming stream_inv_push)

text \<open>
  C18: whatever segments arrive, whenever the application writes and reads, and however the layers below behave, the bytes of
  the segments that were sent followed by the output buffer are a subsequence of the bytes written: in order, none twice and none
  made up; and a segment carries at most 1400 bytes. When at every step there is a network buffer and \<open>ip_output\<close> takes the segment,
  they are exactly the bytes written, and the segments carry consecutive sequence numbers.
\<close>

theorem tcp_send_stream:
  assumes "E env" and "s0 = createTcpClient env port remote \<or> s0 = createTcpClientAcceptor env port remote q"
    and "tcp_run E s0 W R D s"
  shows "subseq (concat (map th_data (s_sent s)) @ s_outputBuffer s) W \<and> (\<forall>t \<in> set (s_sent s). length (th_data t) \<le> 1400) \<and>
         ((\<forall>e. E e \<longrightarrow> env_ok e) \<longrightarrow> concat (map th_data (s_sent s)) @ s_outputBuffer s = W \<and> numbered 0 (s_sent s))"
proof -
  have "lossy_inv [] s0" using assms(2) created_lossy_inv by auto
  then have "lossy_inv W s" by (rule run_lossy [OF assms(3)])
  moreover have "stream_inv 0 W s" if e: "\<forall>e. E e \<longrightarrow> env_ok e"
  proof (rule run_stream [OF assms(3)])
    show "stream_inv 0 [] s0" using assms(1,2) created_stream_inv e by auto
  qed (use e in blast)
  ultimately show ?thesis by (simp add: lossy_inv_def stream_inv_def)
qed

section \<open>The stream of bytes received\<close>

text \<open>What the operations leave alone, whether or not the layers below take the segments.\<close>

definition quiet :: "TcpSession \<Rightarrow> TcpSession \<Rightarrow> bool" where
  "quiet s s' \<longleftrightarrow>
     s_inputBuffer s' = s_inputBuffer s \<and> s_receive_next_ack s' = s_receive_next_ack s \<and> s_localPort s' = s_localPort s \<and>
     s_remoteAddr s' = s_remoteAddr s \<and> s_receive_window s' = s_receive_window s"

lemma quiet_refl [simp]: "quiet s s"
  by (simp add: quiet_def)

lemma quiet_trans: "quiet s t \<Longrightarrow> quiet t u \<Longrightarrow> quiet s u"
  by (simp add: quiet_def)

lemma quiet_fields [simp]:
  "quiet s (t\<lparr>s_state := st\<rparr>) = quiet s t" "quiet s (t\<lparr>s_seq := q\<rparr>) = quiet s t" "quiet s (t\<lparr>s_sent := ts\<rparr>) = quiet s t"
  "quiet s (t\<lparr>s_outputBuffer := b\<rparr>) = quiet s t" "quiet s (emit e t) = quiet s t"
  by (simp_all add: quiet_def emit_def)

lemma quiet_transmit: "quiet s (snd (tcp_transmit env t s))"
  by (simp add: tcp_transmit_def Let_def)

lemma quiet_alloc: "quiet s (snd (tcp_alloc_nbuf env flags n s))"
  by (simp add: tcp_alloc_nbuf_def Let_def)

lemma send_state:
  "s_state (snd (tcp_transmit env t s)) = s_state s" "s_state (snd (tcp_alloc_nbuf env flags n s)) = s_state s"
  by (simp_all add: tcp_transmit_def tcp_alloc_nbuf_def Let_def)

lemma quiet_send:
  "quiet s (snd (send_plain env flags s))" "quiet s (snd (send_rst env p s))" "quiet s (snd (send_ack_push env b s))"
  and state_send [simp]:
  "s_state (snd (send_plain env flags s)) = s_state s" "s_state (snd (send_rst env p s)) = s_state s"
  "s_state (snd (send_ack_push env b s)) = s_state s"
proof -
  have a: "quiet s s1 \<and> s_state s1 = s_state s" if "tcp_alloc_nbuf env flags n s = (r, s1)" for r s1 flags n
    using quiet_alloc [of s env flags n] send_state(2) [of env flags n s] that by simp
  have t: "quiet s (snd (tcp_transmit env x s1)) \<and> s_state (snd (tcp_transmit env x s1)) = s_state s"
    if "tcp_alloc_nbuf env flags n s = (r, s1)" for r s1 x flags n
    using a [OF that] quiet_transmit [of s1 env x] send_state(1) [of env x s1] quiet_trans by metis
  show "quiet s (snd (send_plain env flags s))" "s_state (snd (send_plain env flags s)) = s_state s"
    using a t by (auto simp: send_plain_def split: prod.split option.split)
  show "quiet s (snd (send_rst env p s))" "s_state (snd (send_rst env p s)) = s_state s"
    using a t by (auto simp: send_rst_def split: prod.split option.split)
  show "quiet s (snd (send_ack_push env b s))" "s_state (snd (send_ack_push env b s)) = s_state s"
    using a t by (auto simp: send_ack_push_def Let_def split: prod.split option.split)
qed

lemma quiet_trigger:
  "quiet s (snd (snd (established_output_trigger env w s)))" "s_state (snd (snd (established_output_trigger env w s))) = s_state s"
proof -
  have "quiet s (snd (send_ack_push env b (s\<lparr>s_outputBuffer := d\<rparr>)))" for b d
    using quiet_send(3) [of "s\<lparr>s_outputBuffer := d\<rparr>" env b] by (simp add: quiet_def)
  then show "quiet s (snd (snd (established_output_trigger env w s)))"
    "s_state (snd (snd (established_output_trigger env w s))) = s_state s"
    by (simp_all add: established_output_trigger_def pop_output_bytes_def Let_def)
qed

lemma quiet_output:
  "quiet s (snd (handle_output_trigger env s))" "session_state (snd (handle_output_trigger env s)) = session_state s"
  using quiet_trigger(1) [of s env]
  by (auto simp: handle_output_trigger_def session_state_def split: TcpState.split prod.split) (metis snd_conv)

lemma quiet_set_state: "quiet s (set_state env st s)"
proof (induction env st s rule: set_state.induct)
  case (1 env st s)
  have q: "quiet s (snd (send_plain env f (emit e (s\<lparr>s_state := st\<rparr>))))" for f e
    using quiet_send(1) [of "emit e (s\<lparr>s_state := st\<rparr>)" env f] by (simp add: quiet_def emit_def)
  have "quiet s (set_state env TcpStateLastAck (emit e (s\<lparr>s_state := st\<rparr>)))" for e
    by (simp add: set_state.simps Let_def)
  with q show ?case
    by (cases st) (simp_all add: set_state.simps [of env _ s] Let_def send_syn_ack_def)
qed

fun settled :: "TcpStateEnum \<Rightarrow> TcpStateEnum" where
  "settled FinSent = LastAck"
| "settled CloseWait = LastAck"
| "settled st = st"

lemma set_state_enum: "session_state (set_state env st s) = settled (state_enum st)"
  by (cases st) (simp_all add: set_state.simps Let_def session_state_def emit_def send_syn_ack_def)

lemma quiet_enter: "quiet (snd p) (enter env p)"
  by (simp add: enter_def quiet_set_state)

lemma input_incoming:
  "s_inputBuffer (fst (handle_incoming_segment env p s)) = s_inputBuffer s @ accepted p s"
proof -
  have q: "quiet s t \<Longrightarrow> s_inputBuffer t = s_inputBuffer s" for s t by (simp add: quiet_def)
  have est: "s_inputBuffer (established_incoming env p s) = s_inputBuffer s @ accepted p s" if st: "session_state s = Established"
  proof -
    let ?s1 = "s\<lparr>s_state := TcpStateEstablished False\<rparr>"
    let ?b = "take (unat (tcp_data_length (pk_ip_data_length p) (pk_tcp p))) (th_data (pk_tcp p))"
    obtain r s3 where e: "handle_output_trigger env (push_input_bytes ?b ?s1) = (r, s3)" by fastforce
    have b: "s_inputBuffer s3 = s_inputBuffer s @ ?b"
      using quiet_output(1) [of "push_input_bytes ?b ?s1" env] e by (simp add: quiet_def push_input_bytes_def emit_def)
    have a: "s_inputBuffer (snd (send_ack env s3)) = s_inputBuffer s3"
      using quiet_send(1) q by (simp add: send_ack_def)
    have c: "s_inputBuffer (enter env (new_TcpStateCloseWait env s)) = s_inputBuffer s"
      using quiet_enter [of "new_TcpStateCloseWait env s" env]
        quiet_send(1) [of "s\<lparr>s_receive_next_ack := s_receive_next_ack s + 1\<rparr>" env "TCP_FLAGS_FIN OR TCP_FLAGS_ACK"]
      by (simp add: new_state_session send_fin_def quiet_def)
    have d: "s_inputBuffer (snd (handle_output_trigger env ?s1)) = s_inputBuffer s"
      using quiet_output(1) [of ?s1 env] by (simp add: quiet_def)
    show ?thesis
      using st a b c d by (cases r) (simp_all add: established_incoming_def accepted_def Let_def e)
  qed
  have new: "s_inputBuffer (enter env (new_TcpStateEstablished env t)) = s_inputBuffer t" for t
    using quiet_enter [of "new_TcpStateEstablished env t" env] quiet_trigger(1) [of t env False]
    by (simp add: new_state_session quiet_def)
  have sa: "s_inputBuffer (snd (send_ack env t)) = s_inputBuffer t" "s_inputBuffer (set_state env st t) = s_inputBuffer t" for t st
    using quiet_send(1) [of t env] quiet_set_state [of t env st] q by (simp_all add: send_ack_def)
  show ?thesis
  proof (cases "s_state s")
    case (TcpStateEstablished w)
    then show ?thesis using est by (simp add: handle_incoming_segment_def session_state_def)
  qed (use q quiet_send(2) in \<open>simp_all add: handle_incoming_segment_def accepted_def session_state_def listening_incoming_def
      synsent_incoming_def synreceived_incoming_def lastack_incoming_def new sa Let_def\<close>)
qed

text \<open>
  C19: the bytes the application reads are, in order and without gaps, the payloads the session accepted; what is accepted
  and not yet read is the input buffer.
\<close>

theorem tcp_receive_stream:
  assumes "s_inputBuffer s0 = []" and "tcp_run E s0 W R D s"
  shows "D @ s_inputBuffer s = R"
  using assms(2)
proof (induction rule: tcp_run.induct)
  case run_start
  then show ?case using assms(1) by simp
next
  case (run_segment W R D s env p)
  then show ?case by (simp add: input_incoming)
next
  case (run_write W R D s env buffer)
  then show ?case
    using quiet_output(1) [of "emit (OutputEvent (length buffer)) (s\<lparr>s_outputBuffer := s_outputBuffer s @ buffer\<rparr>)" env]
    by (simp add: push_output_bytes_def quiet_def emit_def)
next
  case (run_read W R D s n wait bs s')
  then show ?case by (auto simp: pop_input_bytes_def Let_def split: if_splits)
qed

lemma established_enum: "session_state (enter env (new_TcpStateEstablished env s)) = Established"
  by (simp add: enter_def set_state_enum new_TcpStateEstablished_def split: prod.split)

lemma established_incoming_state:
  assumes "session_state s = Established"
  shows "session_state (established_incoming env p s) =
           (if is_seq_match s (pk_tcp p) \<and> tcp_is_fin (pk_tcp p) then LastAck else Established)"
proof -
  let ?s1 = "s\<lparr>s_state := TcpStateEstablished False\<rparr>"
  let ?b = "take (unat (tcp_data_length (pk_ip_data_length p) (pk_tcp p))) (th_data (pk_tcp p))"
  obtain r s3 where e: "handle_output_trigger env (push_input_bytes ?b ?s1) = (r, s3)" by fastforce
  have "session_state (push_input_bytes ?b ?s1) = Established" by (simp add: push_input_bytes_def emit_def session_state_def)
  with quiet_output(2) [of env "push_input_bytes ?b ?s1"] e have "session_state s3 = Established" by simp
  moreover from this have "session_state (snd (send_ack env s3)) = Established" by (simp add: send_ack_def session_state_def)
  moreover have "session_state (snd (handle_output_trigger env ?s1)) = Established"
    using quiet_output(2) [of env ?s1] by (simp add: session_state_def)
  moreover have "session_state (enter env (new_TcpStateCloseWait env s)) = LastAck"
    by (simp add: enter_def new_TcpStateCloseWait_def set_state_enum)
  ultimately show ?thesis using assms by (cases r) (simp_all add: established_incoming_def Let_def e)
qed

section \<open>Two sessions\<close>

text \<open>A segment on its way from one host to the other.\<close>

definition on_wire :: "u32 \<Rightarrow> u32 \<Rightarrow> tcp_t \<Rightarrow> tcp_packet" where
  "on_wire saddr daddr t =
     \<lparr>pk_saddr = saddr, pk_daddr = daddr, pk_ip_data_length = of_nat (TCP_HDR + length (th_data t)), pk_tcp = t\<rparr>"

lemmas run_simps = session_state_def is_seq_match_def tcp_is_synack_def tcp_is_syn_def tcp_is_ack_def tcp_is_fin_def
  tcp_is_rst_def tcp_flags advance_def assign_seq_def emit_def enter_def set_state.simps Let_def transmit_ok
  send_plain_def send_syn_def send_ack_def send_syn_ack_def handle_incoming_segment_def on_wire_def
  established_output_trigger_def pop_output_bytes_def new_TcpStateEstablished_def

lemma alloc_ok_eq: "env_ok env \<Longrightarrow> tcp_alloc_nbuf env flags n s =
  (Some (fresh_seg flags (replicate n 0) s),
   s\<lparr>s_seq := (let q1 = advance (of_nat n) (s_seq s);
                  q2 = (if flags AND TCP_FLAGS_SYN \<noteq> 0 then advance 1 q1 else q1)
              in if flags AND TCP_FLAGS_FIN \<noteq> 0 then advance 1 q2 else q2)\<rparr>)"
  by (simp add: tcp_alloc_nbuf_def env_ok_def fresh_seg_def Let_def)

text \<open>A client after \<open>connect\<close>, and a session accepted for its SYN.\<close>

lemma client_created:
  fixes port :: u16 and remote :: SocketAddress
  assumes "env_ok env" defines "c \<equiv> createTcpClient env port remote"
  shows "s_state c = TcpStateSynSent" "sq_sequence (s_seq c) = 1" "s_outputBuffer c = []" "s_inputBuffer c = []"
    "s_localPort c = port" "s_remoteAddr c = remote"
    "\<exists>t. s_sent c = [t] \<and> th_flags t = TCP_FLAGS_SYN \<and> th_seq t = 0 \<and> th_sport t = port \<and> th_dport t = sa_port remote"
  unfolding c_def using assms(1)
  by (simp_all add: createTcpClient_def new_TcpStateSynSent_def new_TcpSession_def run_simps alloc_ok_eq fresh_seg_def)

lemma acceptor_created:
  fixes port :: u16 and remote :: SocketAddress and q :: u32
  assumes "env_ok env" defines "a \<equiv> createTcpClientAcceptor env port remote q"
  shows "s_state a = TcpStateSynReceived" "sq_sequence (s_seq a) = 1" "s_receive_next_ack a = q + 1"
    "s_outputBuffer a = []" "s_inputBuffer a = []"
    "\<exists>t. s_sent a = [t] \<and> th_flags t = TCP_FLAGS_SYN OR TCP_FLAGS_ACK \<and> th_seq t = 0 \<and> th_ack_seq t = q + 1"
  unfolding a_def using assms(1)
  by (simp_all add: createTcpClientAcceptor_def new_TcpStateSynReceived_def new_TcpSession_def run_simps alloc_ok_eq fresh_seg_def)

lemma client_established:
  fixes a b :: u32
  assumes "env_ok env" "s_state c = TcpStateSynSent" "s_outputBuffer c = []"
    and "th_flags t = TCP_FLAGS_SYN OR TCP_FLAGS_ACK" "th_ack_seq t = sq_sequence (s_seq c)"
  defines "c' \<equiv> fst (handle_incoming_segment env (on_wire a b t) c)"
  shows "s_state c' = TcpStateEstablished False" "sq_sequence (s_seq c') = sq_sequence (s_seq c)"
    "s_receive_next_ack c' = th_seq t + 1" "s_outputBuffer c' = []"
    "\<exists>u. s_sent c' = s_sent c @ [u] \<and> th_flags u = TCP_FLAGS_ACK \<and> th_seq u = sq_sequence (s_seq c) \<and>
         th_ack_seq u = th_seq t + 1"
  unfolding c'_def using assms(1-5)
  by (simp_all add: synsent_incoming_def run_simps alloc_ok_eq fresh_seg_def)

lemma acceptor_established:
  fixes a b :: u32 and env :: tcp_env
  assumes "s_state s = TcpStateSynReceived" "s_outputBuffer s = []"
    and "th_flags t = TCP_FLAGS_ACK" "th_ack_seq t = sq_sequence (s_seq s)"
  defines "s' \<equiv> fst (handle_incoming_segment env (on_wire a b t) s)"
  shows "s_state s' = TcpStateEstablished False" "s_seq s' = s_seq s" "s_receive_next_ack s' = s_receive_next_ack s"
    "s_outputBuffer s' = []" "s_inputBuffer s' = s_inputBuffer s" "s_sent s' = s_sent s"
  unfolding s'_def using assms(1-4)
  by (simp_all add: synreceived_incoming_def run_simps)

lemma write_sends:
  assumes "env_ok env" "s_state s = TcpStateEstablished False" "s_outputBuffer s = []" "bs \<noteq> []" "length bs \<le> 1400"
  defines "s' \<equiv> push_output_bytes env bs s"
  shows "s_state s' = TcpStateEstablished True" "s_outputBuffer s' = []"
    "sq_sequence (s_seq s') = sq_sequence (s_seq s) + of_nat (length bs)"
    "\<exists>u. s_sent s' = s_sent s @ [u] \<and> th_flags u = TCP_FLAGS_ACK OR TCP_FLAGS_PUSH \<and> th_seq u = sq_sequence (s_seq s) \<and>
         th_ack_seq u = s_receive_next_ack s \<and> th_data u = bs \<and> th_hl u = 5"
  unfolding s'_def using assms(1-5)
  by (simp_all add: push_output_bytes_def handle_output_trigger_def send_ack_push_def run_simps alloc_ok_eq fresh_seg_def)

lemma data_length_20: "th_hl t = 5 \<Longrightarrow> tcp_data_length (of_nat (TCP_HDR + n)) t = of_nat n"
  by (simp add: tcp_data_length_def tcp_header_length_def TCP_HDR_def)

lemma data_accepted:
  fixes a b :: u32
  assumes "env_ok env" "s_state s = TcpStateEstablished w" "s_outputBuffer s = []"
    and "th_ack_seq t = sq_sequence (s_seq s)" "th_flags t = TCP_FLAGS_ACK OR TCP_FLAGS_PUSH" "th_hl t = 5"
    and "th_data t \<noteq> []" "length (th_data t) \<le> 1400"
  defines "s' \<equiv> fst (handle_incoming_segment env (on_wire a b t) s)"
  shows "s_state s' = TcpStateEstablished False" "s_inputBuffer s' = s_inputBuffer s @ th_data t"
    "s_receive_next_ack s' = s_receive_next_ack s + of_nat (length (th_data t))"
    "\<exists>u. s_sent s' = s_sent s @ [u] \<and> th_flags u = TCP_FLAGS_ACK \<and>
         th_ack_seq u = s_receive_next_ack s + of_nat (length (th_data t)) \<and> th_data u = [] \<and> th_hl u = 5"
proof -
  have u: "unat (of_nat (length (th_data t)) :: u16) = length (th_data t)"
    using assms(8) by (simp add: unsigned_of_nat take_bit_nat_eq_self)
  then have z: "(of_nat (length (th_data t)) :: u16) \<noteq> 0" using assms(7) by (metis length_0_conv unat_0)
  show "s_state s' = TcpStateEstablished False" "s_inputBuffer s' = s_inputBuffer s @ th_data t"
    "s_receive_next_ack s' = s_receive_next_ack s + of_nat (length (th_data t))"
    "\<exists>u. s_sent s' = s_sent s @ [u] \<and> th_flags u = TCP_FLAGS_ACK \<and>
         th_ack_seq u = s_receive_next_ack s + of_nat (length (th_data t)) \<and> th_data u = [] \<and> th_hl u = 5"
    unfolding s'_def using assms(1-6) z u
    by (simp_all add: established_incoming_def handle_output_trigger_def push_input_bytes_def data_length_20
        run_simps alloc_ok_eq fresh_seg_def del: of_nat_add)
qed

lemma ack_received:
  fixes a b :: u32 and env :: tcp_env
  assumes "s_state s = TcpStateEstablished w" "s_outputBuffer s = []" "th_data t = []" "th_hl t = 5"
    and "th_ack_seq t = sq_sequence (s_seq s)" "th_flags t = TCP_FLAGS_ACK"
  shows "fst (handle_incoming_segment env (on_wire a b t) s) = s\<lparr>s_state := TcpStateEstablished False\<rparr>"
  using assms data_length_20 [of t 0]
  by (simp add: established_incoming_def handle_output_trigger_def run_simps)

lemma tcp_exchange:
  fixes caddr saddr :: u32 and cport sport :: u16
  assumes "env_ok ce" "env_ok se" "bs \<noteq> []" "length bs \<le> 1400"
    and c0_def: "c0 = createTcpClient ce cport \<lparr>sa_address = saddr, sa_port = sport\<rparr>"
    and a0_def: "a0 = createTcpClientAcceptor se sport \<lparr>sa_address = caddr, sa_port = cport\<rparr> (th_seq (last (s_sent c0)))"
    and c1_def: "c1 = fst (handle_incoming_segment ce (on_wire saddr caddr (last (s_sent a0))) c0)"
    and a1_def: "a1 = fst (handle_incoming_segment se (on_wire caddr saddr (last (s_sent c1))) a0)"
    and c2_def: "c2 = push_output_bytes ce bs c1"
    and a2_def: "a2 = fst (handle_incoming_segment se (on_wire caddr saddr (last (s_sent c2))) a1)"
    and c3_def: "c3 = fst (handle_incoming_segment ce (on_wire saddr caddr (last (s_sent a2))) c2)"
  shows "th_flags (last (s_sent c0)) = TCP_FLAGS_SYN \<and> session_state c1 = Established \<and> session_state a1 = Established \<and>
         s_inputBuffer a2 = bs \<and> s_state c3 = TcpStateEstablished False \<and> length (s_sent c3) = 3"
proof -
  note c0 = client_created [OF assms(1), where port = cport and remote = "\<lparr>sa_address = saddr, sa_port = sport\<rparr>", folded assms(5)]
  obtain syn where syn: "s_sent c0 = [syn]" "th_flags syn = TCP_FLAGS_SYN" "th_seq syn = 0" using c0(7) by blast
  note a0 = acceptor_created [OF assms(2), where port = sport and remote = "\<lparr>sa_address = caddr, sa_port = cport\<rparr>" and
      q = "th_seq (last (s_sent c0))", folded assms(6)]
  obtain sa where sa: "s_sent a0 = [sa]" "th_flags sa = TCP_FLAGS_SYN OR TCP_FLAGS_ACK" "th_seq sa = 0" "th_ack_seq sa = 1"
    using a0(6) syn by auto
  have c1d: "c1 = fst (handle_incoming_segment ce (on_wire saddr caddr sa) c0)" by (simp add: c1_def sa)
  note c1 = client_established [OF assms(1) c0(1,3) sa(2), where a = saddr and b = caddr, folded c1d]
  have q: "th_ack_seq sa = sq_sequence (s_seq c0)" by (simp add: sa c0)
  obtain ack where ack: "s_sent c1 = s_sent c0 @ [ack]" "th_flags ack = TCP_FLAGS_ACK" "th_ack_seq ack = 1"
    using c1(5) [OF q] sa by auto
  have a1d: "a1 = fst (handle_incoming_segment se (on_wire caddr saddr ack) a0)" by (simp add: a1_def ack)
  have q1: "th_ack_seq ack = sq_sequence (s_seq a0)" by (simp add: ack a0)
  note a1 = acceptor_established [OF a0(1,4) ack(2) q1, where a = caddr and b = saddr and env = se, folded a1d]
  note c2 = write_sends [OF assms(1) c1(1) [OF q] c1(4) [OF q] assms(3,4), folded assms(9)]
  obtain d where d: "s_sent c2 = s_sent c1 @ [d]" "th_flags d = TCP_FLAGS_ACK OR TCP_FLAGS_PUSH" "th_ack_seq d = 1"
    "th_data d = bs" "th_hl d = 5"
    using c2(4) c1(3) [OF q] sa by auto
  have a2d: "a2 = fst (handle_incoming_segment se (on_wire caddr saddr d) a1)" by (simp add: a2_def d)
  have q2: "th_ack_seq d = sq_sequence (s_seq a1)" by (simp add: d a1 a0)
  have bs: "th_data d \<noteq> []" "length (th_data d) \<le> 1400" using assms d by simp_all
  note a2 = data_accepted [OF assms(2) a1(1,4) q2 d(2,5) bs, where a = caddr and b = saddr, folded a2d]
  obtain u where u: "s_sent a2 = s_sent a1 @ [u]" "th_flags u = TCP_FLAGS_ACK" "th_data u = []" "th_hl u = 5"
    "th_ack_seq u = s_receive_next_ack a1 + of_nat (length bs)"
    using a2(4) d by auto
  have q3: "th_ack_seq u = sq_sequence (s_seq c2)"
    by (simp add: u a1 a0 syn c2 c1(2) [OF q] c0)
  have "c3 = c2\<lparr>s_state := TcpStateEstablished False\<rparr>"
    unfolding c3_def u(1) last_snoc by (rule ack_received [OF c2(1,2) u(3,4) q3 u(2)])
  then show ?thesis
    using syn c1(1) [OF q] a1(1) a2(2) a1(5) a0(5) ack(1) d by (simp add: session_state_def)
qed

text \<open>
  C20: two sessions talk to each other. The SYN of a client, the SYN/ACK of the session accepted for it and the client's
  ACK make both established; what the client then writes arrives in the other side's input buffer, and its
  acknowledgement leaves the client ready to send again.
\<close>

theorem tcp_handshake_transfer:
  fixes caddr saddr :: u32 and cport sport :: u16
  assumes "env_ok ce" "env_ok se" "bs \<noteq> []" "length bs \<le> 1400"
  shows
    "let c0 = createTcpClient ce cport \<lparr>sa_address = saddr, sa_port = sport\<rparr>;
         a0 = createTcpClientAcceptor se sport \<lparr>sa_address = caddr, sa_port = cport\<rparr> (th_seq (last (s_sent c0)));
         c1 = fst (handle_incoming_segment ce (on_wire saddr caddr (last (s_sent a0))) c0);
         a1 = fst (handle_incoming_segment se (on_wire caddr saddr (last (s_sent c1))) a0);
         c2 = push_output_bytes ce bs c1;
         a2 = fst (handle_incoming_segment se (on_wire caddr saddr (last (s_sent c2))) a1);
         c3 = fst (handle_incoming_segment ce (on_wire saddr caddr (last (s_sent a2))) c2)
     in th_flags (last (s_sent c0)) = TCP_FLAGS_SYN \<and> session_state c1 = Established \<and> session_state a1 = Established \<and>
        s_inputBuffer a2 = bs \<and> s_state c3 = TcpStateEstablished False \<and> length (s_sent c3) = 3"
  unfolding Let_def by (rule tcp_exchange [OF assms refl refl refl refl refl refl refl])

definition open_env :: tcp_env where
  "open_env = \<lparr>nbuf_ok = (\<lambda>_ _. True), local_ip = (\<lambda>_. 0x0a00020f), ip_output_ok = (\<lambda>_. True)\<rparr>"

lemma open_env_ok [simp]: "env_ok open_env"
  by (simp add: env_ok_def open_env_def)

theorem tcp_handshake_transfer_witness:
  "let c0 = createTcpClient open_env 10000 \<lparr>sa_address = 0x0a000202, sa_port = 80\<rparr>;
       a0 = createTcpClientAcceptor open_env 80 \<lparr>sa_address = 0x0a00020f, sa_port = 10000\<rparr> (th_seq (last (s_sent c0)));
       c1 = fst (handle_incoming_segment open_env (on_wire 0x0a000202 0x0a00020f (last (s_sent a0))) c0);
       a1 = fst (handle_incoming_segment open_env (on_wire 0x0a00020f 0x0a000202 (last (s_sent c1))) a0);
       c2 = push_output_bytes open_env [0x68, 0x69] c1;
       a2 = fst (handle_incoming_segment open_env (on_wire 0x0a00020f 0x0a000202 (last (s_sent c2))) a1);
       c3 = fst (handle_incoming_segment open_env (on_wire 0x0a000202 0x0a00020f (last (s_sent a2))) c2)
   in th_flags (last (s_sent c0)) = TCP_FLAGS_SYN \<and> session_state c1 = Established \<and> session_state a1 = Established \<and>
      s_inputBuffer a2 = [0x68, 0x69] \<and> s_state c3 = TcpStateEstablished False \<and> length (s_sent c3) = 3"
  by (rule tcp_handshake_transfer) simp_all

text \<open>
  The two sides of a connection, for concrete runs: the client after the handshake and after a write, and the session that
  was accepted for it, before and after the data arrives.
\<close>

definition client0 :: TcpSession where
  "client0 = createTcpClient open_env 10000 \<lparr>sa_address = 0x0a000202, sa_port = 80\<rparr>"

definition server0 :: TcpSession where
  "server0 = createTcpClientAcceptor open_env 80 \<lparr>sa_address = 0x0a00020f, sa_port = 10000\<rparr> (th_seq (last (s_sent client0)))"

definition client1 :: TcpSession where
  "client1 = fst (handle_incoming_segment open_env (on_wire 0x0a000202 0x0a00020f (last (s_sent server0))) client0)"

definition server1 :: TcpSession where
  "server1 = fst (handle_incoming_segment open_env (on_wire 0x0a00020f 0x0a000202 (last (s_sent client1))) server0)"

definition client2 :: TcpSession where
  "client2 = push_output_bytes open_env [0x68, 0x69] client1"

definition server2 :: TcpSession where
  "server2 = fst (handle_incoming_segment open_env (on_wire 0x0a00020f 0x0a000202 (last (s_sent client2))) server1)"

definition client3 :: TcpSession where
  "client3 = fst (handle_incoming_segment open_env (on_wire 0x0a000202 0x0a00020f (last (s_sent server2))) client2)"

lemma exchange_facts:
  "session_state client1 = Established" "session_state server1 = Established" "s_inputBuffer server2 = [0x68, 0x69]"
  "length (s_sent client3) = 3"
  using tcp_exchange [OF open_env_ok open_env_ok, of "[0x68, 0x69]" client0 10000 "0x0a000202" 80 server0 "0x0a00020f"
      client1 server1 client2 server2 client3]
  by (simp_all add: client0_def server0_def client1_def server1_def client2_def server2_def client3_def)

lemma not_accepted: "session_state s \<noteq> Established \<Longrightarrow> accepted p s = []"
  by (simp add: accepted_def)

theorem tcp_send_stream_witness:
  "\<exists>R. tcp_run env_ok client0 [0x68, 0x69] R [] client3 \<and> length (s_sent client3) = 3 \<and>
     concat (map th_data (s_sent client3)) @ s_outputBuffer client3 = [0x68, 0x69] \<and> numbered 0 (s_sent client3)"
proof -
  have "tcp_run env_ok client0 ([] @ [0x68, 0x69])
      (([] @ accepted (on_wire 0x0a000202 0x0a00020f (last (s_sent server0))) client0) @
        accepted (on_wire 0x0a000202 0x0a00020f (last (s_sent server2))) client2) [] client3"
    unfolding client3_def by (rule run_segment, subst client2_def, rule run_write, subst client1_def, rule run_segment, rule run_start)
      simp_all
  from this tcp_send_stream [where E = env_ok and env = open_env, OF open_env_ok _ this] exchange_facts(4)
  show ?thesis by (auto simp: client0_def)
qed

theorem tcp_receive_stream_witness:
  "\<exists>s. tcp_run env_ok server0 [] [0x68, 0x69] [0x68] s \<and> s_inputBuffer server2 = [0x68, 0x69] \<and>
     [0x68] @ s_inputBuffer s = [0x68, 0x69]"
proof -
  have s0: "s_inputBuffer server0 = []" "session_state server0 \<noteq> Established"
    using acceptor_created [OF open_env_ok, where port = 80 and remote = "\<lparr>sa_address = 0x0a00020f, sa_port = 10000\<rparr>"
        and q = "th_seq (last (s_sent client0))", folded server0_def] by (simp_all add: session_state_def)
  have r1: "tcp_run env_ok server0 [] [] [] server1"
    using run_segment [OF run_start, of env_ok open_env server0 "on_wire 0x0a00020f 0x0a000202 (last (s_sent client1))"]
    by (simp add: server1_def not_accepted [OF s0(2)])
  let ?p = "on_wire 0x0a00020f 0x0a000202 (last (s_sent client2))"
  have r2: "tcp_run env_ok server0 [] (accepted ?p server1) [] server2"
    using run_segment [OF r1, of open_env ?p] by (simp add: server2_def)
  have "[] @ s_inputBuffer server2 = accepted ?p server1" by (rule tcp_receive_stream [OF s0(1) r2])
  then have acc: "accepted ?p server1 = [0x68, 0x69]" by (simp add: exchange_facts)
  obtain w where w: "s_state server1 = TcpStateEstablished w"
    using exchange_facts(2) by (cases "s_state server1") (auto simp: session_state_def)
  have "\<not> tcp_is_fin (pk_tcp ?p)" using acc by (auto simp: accepted_def split: if_splits)
  then have st: "session_state server2 = Established"
    using established_incoming_state [OF exchange_facts(2), of open_env ?p] w
    by (simp add: server2_def handle_incoming_segment_def)
  have "pop_input_bytes 1 False server2 = (ReadBytes [0x68], server2\<lparr>s_inputBuffer := [0x69]\<rparr>)"
    by (simp add: pop_input_bytes_def st exchange_facts)
  from run_read [OF r2 this] have r3: "tcp_run env_ok server0 [] [0x68, 0x69] [0x68] (server2\<lparr>s_inputBuffer := [0x69]\<rparr>)"
    by (simp add: acc)
  with tcp_receive_stream [OF s0(1) r3] exchange_facts(3) show ?thesis by blast
qed

section \<open>States\<close>

text \<open>The edges an incoming segment can take a session along.\<close>

inductive tcp_edge :: "TcpStateEnum \<Rightarrow> TcpStateEnum \<Rightarrow> bool" where
  "tcp_edge SynSent Closed"
| "tcp_edge SynSent Established"
| "tcp_edge SynReceived Established"
| "tcp_edge Established LastAck"
| "tcp_edge LastAck Closed"

inductive_simps tcp_edge_simps [simp]:
  "tcp_edge Closed x" "tcp_edge SynSent x" "tcp_edge SynReceived x" "tcp_edge Established x" "tcp_edge LastAck x"
  "tcp_edge Listening x" "tcp_edge FinSent x" "tcp_edge CloseWait x"

text \<open>
  C21: a segment moves a session only along the edges of the state machine, and every move but the one to \<open>Closed\<close> of a
  session that sent a SYN needs an acknowledgement of exactly the bytes sent. A closed session stays closed.
\<close>

theorem tcp_incoming_edges:
  assumes "session_state (fst (handle_incoming_segment env p s)) \<noteq> session_state s"
  shows "tcp_edge (session_state s) (session_state (fst (handle_incoming_segment env p s))) \<and>
         (is_seq_match s (pk_tcp p) \<or>
            (session_state s = SynSent \<and> session_state (fst (handle_incoming_segment env p s)) = Closed))"
  using assms
proof (cases "s_state s")
  case (TcpStateEstablished w)
  then have "session_state s = Established" by (simp add: session_state_def)
  then show ?thesis
    using TcpStateEstablished assms
    by (auto simp: handle_incoming_segment_def established_incoming_state split: if_splits)
qed (simp_all add: handle_incoming_segment_def session_state_def [of s] listening_incoming_def synsent_incoming_def
    synreceived_incoming_def lastack_incoming_def set_state_enum established_enum Let_def,
    auto simp: session_state_def split: if_splits)

text \<open>A client in \<open>SynSent\<close> that gets a segment without the right acknowledgement.\<close>

definition stray_packet :: tcp_packet where
  "stray_packet = on_wire 0x0a000202 0x0a00020f
     \<lparr>th_sport = 80, th_dport = 10000, th_seq = 0, th_ack_seq = 0, th_hl = 5, th_rsvd = 0, th_flags = TCP_FLAGS_RESET,
      th_win = 0, th_csum = 0, th_urp = 0, th_data = []\<rparr>"

theorem tcp_incoming_edges_witness:
  "\<exists>s. session_state s = SynSent \<and> session_state (fst (handle_incoming_segment open_env stray_packet s)) \<noteq> session_state s \<and>
       tcp_edge (session_state s) (session_state (fst (handle_incoming_segment open_env stray_packet s)))"
proof -
  let ?s = "createTcpClient open_env 10000 \<lparr>sa_address = 0x0a000202, sa_port = 80\<rparr>"
  have s: "s_state ?s = TcpStateSynSent" by (rule client_created(1) [OF open_env_ok])
  then have "session_state (fst (handle_incoming_segment open_env stray_packet ?s)) = Closed"
    by (simp add: handle_incoming_segment_def synsent_incoming_def stray_packet_def on_wire_def tcp_is_synack_def tcp_is_syn_def
        tcp_flags set_state_enum Let_def)
  then have "session_state (fst (handle_incoming_segment open_env stray_packet ?s)) \<noteq> session_state ?s"
    using s by (simp add: session_state_def)
  with tcp_incoming_edges [OF this] s show ?thesis by (intro exI [of _ ?s]) (simp add: session_state_def)
qed

section \<open>Bytes that get lost\<close>

text \<open>
  When no network buffer is to be had, \<open>handle_output_trigger\<close> has already taken the bytes out of the output buffer.
  Nothing is sent, the bytes are gone, and the session waits for an acknowledgement that cannot come: further writes
  only fill the buffer.
\<close>

lemma tcp_output_lost:
  assumes "s_state s = TcpStateEstablished False" "s_outputBuffer s = []" "bs \<noteq> []" "length bs \<le> 1400"
    and "\<And>a n. \<not> nbuf_ok env a n"
  shows "s_outputBuffer (push_output_bytes env bs s) = [] \<and> s_sent (push_output_bytes env bs s) = s_sent s \<and>
         s_state (push_output_bytes env bs s) = TcpStateEstablished True \<and>
         s_sent (push_output_bytes env' cs (push_output_bytes env bs s)) = s_sent s"
  using assms
  by (simp add: push_output_bytes_def handle_output_trigger_def established_output_trigger_def pop_output_bytes_def
      send_ack_push_def tcp_alloc_nbuf_def emit_def Let_def)

text \<open>
  An established session never looks at the sequence number of a segment. A segment that arrives twice with the
  expected acknowledgement number is delivered twice.
\<close>

theorem tcp_duplicate_delivered:
  fixes a b :: u32
  assumes "env_ok env" "s_state s = TcpStateEstablished w" "s_outputBuffer s = []"
    and "th_ack_seq t = sq_sequence (s_seq s)" "th_flags t = TCP_FLAGS_ACK OR TCP_FLAGS_PUSH" "th_hl t = 5"
    and "th_data t \<noteq> []" "length (th_data t) \<le> 1400"
  shows "s_inputBuffer (fst (handle_incoming_segment env (on_wire a b t) (fst (handle_incoming_segment env (on_wire a b t) s)))) =
           s_inputBuffer s @ th_data t @ th_data t"
proof -
  let ?s' = "fst (handle_incoming_segment env (on_wire a b t) s)"
  note d = data_accepted [OF assms, of a b]
  have acc: "accepted (on_wire a b t) u = th_data t" if "session_state u = Established" "th_ack_seq t = sq_sequence (s_seq u)" for u
  proof -
    have "unat (of_nat (length (th_data t)) :: u16) = length (th_data t)"
      using assms(8) by (simp add: unsigned_of_nat take_bit_nat_eq_self)
    then show ?thesis using that assms(5,6)
      by (simp add: accepted_def on_wire_def is_seq_match_def tcp_is_fin_def tcp_flags data_length_20 del: of_nat_add)
  qed
  have "sq_sequence (s_seq ?s') = sq_sequence (s_seq s)"
    using assms(1-4,5,6) by (simp add: established_incoming_def handle_output_trigger_def push_input_bytes_def run_simps alloc_ok_eq)
  then have "accepted (on_wire a b t) ?s' = th_data t" using acc [of ?s'] d(1) assms(4) by (simp add: session_state_def)
  moreover have "accepted (on_wire a b t) s = th_data t" using acc [of s] assms(2,4) by (simp add: session_state_def)
  ultimately show ?thesis by (simp add: input_incoming)
qed

theorem tcp_duplicate_delivered_witness:
  "\<exists>t s. th_data t = [7] \<and> s_inputBuffer s = [] \<and>
     s_inputBuffer (fst (handle_incoming_segment open_env (on_wire 1 2 t)
                           (fst (handle_incoming_segment open_env (on_wire 1 2 t) s)))) = [7, 7]"
proof -
  let ?s = "(new_TcpSession 10000 no_addr True)\<lparr>s_state := TcpStateEstablished False\<rparr>"
  let ?t = "\<lparr>th_sport = 80, th_dport = 10000, th_seq = 0, th_ack_seq = 0, th_hl = 5, th_rsvd = 0,
             th_flags = TCP_FLAGS_ACK OR TCP_FLAGS_PUSH, th_win = 0, th_csum = 0, th_urp = 0, th_data = [7]\<rparr>"
  show ?thesis
    using tcp_duplicate_delivered [OF open_env_ok, of ?s False ?t 1 2]
    by (intro exI [of _ ?t] exI [of _ ?s]) (simp add: new_TcpSession_def)
qed

end
