(* ===== verification/Tcp_Socket_Props.thy ===== *)
theory Tcp_Socket_Props
  imports Tcp_Props
begin

text \<open>
  Facts that span sessions, descriptors and the wire: the layout of a segment can be read back, a segment sent passes the
  receiver's checks, ports are handed out once, and a full accept queue stops the input task.
\<close>

section \<open>The wire format\<close>

lemma bytes16_be16 [simp]: "be16 (ucast (drop_bit 8 w)) (ucast w) = w"
  by (rule bit_word_eqI) (auto simp: be16_def bit_simps)

lemma bytes32_be32 [simp]: "be32 (ucast (drop_bit 24 w)) (ucast (drop_bit 16 w)) (ucast (drop_bit 8 w)) (ucast w) = w"
proof (rule bit_word_eqI)
  fix n assume n: "n < LENGTH(32)"
  consider "n < 8" | "8 \<le> n" "n < 16" | "16 \<le> n" "n < 24" | "24 \<le> n" by linarith
  then show "bit (be32 (ucast (drop_bit 24 w)) (ucast (drop_bit 16 w)) (ucast (drop_bit 8 w)) (ucast w)) n = bit w n"
    using n by cases (simp_all add: be32_def bit_simps, linarith+)
qed

lemma take_bit_self_bit: "take_bit k w = w \<Longrightarrow> bit w n \<Longrightarrow> n < k" for w :: "'a::len word"
  by (metis bit_take_bit_iff)

definition tcp_fits :: "tcp_t \<Rightarrow> bool" where
  "tcp_fits t \<longleftrightarrow> take_bit 4 (th_hl t) = th_hl t \<and> take_bit 3 (th_rsvd t) = th_rsvd t \<and> take_bit 9 (th_flags t) = th_flags t"

lemma header_bits:
  assumes "take_bit 4 h = (h :: u8)" "take_bit 3 r = (r :: u8)" "take_bit 9 f = (f :: u16)"
  defines "x \<equiv> push_bit 4 h OR push_bit 1 r OR ucast (drop_bit 8 f)"
  shows "drop_bit 4 x = h" "drop_bit 1 x AND 7 = r" "be16 (x AND 1) (ucast f) = f"
proof -
  note b = take_bit_self_bit [OF assms(1)] take_bit_self_bit [OF assms(2)] take_bit_self_bit [OF assms(3)]
  have m7: "7 = (mask 3 :: u8)" and m1: "1 = (mask 1 :: u8)" by (simp_all add: mask_eq_exp_minus_1)
  have x: "bit x n \<longleftrightarrow> (4 \<le> n \<and> bit h (n - 4)) \<or> (1 \<le> n \<and> bit r (n - 1)) \<or> bit f (8 + n)" if "n < 8" for n
    unfolding x_def bit_or_iff bit_push_bit_iff bit_unsigned_iff bit_drop_bit_eq using that by auto
  have f8: "\<not> bit f (8 + n)" if "0 < n" for n using b(3) [of "8 + n"] that by auto
  show "drop_bit 4 x = h"
  proof (rule bit_word_eqI)
    fix n assume n: "n < LENGTH(8)"
    show "bit (drop_bit 4 x) n = bit h n"
    proof (cases "n < 4")
      case True
      then show ?thesis using x [of "4 + n"] b(2) [of "3 + n"] f8 [of "4 + n"] by (auto simp: bit_drop_bit_eq)
    next
      case False
      then show ?thesis using b(1) [of n] bit_imp_le_length [of x "4 + n"] by (auto simp: bit_drop_bit_eq)
    qed
  qed
  show "drop_bit 1 x AND 7 = r"
  proof (rule bit_word_eqI)
    fix n assume n: "n < LENGTH(8)"
    show "bit (drop_bit 1 x AND 7) n = bit r n"
    proof (cases "n < 3")
      case True
      then show ?thesis unfolding m7 using x [of "1 + n"] f8 [of "1 + n"] by (auto simp: bit_simps)
    next
      case False
      then show ?thesis unfolding m7 using b(2) [of n] by (auto simp: bit_simps)
    qed
  qed
  show "be16 (x AND 1) (ucast f) = f"
  proof (rule bit_word_eqI)
    fix n assume n: "n < LENGTH(16)"
    show "bit (be16 (x AND 1) (ucast f)) n = bit f n"
    proof (cases "n < 9")
      case True
      then show ?thesis using n
        unfolding be16_def m1 using x [of 0] by (cases "n = 8") (auto simp: bit_simps)
    next
      case False
      then show ?thesis using n b(3) [of n]
        unfolding be16_def m1 by (auto simp: bit_simps)
    qed
  qed
qed

text \<open>The packed header is read back exactly, for fields that fit their bit widths.\<close>

lemma tcp_wire_roundtrip:
  assumes "tcp_fits t" shows "tcp_parse (tcp_bytes t) = Some t"
  using assms header_bits [of "th_hl t" "th_rsvd t" "th_flags t"]
  by (simp add: tcp_fits_def tcp_bytes_def bytes16_def bytes32_def)

section \<open>From one host to the other\<close>

text \<open>
  C22: a segment a session transmits passes \<open>tcp_validate_packet\<close> of the receiving host and is queued for its input task:
  the layout, the length and the checksum agree, whatever bytes it carries.
\<close>

theorem tcp_transmit_validates:
  assumes "env_ok env" "tcp_fits t" "th_csum t = 0" "th_hl t = 5" "length (th_data t) \<le> 1400"
    and "length (w_inSegments w) < 150"
  shows "\<exists>t' pkt. tcp_transmit env t s = (True, s\<lparr>s_sent := s_sent s @ [t']\<rparr>) \<and>
           pkt = (local_ip env (sa_address (s_remoteAddr s)), sa_address (s_remoteAddr s),
                  of_nat (TCP_HDR + length (th_data t)), tcp_bytes t') \<and>
           tcp_input pkt w = (0, w\<lparr>w_inSegments := w_inSegments w @ [pkt]\<rparr>) \<and> map_option pk_tcp (tcp_cast pkt) = Some t'"
proof -
  define daddr dlen where "daddr = sa_address (s_remoteAddr s)" and "dlen = (of_nat (TCP_HDR + length (th_data t)) :: u16)"
  let ?t = "t\<lparr>th_csum := tcp_checksum (local_ip env daddr) daddr dlen t\<rparr>"
  have e: "summed env s t = ?t" using assms(3) by (simp add: summed_def daddr_def dlen_def)
  have p: "tcp_parse (tcp_bytes ?t) = Some ?t" using assms(2) by (intro tcp_wire_roundtrip) (simp add: tcp_fits_def)
  have l: "unat (of_nat (length (th_data t)) :: u16) = length (th_data t)"
    using assms(5) by (simp add: unsigned_of_nat take_bit_nat_eq_self)
  have d: "tcp_data_length dlen ?t = of_nat (length (th_data t))"
    unfolding dlen_def by (rule data_length_20) (simp add: assms(4))
  have cs: "tcp_checksum a b n ?t = tcp_checksum a b n t" for a b n by (simp add: tcp_checksum_def)
  have v: "tcp_validate_packet (local_ip env daddr, daddr, dlen, tcp_bytes ?t)"
    using cs by (simp add: tcp_validate_packet_def tcp_cast_def p d l)
  have "tcp_transmit env t s = (True, s\<lparr>s_sent := s_sent s @ [?t]\<rparr>)" using transmit_ok [OF assms(1), of t s] e by simp
  moreover have "tcp_input (local_ip env daddr, daddr, dlen, tcp_bytes ?t) w =
      (0, w\<lparr>w_inSegments := w_inSegments w @ [(local_ip env daddr, daddr, dlen, tcp_bytes ?t)]\<rparr>)"
    using v assms(6) by (simp add: tcp_input_def)
  ultimately show ?thesis
    using p by (intro exI [of _ ?t] exI [of _ "(local_ip env daddr, daddr, dlen, tcp_bytes ?t)"])
      (simp add: tcp_cast_def daddr_def dlen_def)
qed

definition empty_world :: tcp_world where
  "empty_world = \<lparr>w_fds = Map.empty, w_next = 0, w_tcpSessions = [], w_tcpPorts = {}, w_basePort = 0, w_inSegments = []\<rparr>"

theorem tcp_transmit_validates_witness:
  "\<exists>t' pkt. map_option pk_tcp (tcp_cast pkt) = Some t' \<and>
     tcp_input pkt empty_world = (0, empty_world\<lparr>w_inSegments := w_inSegments empty_world @ [pkt]\<rparr>)"
proof -
  let ?t = "\<lparr>th_sport = 80, th_dport = 10000, th_seq = 7, th_ack_seq = 9, th_hl = 5, th_rsvd = 0,
             th_flags = TCP_FLAGS_ACK OR TCP_FLAGS_PUSH, th_win = 29200, th_csum = 0, th_urp = 0, th_data = [1, 2, 3]\<rparr>"
  let ?s = "new_TcpSession 80 no_addr True"
  have "tcp_fits ?t" "length (w_inSegments empty_world) < 150" by (simp_all add: tcp_fits_def tcp_flags empty_world_def)
  with tcp_transmit_validates [OF open_env_ok, of ?t empty_world ?s] show ?thesis by fastforce
qed

section \<open>Ports\<close>

lemma free_port_Some: "free_port ports i = Some j \<Longrightarrow> i \<le> j \<and> j < 65535 \<and> of_nat j \<notin> ports"
proof (induction ports i rule: free_port.induct)
  case (1 ports i)
  then show ?case by (auto simp: free_port.simps [of ports i] split: if_splits)
qed

lemma free_port_None: "free_port ports i = None \<Longrightarrow> i \<le> j \<Longrightarrow> j < 65535 \<Longrightarrow> of_nat j \<in> ports"
proof (induction ports i rule: free_port.induct)
  case (1 ports i)
  then show ?case by (cases "j = i") (auto simp: free_port.simps [of ports i] split: if_splits)
qed

text \<open>
  \<open>allocatePort\<close> hands out a port that nobody holds and marks it, or leaves the set of ports as it is; it refuses a
  requested port exactly when it is taken. Releasing the port gives back the set.
\<close>

lemma allocatePort_fresh:
  assumes "allocatePort rnd port w = (r, w')" "0 \<notin> w_tcpPorts w"
  shows "if r = 0 then w_tcpPorts w' = w_tcpPorts w \<and> (port \<noteq> 0 \<longrightarrow> port \<in> w_tcpPorts w)
         else r \<notin> w_tcpPorts w \<and> w_tcpPorts w' = insert r (w_tcpPorts w) \<and> (port \<noteq> 0 \<longrightarrow> r = port) \<and>
              snd (releasePort r w') = w'\<lparr>w_tcpPorts := w_tcpPorts w\<rparr>"
proof -
  define w1 where "w1 = (if w_basePort w = 0 then w\<lparr>w_basePort := max 10000 rnd\<rparr> else w)"
  have p1: "w_tcpPorts w1 = w_tcpPorts w" by (simp add: w1_def)
  show ?thesis
  proof (cases "port = 0")
    case False
    then show ?thesis using assms p1 by (auto simp: allocatePort_def Let_def w1_def releasePort_def split: if_splits)
  next
    case True
    have base: "0 < unat (w_basePort w1)"
    proof -
      have "w_basePort w1 \<noteq> 0"
      proof (cases "w_basePort w = 0")
        case True
        have "max 10000 rnd \<noteq> 0" by (cases "rnd \<le> 10000") (auto simp: max_def)
        with True show ?thesis by (simp add: w1_def)
      qed (simp add: w1_def)
      then show ?thesis by (simp add: unat_gt_0)
    qed
    show ?thesis
    proof (cases "free_port (w_tcpPorts w1) (unat (w_basePort w1))")
      case None
      then have "allocatePort rnd port w = (0, w1)"
        unfolding allocatePort_def Let_def w1_def [symmetric] using True by simp
      then show ?thesis using assms True p1 by simp
    next
      case (Some j)
      note j = free_port_Some [OF Some]
      have "unat (of_nat j :: u16) = j" using j by (simp add: unsigned_of_nat take_bit_nat_eq_self)
      then have "(of_nat j :: u16) \<noteq> 0" using base j by (metis unat_0 le_zero_eq not_less_zero)
      moreover have "allocatePort rnd port w = (of_nat j, w1\<lparr>w_tcpPorts := insert (of_nat j) (w_tcpPorts w1)\<rparr>)"
        unfolding allocatePort_def Let_def w1_def [symmetric] using True Some by simp
      then have "r = of_nat j" "w' = w1\<lparr>w_tcpPorts := insert (of_nat j) (w_tcpPorts w1)\<rparr>" using assms(1) by simp_all
      moreover have "of_nat j \<notin> w_tcpPorts w" using j p1 by simp
      ultimately show ?thesis by (simp add: True p1 releasePort_def)
    qed
  qed
qed

section \<open>The accept queue\<close>

text \<open>
  C23: a SYN for a listening session whose accept queue is full makes the input task destroy the new descriptor, whose
  \<open>close\<close> waits for a change of state that only the input task could bring about: the task blocks, and the segments
  queued behind the SYN are not looked at.
\<close>

theorem tcp_backlog_full_blocks:
  assumes "w_inSegments w = pkt # rest" "tcp_cast pkt = Some p" "th_flags (pk_tcp p) = TCP_FLAGS_SYN"
    and "getTcpDescriptorByFourTuple \<lparr>sa_address = pk_daddr p, sa_port = th_dport (pk_tcp p)\<rparr>
           \<lparr>sa_address = pk_saddr p, sa_port = th_sport (pk_tcp p)\<rparr> (w\<lparr>w_inSegments := rest\<rparr>) = Some i"
    and "w_fds w i = Some fd" "fd_session fd = Some s" "s_state s = TcpStateListening (length queue) queue"
  shows "\<exists>w'. tcp_in_turn env w = Blocks w' \<and> w_inSegments w' = rest \<and> w_next w \<in> set (w_tcpSessions w')"
proof -
  let ?remote = "\<lparr>sa_address = pk_saddr p, sa_port = th_sport (pk_tcp p)\<rparr>"
  let ?a = "createTcpClientAcceptor env (s_localPort s) ?remote (th_seq (pk_tcp p))"
  have "session_state ?a = SynReceived" by (simp add: createTcpClientAcceptor_def enter_def set_state_enum new_TcpStateSynReceived_def)
  then have "\<exists>s'. TcpSession_close env ?a = Inl s'" by (simp add: TcpSession_close_def)
  then show ?thesis
    using assms
    by (auto simp: tcp_in_turn_def process_in_segment_def handle_incoming_segment_def listening_incoming_def accept_client_def
        createListeningDescriptor_def new_fd_def destroy_fd_def fd_close_def put_fd_def registerTcpDescriptor_def)
qed

definition syn_segment :: tcp_t where
  "syn_segment = \<lparr>th_sport = 10000, th_dport = 80, th_seq = 7, th_ack_seq = 0, th_hl = 5, th_rsvd = 0,
     th_flags = TCP_FLAGS_SYN, th_win = 29200, th_csum = 0, th_urp = 0, th_data = []\<rparr>"

definition listener :: TcpFileDescriptor where
  "listener = \<lparr>fd_localPort = 80, fd_remoteAddr = no_addr,
     fd_session = Some ((new_TcpSession 80 no_addr True)\<lparr>s_state := TcpStateListening 0 []\<rparr>), fd_blocking_state = 1\<rparr>"

definition listening_world :: tcp_world where
  "listening_world = empty_world\<lparr>w_fds := [0 \<mapsto> listener], w_next := 1, w_tcpSessions := [0],
     w_inSegments := [(0x0a000202, 0x0a00020f, 20, tcp_bytes syn_segment)]\<rparr>"

theorem tcp_backlog_full_blocks_witness:
  "\<exists>w'. tcp_in_turn open_env listening_world = Blocks w' \<and> w_inSegments w' = []"
proof -
  let ?p = "\<lparr>pk_saddr = 0x0a000202, pk_daddr = 0x0a00020f, pk_ip_data_length = 20, pk_tcp = syn_segment\<rparr>"
  let ?s = "(new_TcpSession 80 no_addr True)\<lparr>s_state := TcpStateListening 0 []\<rparr>"
  have c: "tcp_cast (0x0a000202, 0x0a00020f, 20, tcp_bytes syn_segment) = Some ?p"
    using tcp_wire_roundtrip [of syn_segment] by (simp add: tcp_cast_def tcp_fits_def syn_segment_def tcp_flags)
  have g: "getTcpDescriptorByFourTuple \<lparr>sa_address = pk_daddr ?p, sa_port = th_dport (pk_tcp ?p)\<rparr>
      \<lparr>sa_address = pk_saddr ?p, sa_port = th_sport (pk_tcp ?p)\<rparr> (listening_world\<lparr>w_inSegments := []\<rparr>) = Some 0"
    by (simp add: getTcpDescriptorByFourTuple_def fd_sat_def listening_world_def listener_def active_match_def
        listening_match_def is_listening_def session_state_def syn_segment_def)
  have "\<exists>w'. tcp_in_turn open_env listening_world = Blocks w' \<and> w_inSegments w' = [] \<and>
      w_next listening_world \<in> set (w_tcpSessions w')"
    by (rule tcp_backlog_full_blocks [OF _ c _ g, where fd = listener and s = ?s and queue = "[]"])
      (simp_all add: listening_world_def empty_world_def listener_def syn_segment_def)
  then show ?thesis by blast
qed

end
