(* ===== verification/Basic_Queue.thy ===== *)
theory Basic_Queue
  imports Gz_Prelude
begin

text \<open>
  The bounded queue of src/kernel/lib/primitives/basic_queue.h: a vector whose reserved capacity is the bound. A call that
  waits leaves the processor once; \<open>wake\<close> is what the other threads make of the queue until it is woken.
\<close>

record 'a basic_queue =
  q_capacity :: nat
  q_data :: "'a list"

definition new_queue :: "nat \<Rightarrow> 'a basic_queue" where
  "new_queue capacity = \<lparr>q_capacity = capacity, q_data = []\<rparr>"

definition q_empty :: "'a basic_queue \<Rightarrow> bool" where
  "q_empty q = (q_data q = [])"

definition q_full :: "'a basic_queue \<Rightarrow> bool" where
  "q_full q = (q_capacity q = length (q_data q))"

definition q_push :: "('a basic_queue \<Rightarrow> 'a basic_queue) \<Rightarrow> bool \<Rightarrow> 'a \<Rightarrow> 'a basic_queue \<Rightarrow> bool \<times> 'a basic_queue" where
  "q_push wake wait v q =
     (let q1 = (if q_full q \<and> wait then wake q else q)
      in if q_full q1 then (False, q1) else (True, q1\<lparr>q_data := q_data q1 @ [v]\<rparr>))"

text \<open>A vector that is full doubles its capacity on insertion.\<close>

definition q_push_head :: "'a \<Rightarrow> 'a basic_queue \<Rightarrow> 'a basic_queue" where
  "q_push_head v q =
     q\<lparr>q_capacity := (if q_full q then max 1 (2 * q_capacity q) else q_capacity q), q_data := v # q_data q\<rparr>"

definition q_pop :: "('a basic_queue \<Rightarrow> 'a basic_queue) \<Rightarrow> bool \<Rightarrow> 'a basic_queue \<Rightarrow> 'a option \<times> 'a basic_queue" where
  "q_pop wake wait q =
     (let q1 = (if q_empty q \<and> wait then wake q else q)
      in case q_data q1 of [] \<Rightarrow> (None, q1) | v # vs \<Rightarrow> (Some v, q1\<lparr>q_data := vs\<rparr>))"

definition q_peek :: "('a basic_queue \<Rightarrow> 'a basic_queue) \<Rightarrow> bool \<Rightarrow> 'a basic_queue \<Rightarrow> 'a option \<times> 'a basic_queue" where
  "q_peek wake wait q =
     (let q1 = (if q_empty q \<and> wait then wake q else q)
      in (if q_empty q1 then None else Some (hd (q_data q1)), q1))"

definition q_peek_back :: "('a basic_queue \<Rightarrow> 'a basic_queue) \<Rightarrow> bool \<Rightarrow> 'a basic_queue \<Rightarrow> 'a option \<times> 'a basic_queue" where
  "q_peek_back wake wait q =
     (let q1 = (if q_empty q \<and> wait then wake q else q)
      in (if q_empty q1 then None else Some (last (q_data q1)), q1))"

definition q_remove :: "('a \<Rightarrow> bool) \<Rightarrow> 'a basic_queue \<Rightarrow> 'a basic_queue" where
  "q_remove comparator q = q\<lparr>q_data := filter (\<lambda>x. \<not> comparator x) (q_data q)\<rparr>"

definition q_reserve :: "nat \<Rightarrow> 'a basic_queue \<Rightarrow> 'a basic_queue" where
  "q_reserve n q = q\<lparr>q_capacity := max (q_capacity q) n\<rparr>"

text \<open>The size never exceeds the capacity.\<close>

definition q_ok :: "'a basic_queue \<Rightarrow> bool" where
  "q_ok q \<longleftrightarrow> length (q_data q) \<le> q_capacity q"

lemma q_ok_ops:
  assumes "q_ok q" and "q_ok (wake q)"
  shows "q_ok (snd (q_push wake wait v q))" "q_ok (q_push_head v q)" "q_ok (snd (q_pop wake wait q))"
    "q_ok (q_remove c q)" "q_ok (q_reserve n q)"
  using assms order_trans [OF length_filter_le [of "\<lambda>x. \<not> c x" "q_data q"]]
  by (auto simp: q_ok_def q_push_def q_push_head_def q_pop_def q_remove_def q_reserve_def q_full_def Let_def
      split: list.splits)

text \<open>The calls the kernel makes without waiting.\<close>

lemma q_push_nowait:
  "q_push wake False v q = (if q_full q then (False, q) else (True, q\<lparr>q_data := q_data q @ [v]\<rparr>))"
  by (simp add: q_push_def)

lemma q_pop_nowait:
  "q_pop wake False q = (case q_data q of [] \<Rightarrow> (None, q) | v # vs \<Rightarrow> (Some v, q\<lparr>q_data := vs\<rparr>))"
  by (simp add: q_pop_def)

end
