(* ===== verification/Sched_Policy.thy ===== *)
theory Sched_Policy
  imports Basic_Queue
begin

text \<open>
  Threads as the scheduler sees them (Thread.h), and the two scheduling policies of src/kernel/lib/kernel/proc: the
  multi-level feedback queue and round robin. A policy works on the threads and on queues of its own; both are in one
  state with the current thread. The kernel panics when a thread has no scheduling data.
\<close>

section \<open>Threads\<close>

datatype ThreadState = READY | RUNNING | SUSPENDED | TERMINATED

record policy_data =
  d_yieldRequested :: bool
  d_quantum :: int
  d_resetQuantum :: int
  d_runLevel :: int
  d_isPinned :: bool

record thread =
  t_state :: ThreadState
  t_data :: "policy_data option"
  t_stack_pointer :: u32
  t_kernelStack :: u32
  t_preemptionDisallowed :: bool
  t_exitCode :: int
  t_cpuTime :: u64
  t_return_value :: u32

record 'p sched =
  s_threads :: "nat \<Rightarrow> thread"
  s_policy :: 'p
  s_current :: "nat option"

definition upd_thread :: "nat \<Rightarrow> (thread \<Rightarrow> thread) \<Rightarrow> 'p sched \<Rightarrow> 'p sched" where
  "upd_thread t f s = s\<lparr>s_threads := (s_threads s)(t := f (s_threads s t))\<rparr>"

definition set_thread_state :: "ThreadState \<Rightarrow> nat \<Rightarrow> 'p sched \<Rightarrow> 'p sched" where
  "set_thread_state st t s = upd_thread t (\<lambda>th. th\<lparr>t_state := st\<rparr>) s"

definition set_data :: "policy_data \<Rightarrow> nat \<Rightarrow> 'p sched \<Rightarrow> 'p sched" where
  "set_data d t s = upd_thread t (\<lambda>th. th\<lparr>t_data := Some d\<rparr>) s"

definition dataFromThread :: "nat \<Rightarrow> 'p sched \<Rightarrow> policy_data result" where
  "dataFromThread t s =
     (case t_data (s_threads s t) of None \<Rightarrow> Inl (Panic ''nulled scheduler data'') | Some d \<Rightarrow> Inr d)"

definition Thread_yield :: "nat \<Rightarrow> 'p sched \<Rightarrow> 'p sched" where
  "Thread_yield t s =
     (case t_data (s_threads s t) of None \<Rightarrow> s | Some d \<Rightarrow> set_data (d\<lparr>d_yieldRequested := True\<rparr>) t s)"

definition DefaultQuantum :: int where
  "DefaultQuantum = 100"

section \<open>The multi-level feedback queue\<close>

definition RunLevels :: nat where
  "RunLevels = 5"

definition RunLevelDepth :: nat where
  "RunLevelDepth = 10"

type_synonym mlfq = "nat basic_queue list"

definition level_quantum :: "nat \<Rightarrow> int" where
  "level_quantum i = DefaultQuantum + 20 * int i"

definition new_mlfq :: mlfq where
  "new_mlfq = replicate RunLevels (new_queue RunLevelDepth)"

text \<open>The queue of a run level, if the level is an index of the array.\<close>

definition level_index :: "int \<Rightarrow> nat result" where
  "level_index l = (if 0 \<le> l \<and> l < int RunLevels then Inr (nat l) else Inl (Undefined ''run level''))"

definition level_push :: "nat \<Rightarrow> nat \<Rightarrow> mlfq sched \<Rightarrow> bool \<times> mlfq sched" where
  "level_push i t s =
     (case q_push id False t (s_policy s ! i) of (r, q) \<Rightarrow> (r, s\<lparr>s_policy := (s_policy s)[i := q]\<rparr>))"

definition level_remove :: "nat \<Rightarrow> nat \<Rightarrow> mlfq sched \<Rightarrow> mlfq sched" where
  "level_remove i t s = s\<lparr>s_policy := (s_policy s)[i := q_remove (\<lambda>x. x = t) (s_policy s ! i)]\<rparr>"

definition level_data :: "nat \<Rightarrow> bool \<Rightarrow> policy_data" where
  "level_data i pinned =
     \<lparr>d_yieldRequested = False, d_quantum = level_quantum i, d_resetQuantum = level_quantum i, d_runLevel = int i,
      d_isPinned = pinned\<rparr>"

definition mlfq_add :: "nat \<Rightarrow> mlfq sched \<Rightarrow> bool \<times> mlfq sched" where
  "mlfq_add t s =
     (let s1 = set_data (level_data 0 False) t s;
          s2 = (case s_current s1 of None \<Rightarrow> s1 | Some c \<Rightarrow> Thread_yield c s1);
          s3 = set_thread_state READY t s2
      in level_push 0 t s3)"

definition mlfq_remove :: "nat \<Rightarrow> mlfq sched \<Rightarrow> (bool \<times> mlfq sched) result" where
  "mlfq_remove t s =
     rbind (dataFromThread t s) (\<lambda>d.
       if d_runLevel d < 0 then Inr (False, s)
       else rbind (level_index (d_runLevel d)) (\<lambda>i.
         Inr (True, set_data (d\<lparr>d_runLevel := -1\<rparr>) t (level_remove i t s))))"

definition mlfq_setIdleThread :: "nat \<Rightarrow> mlfq sched \<Rightarrow> bool \<times> mlfq sched" where
  "mlfq_setIdleThread t s =
     level_push (RunLevels - 1) t (set_thread_state READY t (set_data (level_data (RunLevels - 1) True) t s))"

text \<open>The first non-empty run level loses its first thread.\<close>

fun choose_levels :: "mlfq \<Rightarrow> nat option \<times> mlfq" where
  "choose_levels [] = (None, [])"
| "choose_levels (q # qs) =
     (case q_pop id False q of
        (Some t, q1) \<Rightarrow> (Some t, q1 # qs)
      | (None, q1) \<Rightarrow> (case choose_levels qs of (r, qs1) \<Rightarrow> (r, q1 # qs1)))"

definition mlfq_choose :: "mlfq sched \<Rightarrow> nat option \<times> mlfq sched" where
  "mlfq_choose s = (case choose_levels (s_policy s) of (r, qs) \<Rightarrow> (r, s\<lparr>s_policy := qs\<rparr>))"

definition mlfq_yield :: "nat \<Rightarrow> mlfq sched \<Rightarrow> (nat option \<times> mlfq sched) result" where
  "mlfq_yield t s =
     rbind (dataFromThread t s) (\<lambda>d.
       let s1 = set_data (d\<lparr>d_quantum := d_resetQuantum d, d_yieldRequested := False\<rparr>) t s;
           s2 = set_thread_state READY t s1
       in rbind (level_index (d_runLevel d)) (\<lambda>i. Inr (mlfq_choose (snd (level_push i t s2)))))"

definition mlfq_evaluate_and_choose :: "nat \<Rightarrow> mlfq sched \<Rightarrow> (nat option \<times> mlfq sched) result" where
  "mlfq_evaluate_and_choose t s =
     rbind (dataFromThread t s) (\<lambda>d0.
       let d = d0\<lparr>d_quantum := d_quantum d0 - 1\<rparr>;
           s1 = set_data d t s
       in if d_yieldRequested d then mlfq_yield t s1
          else if d_quantum d \<le> 0 then
            let newRunLevel = (if d_runLevel d \<ge> int RunLevels - 1 then d_runLevel d else d_runLevel d + 1);
                l = (if \<not> d_isPinned d \<and> newRunLevel \<noteq> d_runLevel d then newRunLevel else d_runLevel d)
            in rbind (level_index l) (\<lambda>i.
                 let s2 = set_data (d\<lparr>d_runLevel := l, d_quantum := level_quantum i, d_resetQuantum := level_quantum i\<rparr>) t s1;
                     s3 = set_thread_state READY t s2
                 in Inr (mlfq_choose (snd (level_push i t s3))))
          else Inr (Some t, s1))"

definition mlfq_suspend :: "nat \<Rightarrow> mlfq sched \<Rightarrow> mlfq sched result" where
  "mlfq_suspend t s =
     rbind (dataFromThread t s) (\<lambda>d.
     rbind (level_index (d_runLevel d)) (\<lambda>i.
       Inr (level_remove i t (set_thread_state SUSPENDED t s))))"

definition mlfq_resume :: "nat \<Rightarrow> mlfq sched \<Rightarrow> mlfq sched result" where
  "mlfq_resume t s =
     rbind (dataFromThread t s) (\<lambda>d.
       let l = (if \<not> d_isPinned d \<and> 0 < d_runLevel d then d_runLevel d - 1 else d_runLevel d)
       in rbind (level_index l) (\<lambda>i.
            let s1 = set_data (d\<lparr>d_runLevel := l, d_quantum := level_quantum i, d_resetQuantum := level_quantum i\<rparr>) t s;
                s2 = set_thread_state READY t s1;
                s3 = (case s_current s2 of
                        None \<Rightarrow> s2
                      | Some c \<Rightarrow>
                          (case t_data (s_threads s2 c) of
                             None \<Rightarrow> s2
                           | Some dc \<Rightarrow> if d_runLevel dc > l then Thread_yield c s2 else s2))
            in Inr (snd (level_push i t s3))))"

section \<open>Round robin\<close>

definition ReadyQueueCapacity :: nat where
  "ReadyQueueCapacity = 50"

type_synonym rr = "nat basic_queue"

definition new_rr :: rr where
  "new_rr = new_queue ReadyQueueCapacity"

definition rr_push :: "nat \<Rightarrow> rr sched \<Rightarrow> bool \<times> rr sched" where
  "rr_push t s = (case q_push id False t (s_policy s) of (r, q) \<Rightarrow> (r, s\<lparr>s_policy := q\<rparr>))"

definition rr_choose :: "rr sched \<Rightarrow> nat option \<times> rr sched" where
  "rr_choose s = (case q_pop id False (s_policy s) of (r, q) \<Rightarrow> (r, s\<lparr>s_policy := q\<rparr>))"

definition rr_yield :: "nat \<Rightarrow> rr sched \<Rightarrow> (nat option \<times> rr sched) result" where
  "rr_yield t s =
     rbind (dataFromThread t s) (\<lambda>d.
       let s1 = set_thread_state READY t s;
           s2 = set_data (d\<lparr>d_quantum := d_resetQuantum d, d_yieldRequested := False\<rparr>) t s1
       in Inr (rr_choose (snd (rr_push t s2))))"

definition rr_evaluate_and_choose :: "nat \<Rightarrow> rr sched \<Rightarrow> (nat option \<times> rr sched) result" where
  "rr_evaluate_and_choose t s =
     rbind (dataFromThread t s) (\<lambda>d.
       if d_yieldRequested d then rr_yield t s
       else
         let d1 = d\<lparr>d_quantum := d_quantum d - 1\<rparr>;
             s1 = set_data d1 t s
         in if d_quantum d1 \<le> 0 then rr_yield t s1 else Inr (Some t, s1))"

definition rr_suspend :: "nat \<Rightarrow> rr sched \<Rightarrow> rr sched result" where
  "rr_suspend t s =
     rbind (dataFromThread t s) (\<lambda>d.
       Inr (set_thread_state SUSPENDED t (set_data (d\<lparr>d_quantum := d_resetQuantum d\<rparr>) t s)))"

definition rr_resume :: "nat \<Rightarrow> rr sched \<Rightarrow> rr sched result" where
  "rr_resume t s =
     rbind (dataFromThread t s) (\<lambda>d.
       let d1 = d\<lparr>d_quantum := (if s_current s = None then d_resetQuantum d else 0)\<rparr>;
           s1 = set_thread_state READY t (set_data d1 t s)
       in Inr (s1\<lparr>s_policy := q_push_head t (s_policy s1)\<rparr>))"

definition rr_add :: "nat \<Rightarrow> rr sched \<Rightarrow> bool \<times> rr sched" where
  "rr_add t s =
     rr_push t (set_thread_state READY t
       (set_data \<lparr>d_yieldRequested = False, d_quantum = DefaultQuantum, d_resetQuantum = DefaultQuantum,
                  d_runLevel = -1, d_isPinned = False\<rparr> t s))"

definition rr_remove :: "nat \<Rightarrow> rr sched \<Rightarrow> (bool \<times> rr sched) result" where
  "rr_remove t s = Inr (False, s)"

end
