(* ===== verification/Scheduler.thy ===== *)
theory Scheduler
  imports Sched_Policy
begin

text \<open>
  The scheduler, src/kernel/lib/kernel/proc/Scheduler.cpp, over the virtual functions of a policy; processes and signals
  (Process.cpp, ProcessProvider.cpp, SignalProvider.cpp) as far as they decide which threads run. A system call that
  reschedules is the call of \<open>schedule\<close> it leads to, with the registers saved on the kernel stack of the caller.
\<close>

section \<open>The virtual functions of a policy\<close>

record 'p SchedulingPolicy =
  sp_add :: "nat \<Rightarrow> 'p sched \<Rightarrow> bool \<times> 'p sched"
  sp_remove :: "nat \<Rightarrow> 'p sched \<Rightarrow> (bool \<times> 'p sched) result"
  sp_choose :: "'p sched \<Rightarrow> nat option \<times> 'p sched"
  sp_evaluate_and_choose :: "nat \<Rightarrow> 'p sched \<Rightarrow> (nat option \<times> 'p sched) result"
  sp_suspend :: "nat \<Rightarrow> 'p sched \<Rightarrow> 'p sched result"
  sp_resume :: "nat \<Rightarrow> 'p sched \<Rightarrow> 'p sched result"

definition MultiLevelFeedbackQueuePolicy :: "mlfq SchedulingPolicy" where
  "MultiLevelFeedbackQueuePolicy =
     \<lparr>sp_add = mlfq_add, sp_remove = mlfq_remove, sp_choose = mlfq_choose,
      sp_evaluate_and_choose = mlfq_evaluate_and_choose, sp_suspend = mlfq_suspend, sp_resume = mlfq_resume\<rparr>"

definition SimpleRoundRobinSchedulingPolicy :: "rr SchedulingPolicy" where
  "SimpleRoundRobinSchedulingPolicy =
     \<lparr>sp_add = rr_add, sp_remove = rr_remove, sp_choose = rr_choose,
      sp_evaluate_and_choose = rr_evaluate_and_choose, sp_suspend = rr_suspend, sp_resume = rr_resume\<rparr>"

section \<open>Scheduling\<close>

definition KernelStackSize :: u32 where
  "KernelStackSize = 0x4000"

definition is_in_kstack_range :: "thread \<Rightarrow> u32 \<Rightarrow> bool" where
  "is_in_kstack_range th ptr =
     (let start = t_kernelStack th; stop = start + KernelStackSize in pointer_is_in_range ptr start stop)"

text \<open>The part of \<open>schedule\<close> after \<open>switch_to_proc\<close>: it returns the stack pointer of the chosen thread.\<close>

definition switch_to_proc :: "nat option \<times> 'p sched \<Rightarrow> (u32 \<times> 'p sched) result" where
  "switch_to_proc p =
     (case p of
        (None, s) \<Rightarrow> Inl (Assertion ''NULL != _currentThread'')
      | (Some t, s) \<Rightarrow>
          if t_state (s_threads s t) \<noteq> READY \<and> t_state (s_threads s t) \<noteq> RUNNING
          then Inl (Panic ''chosen thread is in an invalid state'')
          else Inr (t_stack_pointer (s_threads s t), set_thread_state RUNNING t (s\<lparr>s_current := Some t\<rparr>)))"

definition schedule :: "'p SchedulingPolicy \<Rightarrow> u32 \<Rightarrow> 'p sched \<Rightarrow> (u32 \<times> 'p sched) result" where
  "schedule pol regs s =
     (case s_current s of
        None \<Rightarrow> switch_to_proc (sp_choose pol s)
      | Some t \<Rightarrow>
          if \<not> is_in_kstack_range (s_threads s t) regs then Inl (Assertion ''is_in_kstack_range'')
          else
            let s1 = upd_thread t (\<lambda>th. th\<lparr>t_stack_pointer := regs\<rparr>) s
            in if t_state (s_threads s1 t) = TERMINATED \<or> t_state (s_threads s1 t) = SUSPENDED
               then switch_to_proc (sp_choose pol s1)
               else rbind (sp_evaluate_and_choose pol t s1) switch_to_proc)"

text \<open>Tick handlers answer whether they handled the tick, and the registers to go on with.\<close>

type_synonym 'p tick_handler = "u32 \<Rightarrow> 'p sched \<Rightarrow> bool \<times> u32 \<times> 'p sched"

fun tick_handlers :: "'p tick_handler list \<Rightarrow> u32 \<Rightarrow> 'p sched \<Rightarrow> bool \<times> u32 \<times> 'p sched" where
  "tick_handlers [] regs s = (False, regs, s)"
| "tick_handlers (h # hs) regs s =
     (case h regs s of (True, regs1, s1) \<Rightarrow> (True, regs1, s1) | (False, regs1, s1) \<Rightarrow> tick_handlers hs regs1 s1)"

definition onTickTimer :: "'p SchedulingPolicy \<Rightarrow> 'p tick_handler list \<Rightarrow> u32 \<Rightarrow> 'p sched \<Rightarrow> (u32 \<times> 'p sched) result" where
  "onTickTimer pol handlers regs s =
     (let s1 = (case s_current s of None \<Rightarrow> s | Some t \<Rightarrow> upd_thread t (\<lambda>th. th\<lparr>t_cpuTime := t_cpuTime th + 1\<rparr>) s)
      in case tick_handlers handlers regs s1 of
           (True, regs1, s2) \<Rightarrow> Inr (regs1, s2)
         | (False, regs1, s2) \<Rightarrow> schedule pol regs1 s2)"

text \<open>The registered handlers: functions with their argument.\<close>

definition addTickHandler :: "'f option \<Rightarrow> 'a \<Rightarrow> ('f \<times> 'a) list \<Rightarrow> bool \<times> ('f \<times> 'a) list" where
  "addTickHandler func arg hs = (case func of None \<Rightarrow> (False, hs) | Some f \<Rightarrow> (True, hs @ [(f, arg)]))"

definition removeTickHandler :: "'f option \<Rightarrow> ('f \<times> 'a) list \<Rightarrow> bool \<times> ('f \<times> 'a) list" where
  "removeTickHandler func hs =
     (case func of None \<Rightarrow> (False, hs) | Some f \<Rightarrow> (True, filter (\<lambda>h. fst h \<noteq> f) hs))"

text \<open>Suspending, resuming and killing one thread.\<close>

definition suspend_thread :: "'p SchedulingPolicy \<Rightarrow> u32 \<Rightarrow> nat \<Rightarrow> 'p sched \<Rightarrow> (bool \<times> 'p sched) result" where
  "suspend_thread pol regs t s =
     (case t_state (s_threads s t) of
        SUSPENDED \<Rightarrow> Inr (True, s)
      | TERMINATED \<Rightarrow> Inr (False, s)
      | _ \<Rightarrow>
          rbind (sp_suspend pol t s) (\<lambda>s1.
            if s_current s1 = Some t \<and> \<not> t_preemptionDisallowed (s_threads s1 t)
            then rbind (schedule pol regs s1) (\<lambda>(sp, s2). Inr (True, s2))
            else Inr (True, s1)))"

definition resume_thread :: "'p SchedulingPolicy \<Rightarrow> u32 \<Rightarrow> nat \<Rightarrow> 'p sched \<Rightarrow> (bool \<times> 'p sched) result" where
  "resume_thread pol val t s =
     (if t_state (s_threads s t) \<noteq> SUSPENDED then Inr (False, s)
      else rbind (sp_resume pol t s) (\<lambda>s1. Inr (True, upd_thread t (\<lambda>th. th\<lparr>t_return_value := val\<rparr>) s1)))"

definition kill_thread :: "'p SchedulingPolicy \<Rightarrow> u32 \<Rightarrow> bool \<Rightarrow> nat \<Rightarrow> 'p sched \<Rightarrow> (bool \<times> 'p sched) result" where
  "kill_thread pol regs yield t s =
     (if t_state (s_threads s t) = TERMINATED then Inr (True, s)
      else
        let s1 = upd_thread t (\<lambda>th. th\<lparr>t_state := TERMINATED, t_exitCode := 127\<rparr>) s
        in if yield \<and> s_current s1 = Some t \<and> \<not> t_preemptionDisallowed (s_threads s1 t)
           then rbind (schedule pol regs s1) (\<lambda>(sp, s2). Inr (True, s2))
           else Inr (True, s1))"

definition addThread :: "'p SchedulingPolicy \<Rightarrow> nat \<Rightarrow> 'p sched \<Rightarrow> bool \<times> 'p sched" where
  "addThread pol t s = sp_add pol t s"

definition removeThread :: "'p SchedulingPolicy \<Rightarrow> nat \<Rightarrow> 'p sched \<Rightarrow> (bool \<times> 'p sched) result" where
  "removeThread pol t s =
     rbind (sp_remove pol t s) (\<lambda>(r, s1).
       if \<not> r then Inr (False, s1)
       else Inr (True, if s_current s1 = Some t then s1\<lparr>s_current := None\<rparr> else s1))"

text \<open>A system call whose handler runs with interrupts disabled: preemption is off while it runs.\<close>

definition handleIRQDisabledSyscall ::
  "'p SchedulingPolicy \<Rightarrow> ('p sched \<Rightarrow> (int \<times> 'p sched) result) \<Rightarrow> u32 \<Rightarrow> 'p sched \<Rightarrow> (int \<times> u32 \<times> 'p sched) result" where
  "handleIRQDisabledSyscall pol handler regs s =
     (case s_current s of
        None \<Rightarrow> rbind (handler s) (\<lambda>(ret, s1). Inr (ret, regs, s1))
      | Some t \<Rightarrow>
          let old = t_preemptionDisallowed (s_threads s t)
          in rbind (handler (upd_thread t (\<lambda>th. th\<lparr>t_preemptionDisallowed := True\<rparr>) s)) (\<lambda>(ret, s1).
               let s2 = upd_thread t (\<lambda>th. th\<lparr>t_preemptionDisallowed := old\<rparr>) s1
               in if t_state (s_threads s2 t) \<noteq> READY \<and> t_state (s_threads s2 t) \<noteq> RUNNING
                  then rbind (schedule pol regs s2) (\<lambda>(sp, s3). Inr (ret, sp, s3))
                  else Inr (ret, regs, s2)))"

definition handleIRQEnabledSyscall ::
  "('p sched \<Rightarrow> (int \<times> 'p sched) result) \<Rightarrow> 'p sched \<Rightarrow> (int \<times> 'p sched) result" where
  "handleIRQEnabledSyscall handler s =
     (case s_current s of
        None \<Rightarrow> Inl (Panic ''IRQ enabled syscalls cannot be called without a running thread'')
      | Some t \<Rightarrow>
          let old = t_preemptionDisallowed (s_threads s t)
          in rbind (handler (upd_thread t (\<lambda>th. th\<lparr>t_preemptionDisallowed := False\<rparr>) s)) (\<lambda>(ret, s1).
               Inr (ret, upd_thread t (\<lambda>th. th\<lparr>t_preemptionDisallowed := old\<rparr>) s1)))"

section \<open>Processes\<close>

definition PID_CURRENT :: int where "PID_CURRENT = -512"
definition PID_PROCESS_START :: int where "PID_PROCESS_START = 1"
definition PID_PROCESS_END :: int where "PID_PROCESS_END = 254"
definition PID_THREAD_START :: int where "PID_THREAD_START = 1000"
definition PID_THREAD_END :: int where "PID_THREAD_END = 1999"

record process =
  p_pid :: int
  p_threads :: "nat list"
  p_terminated :: bool
  p_exitCode :: int

record 'p kernel =
  k_sched :: "'p sched"
  k_processes :: "process list"
  k_tids :: "nat \<Rightarrow> int"

text \<open>The loops over the threads of a process; preemption is off for each while it is handled.\<close>

definition without_preemption ::
  "(nat \<Rightarrow> 'p sched \<Rightarrow> (bool \<times> 'p sched) result) \<Rightarrow> nat \<Rightarrow> 'p sched \<Rightarrow> 'p sched result" where
  "without_preemption f t s =
     (let old = t_preemptionDisallowed (s_threads s t)
      in rbind (f t (upd_thread t (\<lambda>th. th\<lparr>t_preemptionDisallowed := True\<rparr>) s)) (\<lambda>(r, s1).
           Inr (upd_thread t (\<lambda>th. th\<lparr>t_preemptionDisallowed := old\<rparr>) s1)))"

fun each_thread ::
  "(nat \<Rightarrow> 'p sched \<Rightarrow> (bool \<times> 'p sched) result) \<Rightarrow> nat list \<Rightarrow> 'p sched \<Rightarrow> 'p sched result" where
  "each_thread f [] s = Inr s"
| "each_thread f (t # ts) s = rbind (without_preemption f t s) (each_thread f ts)"

definition current_in :: "process \<Rightarrow> 'p sched \<Rightarrow> bool" where
  "current_in p s = (case s_current s of None \<Rightarrow> False | Some t \<Rightarrow> t \<in> set (p_threads p))"

definition suspend_process :: "'p SchedulingPolicy \<Rightarrow> u32 \<Rightarrow> process \<Rightarrow> 'p sched \<Rightarrow> (bool \<times> 'p sched) result" where
  "suspend_process pol regs p s =
     (let should_yield = current_in p s
      in rbind (each_thread (suspend_thread pol regs) (p_threads p) s) (\<lambda>s1.
           if should_yield then rbind (schedule pol regs s1) (\<lambda>(sp, s2). Inr (True, s2)) else Inr (True, s1)))"

definition resume_process :: "'p SchedulingPolicy \<Rightarrow> u32 \<Rightarrow> process \<Rightarrow> 'p sched \<Rightarrow> (bool \<times> 'p sched) result" where
  "resume_process pol val p s =
     rbind (each_thread (resume_thread pol val) (p_threads p) s) (\<lambda>s1. Inr (True, s1))"

definition kill_process :: "'p SchedulingPolicy \<Rightarrow> u32 \<Rightarrow> bool \<Rightarrow> process \<Rightarrow> 'p sched \<Rightarrow> (bool \<times> 'p sched) result" where
  "kill_process pol regs yield p s =
     (if p_terminated p then Inr (False, s)
      else
        let should_yield = (yield \<and> current_in p s)
        in rbind (each_thread (kill_thread pol regs True) (p_threads p) s) (\<lambda>s1.
             if should_yield then rbind (schedule pol regs s1) (\<lambda>(sp, s2). Inr (True, s2)) else Inr (True, s1)))"

definition getProcessByPid :: "int \<Rightarrow> 'p kernel \<Rightarrow> process option result" where
  "getProcessByPid pid k =
     (if pid = PID_CURRENT then Inl (Assertion ''PID_CURRENT != pid'') else Inr (find (\<lambda>p. p_pid p = pid) (k_processes k)))"

definition getThreadByTid :: "int \<Rightarrow> 'p kernel \<Rightarrow> nat option result" where
  "getThreadByTid tid k =
     (if tid = PID_CURRENT then Inl (Assertion ''PID_CURRENT != tid'')
      else Inr (find (\<lambda>t. k_tids k t = tid) (concat (map p_threads (k_processes k)))))"

definition Process_cpu_time :: "process \<Rightarrow> 'p sched \<Rightarrow> u64" where
  "Process_cpu_time p s = fold (\<lambda>t time. time + t_cpuTime (s_threads s t)) (p_threads p) 0"

definition Process_addThread :: "'p SchedulingPolicy \<Rightarrow> int \<Rightarrow> nat \<Rightarrow> bool \<Rightarrow> 'p kernel \<Rightarrow> 'p kernel result" where
  "Process_addThread pol pid t sched_it k =
     (let k1 = k\<lparr>k_processes := map (\<lambda>p. if p_pid p = pid then p\<lparr>p_threads := p_threads p @ [t]\<rparr> else p) (k_processes k)\<rparr>
      in if sched_it
         then (case addThread pol t (k_sched k1) of
                 (r, s1) \<Rightarrow> if r then Inr (k1\<lparr>k_sched := s1\<rparr>) else Inl (Panic ''failed to add thread to scheduler''))
         else Inr k1)"

definition upd_process :: "int \<Rightarrow> (process \<Rightarrow> process) \<Rightarrow> 'p kernel \<Rightarrow> 'p kernel" where
  "upd_process pid f k = k\<lparr>k_processes := map (\<lambda>p. if p_pid p = pid then f p else p) (k_processes k)\<rparr>"

definition Process_terminate :: "int \<Rightarrow> int \<Rightarrow> 'p kernel \<Rightarrow> 'p kernel" where
  "Process_terminate exit_code pid k =
     upd_process pid (\<lambda>p. p\<lparr>p_exitCode := exit_code, p_terminated := True\<rparr>) k"

fun remove_threads :: "'p SchedulingPolicy \<Rightarrow> nat list \<Rightarrow> 'p sched \<Rightarrow> 'p sched result" where
  "remove_threads pol [] s = Inr s"
| "remove_threads pol (t # ts) s = rbind (removeThread pol t s) (\<lambda>(r, s1). remove_threads pol ts s1)"

definition ProcessProvider_destroyProcess :: "'p SchedulingPolicy \<Rightarrow> process \<Rightarrow> 'p kernel \<Rightarrow> 'p kernel result" where
  "ProcessProvider_destroyProcess pol p k =
     rbind (remove_threads pol (p_threads p) (k_sched k)) (\<lambda>s1.
       Inr (k\<lparr>k_sched := s1, k_processes := filter (\<lambda>q. p_pid q \<noteq> p_pid p) (k_processes k)\<rparr>))"

text \<open>\<open>protected\<close>: the pids of the system process and of the timer process.\<close>

definition Scheduler_destroyProcess ::
  "int set \<Rightarrow> 'p SchedulingPolicy \<Rightarrow> process \<Rightarrow> 'p kernel \<Rightarrow> (bool \<times> 'p kernel) result" where
  "Scheduler_destroyProcess protected pol p k =
     (if p_pid p \<in> protected then Inr (False, k)
      else if \<not> p_terminated p then Inr (False, k)
      else rbind (ProcessProvider_destroyProcess pol p k) (\<lambda>k1. Inr (True, k1)))"

text \<open>\<open>waitForPid\<close> of a process that has exited; \<open>None\<close> waits for its exit event.\<close>

definition waitForPid :: "int set \<Rightarrow> 'p SchedulingPolicy \<Rightarrow> int \<Rightarrow> 'p kernel \<Rightarrow> (int option \<times> 'p kernel) result" where
  "waitForPid protected pol pid k =
     rbind (getProcessByPid pid k) (\<lambda>proc. case proc of
        None \<Rightarrow> Inr (Some (-1), k)
      | Some p \<Rightarrow>
          if p_terminated p
          then rbind (Scheduler_destroyProcess protected pol p k) (\<lambda>(r, k1). Inr (Some (p_exitCode p), k1))
          else Inr (None, k))"

definition discardAllThreads :: "'p SchedulingPolicy \<Rightarrow> u32 \<Rightarrow> process \<Rightarrow> 'p kernel \<Rightarrow> (bool \<times> 'p kernel) result" where
  "discardAllThreads pol regs p k =
     rbind (kill_process pol regs False p (k_sched k)) (\<lambda>(r, s1).
       if \<not> r then Inr (False, k\<lparr>k_sched := s1\<rparr>)
       else rbind (remove_threads pol (p_threads p) s1) (\<lambda>s2.
              Inr (True, upd_process (p_pid p) (\<lambda>q. q\<lparr>p_threads := []\<rparr>) (k\<lparr>k_sched := s2\<rparr>))))"

section \<open>Signals\<close>

definition SIG_KILL :: int where "SIG_KILL = 9"
definition SIG_STOP :: int where "SIG_STOP = 17"
definition SIG_CONT :: int where "SIG_CONT = 19"
definition SIG_ABORT :: int where "SIG_ABORT = 6"

definition lift_sched :: "'p kernel \<Rightarrow> (bool \<times> 'p sched) result \<Rightarrow> (bool \<times> 'p kernel) result" where
  "lift_sched k r = rbind r (\<lambda>(b, s). Inr (b, k\<lparr>k_sched := s\<rparr>))"

definition signalProcessPid ::
  "'p SchedulingPolicy \<Rightarrow> u32 \<Rightarrow> int \<Rightarrow> int \<Rightarrow> u32 \<Rightarrow> 'p kernel \<Rightarrow> (bool \<times> 'p kernel) result" where
  "signalProcessPid pol regs pid signal_nr val k =
     rbind (getProcessByPid pid k) (\<lambda>proc. case proc of
        None \<Rightarrow> Inr (False, k)
      | Some p \<Rightarrow>
          if signal_nr = SIG_STOP then lift_sched k (suspend_process pol regs p (k_sched k))
          else if signal_nr = SIG_CONT then lift_sched k (resume_process pol val p (k_sched k))
          else if signal_nr = SIG_ABORT \<or> signal_nr = SIG_KILL then
            rbind (kill_process pol regs False p (k_sched k)) (\<lambda>(r, s).
              if \<not> r then Inr (False, k\<lparr>k_sched := s\<rparr>)
              else Inr (True, Process_terminate (-127) pid (k\<lparr>k_sched := s\<rparr>)))
          else Inr (False, k))"

definition signalThreadTid ::
  "'p SchedulingPolicy \<Rightarrow> u32 \<Rightarrow> int \<Rightarrow> int \<Rightarrow> u32 \<Rightarrow> 'p kernel \<Rightarrow> (bool \<times> 'p kernel) result" where
  "signalThreadTid pol regs tid signal_nr val k =
     rbind (getThreadByTid tid k) (\<lambda>thread. case thread of
        None \<Rightarrow> Inr (False, k)
      | Some t \<Rightarrow>
          if signal_nr = SIG_STOP then lift_sched k (suspend_thread pol regs t (k_sched k))
          else if signal_nr = SIG_CONT then lift_sched k (resume_thread pol val t (k_sched k))
          else if signal_nr = SIG_ABORT \<or> signal_nr = SIG_KILL then lift_sched k (kill_thread pol regs True t (k_sched k))
          else Inr (False, k))"

definition getCurrentPid :: "'p kernel \<Rightarrow> int" where
  "getCurrentPid k =
     (case s_current (k_sched k) of
        None \<Rightarrow> -1
      | Some t \<Rightarrow> (case find (\<lambda>p. t \<in> set (p_threads p)) (k_processes k) of None \<Rightarrow> -1 | Some p \<Rightarrow> p_pid p))"

definition signalPid ::
  "'p SchedulingPolicy \<Rightarrow> u32 \<Rightarrow> int \<Rightarrow> int \<Rightarrow> u32 \<Rightarrow> 'p kernel \<Rightarrow> (bool \<times> 'p kernel) result" where
  "signalPid pol regs pid0 signal_nr val k =
     (let pid = (if pid0 = PID_CURRENT then getCurrentPid k else pid0)
      in if PID_PROCESS_START \<le> pid \<and> pid \<le> PID_PROCESS_END then signalProcessPid pol regs pid signal_nr val k
         else if PID_THREAD_START \<le> pid \<and> pid \<le> PID_THREAD_END then signalThreadTid pol regs pid signal_nr val k
         else Inr (False, k))"

end
