(* ===== verification/Scheduler_Props.thy ===== *)
theory Scheduler_Props
  imports Scheduler
begin

text \<open>
  The scheduler never loses a thread and never stops: the contract of a policy, its two implementations, and the
  invariant of the feedback queue that every operation of the scheduler keeps.
\<close>

section \<open>The contract of a policy\<close>

text \<open>
  The scheduler relies on \<open>choose\<close> to hand out a queued thread, to take it out of the queue and to change nothing else.
\<close>

locale sched_policy =
  fixes pol :: "'p SchedulingPolicy"
    and ready :: "'p \<Rightarrow> nat set"
    and ok :: "'p \<Rightarrow> bool"
  assumes choose_None: "ok (s_policy s) \<Longrightarrow> fst (sp_choose pol s) = None \<longleftrightarrow> ready (s_policy s) = {}"
    and choose_Some: "ok (s_policy s) \<Longrightarrow> sp_choose pol s = (Some t, s') \<Longrightarrow>
      t \<in> ready (s_policy s) \<and> ready (s_policy s') = ready (s_policy s) - {t} \<and> ok (s_policy s') \<and>
      s' = s\<lparr>s_policy := s_policy s'\<rparr>"
begin

text \<open>Switching to a chosen thread succeeds as long as some thread is queued and queued threads are ready.\<close>

lemma switch_ok:
  assumes "ok (s_policy s)" "ready (s_policy s) \<noteq> {}" "\<And>t. t \<in> ready (s_policy s) \<Longrightarrow> t_state (s_threads s t) = READY"
  obtains t p where "t \<in> ready (s_policy s)" "ready p = ready (s_policy s) - {t}" "ok p"
    "switch_to_proc (sp_choose pol s) =
       Inr (t_stack_pointer (s_threads s t), set_thread_state RUNNING t (s\<lparr>s_policy := p, s_current := Some t\<rparr>))"
proof -
  obtain r s' where c: "sp_choose pol s = (r, s')" by fastforce
  with choose_None [OF assms(1)] assms(2) obtain t where r: "r = Some t" by fastforce
  note t = choose_Some [OF assms(1) c [unfolded r]]
  have "switch_to_proc (sp_choose pol s) =
       Inr (t_stack_pointer (s_threads s t), set_thread_state RUNNING t (s\<lparr>s_policy := s_policy s', s_current := Some t\<rparr>))"
    using t assms(3) [of t] c r
    by (simp add: switch_to_proc_def) (metis (no_types, lifting) sched.select_convs(1) sched.simps(4) sched.surjective sched.update_convs)
  with t that show thesis by blast
qed

end

section \<open>The implementations\<close>

definition levels_ready :: "mlfq \<Rightarrow> nat set" where
  "levels_ready qs = (\<Union>q \<in> set qs. set (q_data q))"

text \<open>No thread is queued twice.\<close>

definition levels_ok :: "mlfq \<Rightarrow> bool" where
  "levels_ok qs \<longleftrightarrow>
     (\<forall>i < length qs. distinct (q_data (qs ! i))) \<and>
     (\<forall>i < length qs. \<forall>j < length qs. i \<noteq> j \<longrightarrow> set (q_data (qs ! i)) \<inter> set (q_data (qs ! j)) = {})"

lemma choose_levels_None: "fst (choose_levels qs) = None \<longleftrightarrow> levels_ready qs = {}"
  by (induction qs) (auto simp: levels_ready_def q_pop_nowait split: prod.split list.split option.split)

text \<open>Which level loses its first thread.\<close>

lemma choose_levels_Some:
  assumes "choose_levels qs = (Some t, qs')"
  obtains i vs where "i < length qs" "q_data (qs ! i) = t # vs" "qs' = qs[i := (qs ! i)\<lparr>q_data := vs\<rparr>]"
    "\<And>j. j < i \<Longrightarrow> q_data (qs ! j) = []"
  using assms
proof (induction qs arbitrary: qs' thesis)
  case (Cons q qs)
  show ?case
  proof (cases "q_data q")
    case Nil
    then obtain qs1 where c: "choose_levels qs = (Some t, qs1)" "qs' = q # qs1"
      using Cons.prems(2) by (auto simp: q_pop_nowait split: prod.splits)
    obtain i vs where i: "i < length qs" "q_data (qs ! i) = t # vs" "qs1 = qs[i := (qs ! i)\<lparr>q_data := vs\<rparr>]"
      "\<And>j. j < i \<Longrightarrow> q_data (qs ! j) = []"
      using Cons.IH [OF _ c(1)] by blast
    show ?thesis
      by (rule Cons.prems(1) [of "Suc i" vs]) (use i Nil c in \<open>auto simp: less_Suc_eq_0_disj nth_Cons'\<close>)
  next
    case v: (Cons v vs)
    then show ?thesis using Cons.prems(2) by (intro Cons.prems(1) [of 0 vs]) (auto simp: q_pop_nowait)
  qed
qed simp

lemma levels_ready_nth: "levels_ready qs = (\<Union>i < length qs. set (q_data (qs ! i)))"
  unfolding levels_ready_def by (fastforce simp: in_set_conv_nth)

lemma choose_levels_ready:
  assumes "choose_levels qs = (Some t, qs')"
  shows "t \<in> levels_ready qs" "levels_ready qs' \<subseteq> levels_ready qs"
proof -
  obtain i vs where i: "i < length qs" "q_data (qs ! i) = t # vs" "qs' = qs[i := (qs ! i)\<lparr>q_data := vs\<rparr>]"
    using choose_levels_Some [OF assms] by blast
  show "t \<in> levels_ready qs" using i by (auto simp: levels_ready_nth intro!: bexI [of _ i])
  have "set (q_data (qs' ! k)) \<subseteq> set (q_data (qs ! k))" if "k < length qs" for k
    using i that by (cases "k = i") auto
  then show "levels_ready qs' \<subseteq> levels_ready qs" using i(3) by (auto simp: levels_ready_nth)
qed

lemma choose_levels_ok:
  assumes "levels_ok qs" "choose_levels qs = (Some t, qs')"
  shows "t \<in> levels_ready qs" "levels_ready qs' = levels_ready qs - {t}" "levels_ok qs'"
proof -
  obtain i vs where i: "i < length qs" "q_data (qs ! i) = t # vs" "qs' = qs[i := (qs ! i)\<lparr>q_data := vs\<rparr>]"
    using choose_levels_Some [OF assms(2)] by blast
  have d: "j < length qs \<Longrightarrow> j \<noteq> i \<Longrightarrow> t \<notin> set (q_data (qs ! j))" for j
    using assms(1) i(1,2) unfolding levels_ok_def by (metis disjoint_iff list.set_intros(1))
  have v: "t \<notin> set vs" "distinct vs" using assms(1) i(1,2) unfolding levels_ok_def by (metis distinct.simps(2))+
  show "t \<in> levels_ready qs" using i by (auto simp: levels_ready_nth intro!: bexI [of _ i])
  have e: "set (q_data (qs' ! j)) = set (q_data (qs ! j)) - {t}" if "j < length qs" for j
    using i d [OF that] v that by (cases "j = i") auto
  then show "levels_ready qs' = levels_ready qs - {t}"
    unfolding levels_ready_nth using i(3) by auto
  have "distinct (q_data (qs' ! j))" if "j < length qs" for j
    using i v that assms(1) by (cases "j = i") (auto simp: levels_ok_def)
  moreover have "set (q_data (qs' ! j)) \<inter> set (q_data (qs' ! k)) = {}" if "j < length qs" "k < length qs" "j \<noteq> k" for j k
  proof -
    have "set (q_data (qs ! j)) \<inter> set (q_data (qs ! k)) = {}" using assms(1) that by (simp add: levels_ok_def)
    then show ?thesis unfolding e [OF that(1)] e [OF that(2)] by blast
  qed
  ultimately show "levels_ok qs'" unfolding levels_ok_def using i(3) by simp
qed

interpretation mlfq: sched_policy MultiLevelFeedbackQueuePolicy levels_ready levels_ok
proof
  fix s :: "mlfq sched"
  assume ok: "levels_ok (s_policy s)"
  show "(fst (sp_choose MultiLevelFeedbackQueuePolicy s) = None) = (levels_ready (s_policy s) = {})"
    using choose_levels_None [of "s_policy s"]
    by (auto simp: MultiLevelFeedbackQueuePolicy_def mlfq_choose_def split: prod.split)
  fix t s'
  assume "sp_choose MultiLevelFeedbackQueuePolicy s = (Some t, s')"
  then obtain qs where c: "choose_levels (s_policy s) = (Some t, qs)" "s' = s\<lparr>s_policy := qs\<rparr>"
    by (auto simp: MultiLevelFeedbackQueuePolicy_def mlfq_choose_def split: prod.splits)
  with choose_levels_ok [OF ok c(1)]
  show "t \<in> levels_ready (s_policy s) \<and> levels_ready (s_policy s') = levels_ready (s_policy s) - {t} \<and>
      levels_ok (s_policy s') \<and> s' = s\<lparr>s_policy := s_policy s'\<rparr>"
    by simp
qed

interpretation rr: sched_policy SimpleRoundRobinSchedulingPolicy "\<lambda>q. set (q_data q)" "\<lambda>q. distinct (q_data q)"
  by unfold_locales
    (auto simp: SimpleRoundRobinSchedulingPolicy_def rr_choose_def q_pop_nowait split: list.splits prod.splits)

section \<open>The invariant of the feedback queue\<close>

definition level :: "mlfq sched \<Rightarrow> nat \<Rightarrow> int" where
  "level s t = d_runLevel (the (t_data (s_threads s t)))"

text \<open>A thread has data: its level is one of the five, its quantum is the level's and not used up.\<close>

definition data_ok :: "thread \<Rightarrow> bool" where
  "data_ok th \<longleftrightarrow>
     (\<exists>d. t_data th = Some d \<and> 0 \<le> d_runLevel d \<and> d_runLevel d < int RunLevels \<and>
          d_resetQuantum d = level_quantum (nat (d_runLevel d)) \<and> 0 < d_quantum d \<and> d_quantum d \<le> d_resetQuantum d)"

text \<open>
  \<open>A\<close> are the threads the scheduler knows. Every queue holds, once each, exactly the ready threads of its level.
\<close>

definition queues_inv :: "nat set \<Rightarrow> mlfq sched \<Rightarrow> bool" where
  "queues_inv A s \<longleftrightarrow>
     finite A \<and> card A \<le> RunLevelDepth \<and> length (s_policy s) = RunLevels \<and> (\<forall>t \<in> A. data_ok (s_threads s t)) \<and>
     (\<forall>i < RunLevels. q_capacity (s_policy s ! i) = RunLevelDepth \<and> distinct (q_data (s_policy s ! i)) \<and>
        set (q_data (s_policy s ! i)) = {t \<in> A. t_state (s_threads s t) = READY \<and> level s t = int i})"

text \<open>The only running thread is the current one; the idle thread can always run.\<close>

definition sched_inv :: "nat set \<Rightarrow> nat \<Rightarrow> mlfq sched \<Rightarrow> bool" where
  "sched_inv A idle s \<longleftrightarrow>
     queues_inv A s \<and> idle \<in> A \<and> t_state (s_threads s idle) \<in> {READY, RUNNING} \<and>
     (\<forall>t. s_current s = Some t \<longrightarrow> t \<in> A \<and> t_state (s_threads s t) \<noteq> READY) \<and>
     (\<forall>t \<in> A. t_state (s_threads s t) = RUNNING \<longrightarrow> s_current s = Some t)"

lemma sched_invI:
  assumes "queues_inv A s" "idle \<in> A" "t_state (s_threads s idle) = READY \<or> t_state (s_threads s idle) = RUNNING"
    and "\<And>t. s_current s = Some t \<Longrightarrow> t \<in> A \<and> t_state (s_threads s t) \<noteq> READY"
    and "\<And>t. t \<in> A \<Longrightarrow> t_state (s_threads s t) = RUNNING \<Longrightarrow> s_current s = Some t"
  shows "sched_inv A idle s"
  using assms unfolding sched_inv_def by blast

lemma running_current: "sched_inv A idle s \<Longrightarrow> t \<in> A \<Longrightarrow> t_state (s_threads s t) = RUNNING \<Longrightarrow> s_current s = Some t"
  unfolding sched_inv_def by blast

lemma current_known: "sched_inv A idle s \<Longrightarrow> s_current s = Some t \<Longrightarrow> t \<in> A \<and> t_state (s_threads s t) \<noteq> READY"
  unfolding sched_inv_def by blast

lemma sched_queues: "sched_inv A idle s \<Longrightarrow> queues_inv A s"
  unfolding sched_inv_def by blast

lemma sched_idle: "sched_inv A idle s \<Longrightarrow> idle \<in> A \<and> (t_state (s_threads s idle) = READY \<or> t_state (s_threads s idle) = RUNNING)"
  unfolding sched_inv_def by blast

lemma queues_data: "queues_inv A s \<Longrightarrow> t \<in> A \<Longrightarrow> data_ok (s_threads s t)"
  by (simp add: queues_inv_def)

lemma queues_inv_ok:
  assumes "queues_inv A s"
  shows "levels_ok (s_policy s)" "levels_ready (s_policy s) = {t \<in> A. t_state (s_threads s t) = READY}"
proof -
  show "levels_ok (s_policy s)" using assms unfolding levels_ok_def queues_inv_def by fastforce
  have "\<exists>i < RunLevels. level s t = int i" if "t \<in> A" for t
  proof -
    have "data_ok (s_threads s t)" using assms that by (simp add: queues_inv_def)
    then obtain d where "t_data (s_threads s t) = Some d" "0 \<le> d_runLevel d" "d_runLevel d < int RunLevels"
      by (auto simp: data_ok_def)
    then show ?thesis by (intro exI [of _ "nat (d_runLevel d)"]) (auto simp: level_def)
  qed
  then show "levels_ready (s_policy s) = {t \<in> A. t_state (s_threads s t) = READY}"
    using assms unfolding levels_ready_nth queues_inv_def by fastforce
qed

text \<open>Changes of a thread that the queues do not depend on.\<close>

lemma queues_inv_cong:
  assumes "queues_inv A s" "s_policy s' = s_policy s"
    and "\<And>t. t \<in> A \<Longrightarrow> data_ok (s_threads s' t) \<and> level s' t = level s t \<and>
           (t_state (s_threads s' t) = READY \<longleftrightarrow> t_state (s_threads s t) = READY)"
  shows "queues_inv A s'"
  using assms unfolding queues_inv_def by (simp cong: conj_cong)

lemma upd_thread_simps [simp]:
  "s_policy (upd_thread t f s) = s_policy s" "s_current (upd_thread t f s) = s_current s"
  "s_threads (upd_thread t f s) u = (if u = t then f (s_threads s t) else s_threads s u)"
  by (simp_all add: upd_thread_def)

lemma set_thread_simps [simp]:
  "s_policy (set_thread_state st t s) = s_policy s" "s_current (set_thread_state st t s) = s_current s"
  "s_threads (set_thread_state st t s) u = (if u = t then (s_threads s t)\<lparr>t_state := st\<rparr> else s_threads s u)"
  "s_policy (set_data d t s) = s_policy s" "s_current (set_data d t s) = s_current s"
  "s_threads (set_data d t s) u = (if u = t then (s_threads s t)\<lparr>t_data := Some d\<rparr> else s_threads s u)"
  by (simp_all add: set_thread_state_def set_data_def)

lemma Thread_yield_simps [simp]:
  "s_policy (Thread_yield t s) = s_policy s" "s_current (Thread_yield t s) = s_current s"
  "t_state (s_threads (Thread_yield t s) u) = t_state (s_threads s u)" "level (Thread_yield t s) u = level s u"
  "data_ok (s_threads (Thread_yield t s) u) = data_ok (s_threads s u)"
  by (auto simp: Thread_yield_def level_def data_ok_def split: option.split)

lemma queues_inv_yield: "queues_inv A s \<Longrightarrow> queues_inv A (Thread_yield t s)"
  by (rule queues_inv_cong [of A s]) (auto simp: queues_inv_def)

text \<open>A thread that was not ready enters the queue of its level; there is room for it.\<close>

lemma enqueue:
  assumes inv: "queues_inv A s" and t: "t \<in> A \<longrightarrow> t_state (s_threads s t) \<noteq> READY" and c: "card (insert t A) \<le> RunLevelDepth"
    and i: "i < RunLevels"
    and s': "s_policy s' = s_policy s" "t_state (s_threads s' t) = READY" "data_ok (s_threads s' t)" "level s' t = int i"
      "\<And>u. u \<in> A \<Longrightarrow> u \<noteq> t \<Longrightarrow> data_ok (s_threads s' u) \<and> level s' u = level s u \<and> t_state (s_threads s' u) = t_state (s_threads s u)"
  shows "fst (level_push i t s')" "queues_inv (insert t A) (snd (level_push i t s'))"
    "s_threads (snd (level_push i t s')) = s_threads s'" "s_current (snd (level_push i t s')) = s_current s'"
proof -
  let ?q = "s_policy s ! i"
  have q: "q_capacity ?q = RunLevelDepth" "distinct (q_data ?q)"
    "set (q_data ?q) = {u \<in> A. t_state (s_threads s u) = READY \<and> level s u = int i}" and A: "finite A"
    "length (s_policy s) = RunLevels"
    using inv i unfolding queues_inv_def by auto
  have nt: "t \<notin> set (q_data ?q)" using q(3) t by auto
  have "set (q_data ?q) \<subseteq> insert t A - {t}" using q(3) nt by auto
  then have "card (set (q_data ?q)) \<le> card (insert t A - {t})" by (intro card_mono) (use A in auto)
  also have "\<dots> < card (insert t A)" using A by (intro card_Diff1_less) auto
  also have "\<dots> \<le> RunLevelDepth" by (rule c)
  finally have "length (q_data ?q) < RunLevelDepth" using q(2) by (simp add: distinct_card)
  then have p: "level_push i t s' = (True, s'\<lparr>s_policy := (s_policy s)[i := ?q\<lparr>q_data := q_data ?q @ [t]\<rparr>]\<rparr>)"
    using q(1) s'(1) by (simp add: level_push_def q_push_nowait q_full_def)
  then show "fst (level_push i t s')" "s_threads (snd (level_push i t s')) = s_threads s'"
    "s_current (snd (level_push i t s')) = s_current s'" by simp_all
  have lv: "level (s'\<lparr>s_policy := x\<rparr>) u = level s' u" for x u by (simp add: level_def)
  have f: "s_policy (s'\<lparr>s_policy := x\<rparr>) = x" "s_threads (s'\<lparr>s_policy := x\<rparr>) = s_threads s'" for x by simp_all
  show "queues_inv (insert t A) (snd (level_push i t s'))"
    unfolding queues_inv_def p snd_conv f
  proof (intro conjI ballI allI impI)
    show "finite (insert t A)" "card (insert t A) \<le> RunLevelDepth" using A c by simp_all
    show "length ((s_policy s)[i := ?q\<lparr>q_data := q_data ?q @ [t]\<rparr>]) = RunLevels" using A by simp
    show "data_ok (s_threads s' u)" if "u \<in> insert t A" for u using that s'(3) s'(5) [of u] by (cases "u = t") auto
    fix k assume k: "k < RunLevels"
    have qk: "q_capacity (s_policy s ! k) = RunLevelDepth" "distinct (q_data (s_policy s ! k))"
      "set (q_data (s_policy s ! k)) = {u \<in> A. t_state (s_threads s u) = READY \<and> level s u = int k}"
      using inv k unfolding queues_inv_def by auto
    show "q_capacity ((s_policy s)[i := ?q\<lparr>q_data := q_data ?q @ [t]\<rparr>] ! k) = RunLevelDepth"
      "distinct (q_data ((s_policy s)[i := ?q\<lparr>q_data := q_data ?q @ [t]\<rparr>] ! k))"
      using qk(1,2) q(1,2) nt by (cases "k = i"; simp)+
    have e: "set (q_data ((s_policy s)[i := ?q\<lparr>q_data := q_data ?q @ [t]\<rparr>] ! k)) =
        (if k = i then insert t (set (q_data ?q)) else set (q_data (s_policy s ! k)))"
      using i A by auto
    have "u \<in> (if k = i then insert t (set (q_data ?q)) else set (q_data (s_policy s ! k))) \<longleftrightarrow>
        u \<in> insert t A \<and> t_state (s_threads s' u) = READY \<and> level s' u = int k" for u
    proof (cases "u = t")
      case True
      then have "u \<notin> set (q_data (s_policy s ! k))" using qk(3) t by blast
      with True show ?thesis using s'(2,4) by simp
    next
      case False
      then have "u \<in> (if k = i then insert t (set (q_data ?q)) else set (q_data (s_policy s ! k))) \<longleftrightarrow>
          u \<in> set (q_data (s_policy s ! k))" by simp
      also have "\<dots> \<longleftrightarrow> u \<in> insert t A \<and> t_state (s_threads s' u) = READY \<and> level s' u = int k"
        using False s'(5) [of u] unfolding qk(3) by auto
      finally show ?thesis .
    qed
    then show "set (q_data ((s_policy s)[i := ?q\<lparr>q_data := q_data ?q @ [t]\<rparr>] ! k)) =
        {u \<in> insert t A. t_state (s_threads s' u) = READY \<and>
           level (s'\<lparr>s_policy := (s_policy s)[i := ?q\<lparr>q_data := q_data ?q @ [t]\<rparr>]\<rparr>) u = int k}"
      unfolding e lv by blast
  qed
qed

text \<open>A thread leaves the queues.\<close>

lemma dequeue:
  assumes inv: "queues_inv A s" and B: "B = A \<or> B = A - {t}" and i: "i < RunLevels" "t \<in> A \<longrightarrow> level s t = int i"
    and s': "s_policy s' = s_policy s" "t \<in> B \<longrightarrow> data_ok (s_threads s' t) \<and> t_state (s_threads s' t) \<noteq> READY"
      "\<And>u. u \<noteq> t \<Longrightarrow> s_threads s' u = s_threads s u"
  shows "queues_inv B (level_remove i t s')" "s_threads (level_remove i t s') = s_threads s'"
    "s_current (level_remove i t s') = s_current s'"
proof -
  let ?q = "s_policy s ! i"
  have A: "finite A" "card A \<le> RunLevelDepth" "length (s_policy s) = RunLevels" "\<And>u. u \<in> A \<Longrightarrow> data_ok (s_threads s u)"
    using inv i unfolding queues_inv_def by auto
  have sub: "B \<subseteq> A" using B by auto
  have r: "level_remove i t s' = s'\<lparr>s_policy := (s_policy s)[i := q_remove (\<lambda>x. x = t) ?q]\<rparr>"
    using s'(1) by (simp add: level_remove_def)
  then show "s_threads (level_remove i t s') = s_threads s'" "s_current (level_remove i t s') = s_current s'" by simp_all
  have lv: "level (s'\<lparr>s_policy := x\<rparr>) u = level s' u" "u \<noteq> t \<Longrightarrow> level s' u = level s u" for x u
    using s'(3) [of u] by (simp_all add: level_def)
  have f: "s_policy (s'\<lparr>s_policy := x\<rparr>) = x" "s_threads (s'\<lparr>s_policy := x\<rparr>) = s_threads s'" for x by simp_all
  show "queues_inv B (level_remove i t s')"
    unfolding queues_inv_def r f
  proof (intro conjI ballI allI impI)
    show "finite B" using sub A(1) finite_subset by blast
    show "card B \<le> RunLevelDepth" using card_mono [OF A(1) sub] A(2) by simp
    show "length ((s_policy s)[i := q_remove (\<lambda>x. x = t) ?q]) = RunLevels" using A by simp
    show "data_ok (s_threads s' u)" if "u \<in> B" for u using that s'(2) s'(3) [of u] A(4) [of u] sub by (cases "u = t") auto
    fix k assume k: "k < RunLevels"
    have qk: "q_capacity (s_policy s ! k) = RunLevelDepth" "distinct (q_data (s_policy s ! k))"
      "set (q_data (s_policy s ! k)) = {u \<in> A. t_state (s_threads s u) = READY \<and> level s u = int k}"
      using inv k unfolding queues_inv_def by auto
    show "q_capacity ((s_policy s)[i := q_remove (\<lambda>x. x = t) ?q] ! k) = RunLevelDepth"
      "distinct (q_data ((s_policy s)[i := q_remove (\<lambda>x. x = t) ?q] ! k))"
      using qk(1,2) by (auto simp: q_remove_def split: if_split)
    have e: "set (q_data ((s_policy s)[i := q_remove (\<lambda>x. x = t) ?q] ! k)) = set (q_data (s_policy s ! k)) - {t}"
    proof (cases "k = i")
      case True
      then show ?thesis using i A by (auto simp: q_remove_def)
    next
      case False
      then have "t \<notin> set (q_data (s_policy s ! k))" using qk(3) i(2) by auto
      with False show ?thesis by simp
    qed
    have "u \<in> set (q_data (s_policy s ! k)) - {t} \<longleftrightarrow> u \<in> B \<and> t_state (s_threads s' u) = READY \<and> level s' u = int k" for u
      using qk(3) s'(2) s'(3) [of u] lv(2) [of u] B by (cases "u = t") auto
    then show "set (q_data ((s_policy s)[i := q_remove (\<lambda>x. x = t) ?q] ! k)) =
        {u \<in> B. t_state (s_threads s' u) = READY \<and> level (s'\<lparr>s_policy := (s_policy s)[i := q_remove (\<lambda>x. x = t) ?q]\<rparr>) u = int k}"
      unfolding e lv(1) by blast
  qed
qed

section \<open>Operations keep the invariant\<close>

lemma level_ready:
  assumes "queues_inv A s" "i < RunLevels" "t \<in> set (q_data (s_policy s ! i))"
  shows "t \<in> A" "t_state (s_threads s t) = READY" "level s t = int i"
  using assms unfolding queues_inv_def by auto

text \<open>Choosing a thread and switching to it, when no thread is running and the idle thread is ready.\<close>

lemma choose_switch:
  assumes inv: "queues_inv A s" and idle: "idle \<in> A" "t_state (s_threads s idle) = READY"
    and nr: "\<And>t. t \<in> A \<Longrightarrow> t_state (s_threads s t) \<noteq> RUNNING"
  shows "\<exists>sp s'. switch_to_proc (mlfq_choose s) = Inr (sp, s') \<and> sched_inv A idle s'"
proof -
  have "levels_ready (s_policy s) \<noteq> {}" using queues_inv_ok(2) [OF inv] idle by blast
  then obtain t qs' where c: "choose_levels (s_policy s) = (Some t, qs')"
    using choose_levels_None [of "s_policy s"] by (metis fst_conv not_None_eq prod.collapse)
  obtain i vs where i: "i < length (s_policy s)" "q_data (s_policy s ! i) = t # vs"
      "qs' = (s_policy s)[i := (s_policy s ! i)\<lparr>q_data := vs\<rparr>]"
    using choose_levels_Some [OF c] by blast
  have len: "length (s_policy s) = RunLevels" using inv by (simp add: queues_inv_def)
  have il: "i < RunLevels" using i(1) len by simp
  have t: "t \<in> A" "t_state (s_threads s t) = READY" "level s t = int i"
    using level_ready [OF inv il, of t] i(2) by simp_all
  let ?s1 = "set_thread_state RUNNING t (s\<lparr>s_current := Some t\<rparr>)"
  have "distinct (t # vs)" using inv il i(2) unfolding queues_inv_def by metis
  then have "filter (\<lambda>x. x \<noteq> t) vs = vs" by (simp add: filter_id_conv) (metis)
  then have r: "level_remove i t ?s1 = set_thread_state RUNNING t (s\<lparr>s_policy := qs', s_current := Some t\<rparr>)"
    using i by (simp add: level_remove_def set_thread_state_def upd_thread_def q_remove_def)
  have d: "data_ok (s_threads s t)" using inv t(1) by (simp add: queues_inv_def)
  have "queues_inv A (level_remove i t ?s1)"
    by (rule dequeue(1) [OF inv _ il]) (use t d in \<open>auto simp: data_ok_def\<close>)
  then have "sched_inv A idle (level_remove i t ?s1)"
    unfolding r by (intro sched_invI) (use t idle nr in \<open>auto split: if_splits\<close>)
  moreover have "switch_to_proc (mlfq_choose s) = Inr (t_stack_pointer (s_threads s t), level_remove i t ?s1)"
    unfolding r using t c by (simp add: switch_to_proc_def mlfq_choose_def)
  ultimately show ?thesis by blast
qed

text \<open>The processor is handed on: a thread that is no longer running enters its queue and another is chosen.\<close>

lemma requeue_switch:
  assumes inv: "sched_inv A idle s" and cur: "s_current s = Some t" "t_state (s_threads s t) = RUNNING"
    and d: "d_runLevel d = int i" "i < RunLevels" "d_resetQuantum d = level_quantum i" "0 < d_quantum d" "d_quantum d \<le> d_resetQuantum d"
    and s1: "s_policy s1 = s_policy s" "\<And>u. u \<noteq> t \<Longrightarrow> s_threads s1 u = s_threads s u"
      "t_data (s_threads s1 t) = Some d" "t_state (s_threads s1 t) = READY"
  shows "\<exists>sp s'. switch_to_proc (mlfq_choose (snd (level_push i t s1))) = Inr (sp, s') \<and> sched_inv A idle s'"
proof -
  have q: "queues_inv A s" and t: "t \<in> A" using sched_queues [OF inv] current_known [OF inv cur(1)] by simp_all
  then have A: "insert t A = A" "card (insert t A) \<le> RunLevelDepth" by (simp_all add: queues_inv_def insert_absorb)
  have dk: "data_ok (s_threads s1 t)" using d s1(3) by (auto simp: data_ok_def)
  have lv: "level s1 t = int i" using d(1) s1(3) by (simp add: level_def)
  have u: "data_ok (s_threads s1 u) \<and> level s1 u = level s u \<and> t_state (s_threads s1 u) = t_state (s_threads s u)"
    if "u \<in> A" "u \<noteq> t" for u
    using q that s1(2) [of u] by (simp add: queues_inv_def level_def)
  note e = enqueue [OF q _ A(2) d(2) s1(1) s1(4) dk lv u]
  have e2: "queues_inv A (snd (level_push i t s1))" using e(2) cur(2) A(1) by simp
  have e3: "s_threads (snd (level_push i t s1)) = s_threads s1" using e(3) cur(2) by simp
  show ?thesis
  proof (rule choose_switch [OF e2])
    show "idle \<in> A" using inv by (simp add: sched_inv_def)
    show "t_state (s_threads (snd (level_push i t s1)) idle) = READY"
      unfolding e3 using sched_idle [OF inv] running_current [OF inv, of idle] cur(1) s1(2) [of idle] s1(4)
      by (cases "idle = t") auto
    show "t_state (s_threads (snd (level_push i t s1)) v) \<noteq> RUNNING" if "v \<in> A" for v
      unfolding e3 using running_current [OF inv that] cur(1) s1(2) [of v] s1(4) by (cases "v = t") auto
  qed
qed

text \<open>A decision of the processor by the timer or by a system call.\<close>

lemma schedule_inv:
  assumes inv: "sched_inv A idle s" and regs: "\<And>t. s_current s = Some t \<Longrightarrow> is_in_kstack_range (s_threads s t) regs"
  shows "\<exists>sp s'. schedule MultiLevelFeedbackQueuePolicy regs s = Inr (sp, s') \<and> sched_inv A idle s'"
proof (cases "s_current s")
  case None
  have nr: "t \<in> A \<Longrightarrow> t_state (s_threads s t) \<noteq> RUNNING" for t using running_current [OF inv] None by fastforce
  have "t_state (s_threads s idle) = READY" using sched_idle [OF inv] nr by blast
  then show ?thesis
    using choose_switch [OF sched_queues [OF inv], of idle] sched_idle [OF inv] nr None
    by (simp add: schedule_def MultiLevelFeedbackQueuePolicy_def)
next
  case (Some t)
  have t: "t \<in> A" "t_state (s_threads s t) \<noteq> READY" using current_known [OF inv Some] by simp_all
  obtain d where d: "t_data (s_threads s t) = Some d" "0 \<le> d_runLevel d" "d_runLevel d < int RunLevels"
    "d_resetQuantum d = level_quantum (nat (d_runLevel d))" "0 < d_quantum d" "d_quantum d \<le> d_resetQuantum d"
    using queues_data [OF sched_queues [OF inv] t(1)] by (auto simp: data_ok_def)
  let ?s1 = "upd_thread t (\<lambda>th. th\<lparr>t_stack_pointer := regs\<rparr>) s"
  show ?thesis
  proof (cases "t_state (s_threads s t) = RUNNING")
    case False
    have q1: "queues_inv A ?s1"
      by (rule queues_inv_cong [OF sched_queues [OF inv]])
        (use queues_data [OF sched_queues [OF inv]] in \<open>auto simp: level_def data_ok_def\<close>)
    have nr: "u \<in> A \<Longrightarrow> t_state (s_threads ?s1 u) \<noteq> RUNNING" for u using running_current [OF inv, of u] Some False by auto
    have "t_state (s_threads ?s1 idle) = READY" using sched_idle [OF inv] nr [of idle] by auto
    with choose_switch [OF q1 _ this nr] sched_idle [OF inv] show ?thesis
      using Some regs False t by (cases "t_state (s_threads s t)") (simp_all add: schedule_def MultiLevelFeedbackQueuePolicy_def)
  next
    case True
    have sch: "schedule MultiLevelFeedbackQueuePolicy regs s = rbind (mlfq_evaluate_and_choose t ?s1) switch_to_proc"
      using Some regs True by (simp add: schedule_def MultiLevelFeedbackQueuePolicy_def)
    let ?d = "d\<lparr>d_quantum := d_quantum d - 1\<rparr>"
    let ?i = "nat (d_runLevel d)"
    have i: "?i < RunLevels" "int ?i = d_runLevel d" "level_index (d_runLevel d) = Inr ?i"
      using d(2,3) by (simp_all add: level_index_def)
    have dt: "dataFromThread t ?s1 = Inr d" "dataFromThread t (set_data x t ?s1) = Inr x" for x
      using d(1) by (simp_all add: dataFromThread_def)
    consider "d_yieldRequested d" | "\<not> d_yieldRequested d" "d_quantum d - 1 \<le> 0" | "\<not> d_yieldRequested d" "\<not> d_quantum d - 1 \<le> 0"
      by blast
    then show ?thesis
    proof cases
      case 1
      let ?d' = "?d\<lparr>d_quantum := d_resetQuantum d, d_yieldRequested := False\<rparr>"
      let ?s2 = "set_thread_state READY t (set_data ?d' t (set_data ?d t ?s1))"
      have "mlfq_evaluate_and_choose t ?s1 = Inr (mlfq_choose (snd (level_push ?i t ?s2)))"
        using 1 i(3) by (simp add: mlfq_evaluate_and_choose_def mlfq_yield_def dt Let_def)
      moreover have "\<exists>sp s'. switch_to_proc (mlfq_choose (snd (level_push ?i t ?s2))) = Inr (sp, s') \<and> sched_inv A idle s'"
        by (rule requeue_switch [OF inv Some True, of ?d']) (use d i in simp_all)
      ultimately show ?thesis unfolding sch by simp
    next
      case 2
      define l where "l = (if \<not> d_isPinned d \<and> d_runLevel d < int RunLevels - 1 then d_runLevel d + 1 else d_runLevel d)"
      let ?j = "nat l"
      have j: "?j < RunLevels" "int ?j = l" "level_index l = Inr ?j" "0 \<le> l"
        using d(2,3) by (auto simp: level_index_def l_def)
      let ?d' = "?d\<lparr>d_runLevel := l, d_quantum := level_quantum ?j, d_resetQuantum := level_quantum ?j\<rparr>"
      let ?s2 = "set_thread_state READY t (set_data ?d' t (set_data ?d t ?s1))"
      have "mlfq_evaluate_and_choose t ?s1 = Inr (mlfq_choose (snd (level_push ?j t ?s2)))"
        using 2 j(3) by (auto simp: mlfq_evaluate_and_choose_def dt Let_def l_def)
      moreover have "\<exists>sp s'. switch_to_proc (mlfq_choose (snd (level_push ?j t ?s2))) = Inr (sp, s') \<and> sched_inv A idle s'"
        by (rule requeue_switch [OF inv Some True, of ?d']) (use j in \<open>simp_all add: level_quantum_def DefaultQuantum_def\<close>)
      ultimately show ?thesis unfolding sch by simp
    next
      case 3
      let ?s2 = "set_data ?d t ?s1"
      let ?s3 = "set_thread_state RUNNING t (?s2\<lparr>s_current := Some t\<rparr>)"
      have ev: "mlfq_evaluate_and_choose t ?s1 = Inr (Some t, ?s2)"
        using 3 by (simp add: mlfq_evaluate_and_choose_def dt Let_def)
      have sw: "switch_to_proc (Some t, ?s2) = Inr (t_stack_pointer (s_threads ?s2 t), ?s3)"
        using True by (simp add: switch_to_proc_def)
      have "sched_inv A idle ?s3"
      proof (rule sched_invI)
        show "queues_inv A ?s3"
          by (rule queues_inv_cong [OF sched_queues [OF inv]])
            (use queues_data [OF sched_queues [OF inv]] d 3 True in \<open>auto simp: level_def data_ok_def\<close>)
        show "idle \<in> A" using sched_idle [OF inv] by blast
        show "t_state (s_threads ?s3 idle) = READY \<or> t_state (s_threads ?s3 idle) = RUNNING"
          using sched_idle [OF inv] by (cases "idle = t") simp_all
        show "u \<in> A \<and> t_state (s_threads ?s3 u) \<noteq> READY" if "s_current ?s3 = Some u" for u using that t by simp
        show "s_current ?s3 = Some u" if "u \<in> A" "t_state (s_threads ?s3 u) = RUNNING" for u
          using that running_current [OF inv, of u] Some by (cases "u = t") simp_all
      qed
      then show ?thesis unfolding sch by (simp add: ev sw)
    qed
  qed
qed

text \<open>Changes of one thread that leave its level and its being ready alone.\<close>

lemma sched_inv_upd:
  assumes inv: "sched_inv A idle s"
    and f: "\<And>th. t_state (f th) = t_state th" "\<And>th. t_data (f th) = t_data th"
  shows "sched_inv A idle (upd_thread t f s)"
proof (rule sched_invI)
  show "queues_inv A (upd_thread t f s)"
    by (rule queues_inv_cong [OF sched_queues [OF inv]])
      (use queues_data [OF sched_queues [OF inv]] f in \<open>auto simp: level_def data_ok_def\<close>)
  show "idle \<in> A" using sched_idle [OF inv] by blast
  show "t_state (s_threads (upd_thread t f s) idle) = READY \<or> t_state (s_threads (upd_thread t f s) idle) = RUNNING"
    using sched_idle [OF inv] f(1) by auto
  show "u \<in> A \<and> t_state (s_threads (upd_thread t f s) u) \<noteq> READY" if "s_current (upd_thread t f s) = Some u" for u
    using that current_known [OF inv, of u] f(1) by auto
  show "s_current (upd_thread t f s) = Some u" if "u \<in> A" "t_state (s_threads (upd_thread t f s) u) = RUNNING" for u
    using that running_current [OF inv, of u] f(1) by (simp split: if_splits)
qed

lemma Thread_yield_inv:
  assumes inv: "sched_inv A idle s" shows "sched_inv A idle (Thread_yield t s)"
proof (rule sched_invI)
  show "queues_inv A (Thread_yield t s)" by (rule queues_inv_yield [OF sched_queues [OF inv]])
  show "idle \<in> A" using sched_idle [OF inv] by blast
  show "t_state (s_threads (Thread_yield t s) idle) = READY \<or> t_state (s_threads (Thread_yield t s) idle) = RUNNING"
    using sched_idle [OF inv] by simp
  show "u \<in> A \<and> t_state (s_threads (Thread_yield t s) u) \<noteq> READY" if "s_current (Thread_yield t s) = Some u" for u
    using that current_known [OF inv, of u] by simp
  show "s_current (Thread_yield t s) = Some u" if "u \<in> A" "t_state (s_threads (Thread_yield t s) u) = RUNNING" for u
    using that running_current [OF inv, of u] by simp
qed

lemma known_data:
  assumes "queues_inv A s" "t \<in> A"
  obtains d i where "t_data (s_threads s t) = Some d" "dataFromThread t s = Inr d" "d_runLevel d = int i" "i < RunLevels"
    "level_index (d_runLevel d) = Inr i" "level s t = int i" "d_resetQuantum d = level_quantum i" "0 < d_quantum d"
    "d_quantum d \<le> d_resetQuantum d"
proof -
  obtain d where d: "t_data (s_threads s t) = Some d" "0 \<le> d_runLevel d" "d_runLevel d < int RunLevels"
    "d_resetQuantum d = level_quantum (nat (d_runLevel d))" "0 < d_quantum d" "d_quantum d \<le> d_resetQuantum d"
    using queues_data [OF assms] by (auto simp: data_ok_def)
  show thesis
    by (rule that [of d "nat (d_runLevel d)"])
      (use d in \<open>simp_all add: dataFromThread_def level_index_def level_def nat_less_iff\<close>)
qed

text \<open>A thread stops being ready or running.\<close>

lemma stop_thread_inv:
  assumes inv: "sched_inv A idle s" and t: "t \<in> A" "t \<noteq> idle" and st: "st = SUSPENDED \<or> st = TERMINATED"
    and i: "level s t = int i" "i < RunLevels"
    and s1: "s1 = upd_thread t f s" "\<And>th. t_state (f th) = st" "\<And>th. t_data (f th) = t_data th"
  shows "sched_inv A idle (level_remove i t s1)"
proof -
  have dk: "data_ok (s_threads s1 t)" using queues_data [OF sched_queues [OF inv] t(1)] s1 by (simp add: data_ok_def)
  have q: "queues_inv A (level_remove i t s1)" and th: "s_threads (level_remove i t s1) = s_threads s1"
    and cu: "s_current (level_remove i t s1) = s_current s1"
    by (rule dequeue [OF sched_queues [OF inv] _ i(2)]; use i dk st s1 in auto)+
  show ?thesis
  proof (rule sched_invI [OF q])
    show "idle \<in> A" using sched_idle [OF inv] by blast
    show "t_state (s_threads (level_remove i t s1) idle) = READY \<or> t_state (s_threads (level_remove i t s1) idle) = RUNNING"
      unfolding th using sched_idle [OF inv] s1 t by simp
    show "u \<in> A \<and> t_state (s_threads (level_remove i t s1) u) \<noteq> READY" if "s_current (level_remove i t s1) = Some u" for u
      using that current_known [OF inv, of u] s1 st unfolding th cu by auto
    show "s_current (level_remove i t s1) = Some u" if "u \<in> A" "t_state (s_threads (level_remove i t s1) u) = RUNNING" for u
      using that running_current [OF inv, of u] s1 st unfolding th cu by (auto split: if_splits)
  qed
qed

lemma mlfq_vtable:
  "sp_add MultiLevelFeedbackQueuePolicy = mlfq_add" "sp_remove MultiLevelFeedbackQueuePolicy = mlfq_remove"
  "sp_suspend MultiLevelFeedbackQueuePolicy = mlfq_suspend" "sp_resume MultiLevelFeedbackQueuePolicy = mlfq_resume"
  by (simp_all add: MultiLevelFeedbackQueuePolicy_def)

lemma suspend_inv:
  assumes inv: "sched_inv A idle s" and t: "t \<in> A" "t \<noteq> idle"
    and regs: "s_current s = Some t \<Longrightarrow> is_in_kstack_range (s_threads s t) regs"
  shows "\<exists>b s'. suspend_thread MultiLevelFeedbackQueuePolicy regs t s = Inr (b, s') \<and> sched_inv A idle s'"
proof (cases "t_state (s_threads s t) = SUSPENDED \<or> t_state (s_threads s t) = TERMINATED")
  case True
  then show ?thesis using inv by (auto simp: suspend_thread_def)
next
  case False
  obtain d i where d: "dataFromThread t s = Inr d" "i < RunLevels" "level_index (d_runLevel d) = Inr i" "level s t = int i"
    using known_data [OF sched_queues [OF inv] t(1)] by metis
  let ?s1 = "level_remove i t (set_thread_state SUSPENDED t s)"
  have sp: "mlfq_suspend t s = Inr ?s1" using d by (simp add: mlfq_suspend_def)
  have inv1: "sched_inv A idle ?s1"
    by (rule stop_thread_inv [OF inv t _ d(4,2) set_thread_state_def]) simp_all
  have cu: "s_current ?s1 = s_current s" "t_kernelStack (s_threads ?s1 t) = t_kernelStack (s_threads s t)"
    by (simp_all add: level_remove_def)
  have r: "is_in_kstack_range (s_threads ?s1 u) regs" if "s_current s = Some t" "s_current ?s1 = Some u" for u
    using that regs cu by (simp add: is_in_kstack_range_def)
  show ?thesis
  proof (cases "s_current ?s1 = Some t \<and> \<not> t_preemptionDisallowed (s_threads ?s1 t)")
    case True
    then obtain sp s2 where "schedule MultiLevelFeedbackQueuePolicy regs ?s1 = Inr (sp, s2)" "sched_inv A idle s2"
      using schedule_inv [OF inv1] r cu by metis
    then have "suspend_thread MultiLevelFeedbackQueuePolicy regs t s = Inr (True, s2)" using False True sp
      by (cases "t_state (s_threads s t)") (auto simp: suspend_thread_def mlfq_vtable)
    with \<open>sched_inv A idle s2\<close> show ?thesis by blast
  next
    case no: False
    have "suspend_thread MultiLevelFeedbackQueuePolicy regs t s = Inr (True, ?s1)"
      using False no sp by (cases "t_state (s_threads s t)") (auto simp: suspend_thread_def mlfq_vtable)
    with inv1 show ?thesis by blast
  qed
qed

text \<open>A thread that is not on a processor becomes ready.\<close>

lemma start_thread_inv:
  assumes inv: "sched_inv A idle s" and t: "t \<in> A \<longrightarrow> t_state (s_threads s t) \<noteq> READY" "s_current s \<noteq> Some t"
    and c: "card (insert t A) \<le> RunLevelDepth" and i: "i < RunLevels"
    and s1: "s_policy s1 = s_policy s" "s_current s1 = s_current s" "t_state (s_threads s1 t) = READY" "data_ok (s_threads s1 t)"
      "level s1 t = int i"
      "\<And>u. u \<noteq> t \<Longrightarrow> data_ok (s_threads s1 u) = data_ok (s_threads s u) \<and> level s1 u = level s u \<and>
         t_state (s_threads s1 u) = t_state (s_threads s u)"
  shows "fst (level_push i t s1) \<and> sched_inv (insert t A) idle (snd (level_push i t s1))"
proof -
  have u: "data_ok (s_threads s1 u) \<and> level s1 u = level s u \<and> t_state (s_threads s1 u) = t_state (s_threads s u)"
    if "u \<in> A" "u \<noteq> t" for u
    using s1(6) [OF that(2)] queues_data [OF sched_queues [OF inv] that(1)] by simp
  have e: "fst (level_push i t s1)" "queues_inv (insert t A) (snd (level_push i t s1))"
    "s_threads (snd (level_push i t s1)) = s_threads s1" "s_current (snd (level_push i t s1)) = s_current s1"
    by (rule enqueue [OF sched_queues [OF inv] t(1) c i s1(1,3,4,5)]; use u in blast)+
  have "sched_inv (insert t A) idle (snd (level_push i t s1))"
  proof (rule sched_invI [OF e(2)])
    show "idle \<in> insert t A" using sched_idle [OF inv] by blast
    show "t_state (s_threads (snd (level_push i t s1)) idle) = READY \<or> t_state (s_threads (snd (level_push i t s1)) idle) = RUNNING"
      unfolding e(3) using sched_idle [OF inv] s1(3) s1(6) [of idle] by (cases "idle = t") simp_all
    show "v \<in> insert t A \<and> t_state (s_threads (snd (level_push i t s1)) v) \<noteq> READY"
      if "s_current (snd (level_push i t s1)) = Some v" for v
      using that current_known [OF inv, of v] t(2) s1(2) s1(6) [of v] unfolding e(3,4) by (cases "v = t") simp_all
    show "s_current (snd (level_push i t s1)) = Some v"
      if "v \<in> insert t A" "t_state (s_threads (snd (level_push i t s1)) v) = RUNNING" for v
      using that running_current [OF inv, of v] s1(2,3) s1(6) [of v] unfolding e(3,4) by (cases "v = t") simp_all
  qed
  with e(1) show ?thesis by simp
qed

lemma add_inv:
  assumes inv: "sched_inv A idle s" and t: "t \<notin> A" and c: "card A < RunLevelDepth"
  shows "\<exists>s'. addThread MultiLevelFeedbackQueuePolicy t s = (True, s') \<and> sched_inv (insert t A) idle s'"
proof -
  let ?s1 = "set_data (level_data 0 False) t s"
  define s2 where "s2 = (case s_current ?s1 of None \<Rightarrow> ?s1 | Some c \<Rightarrow> Thread_yield c ?s1)"
  let ?s3 = "set_thread_state READY t s2"
  have c0: "s_current s \<noteq> Some t" using current_known [OF inv, of t] t by blast
  have s2: "s_policy s2 = s_policy s" "s_current s2 = s_current s"
    "level s2 u = level ?s1 u" "data_ok (s_threads s2 u) = data_ok (s_threads ?s1 u)"
    "t_state (s_threads s2 u) = t_state (s_threads ?s1 u)" for u
    by (auto simp: s2_def split: option.split)
  have fin: "finite A" using sched_queues [OF inv] by (simp add: queues_inv_def)
  have d0: "data_ok (s_threads ?s1 t)" "level ?s1 t = 0"
    by (simp_all add: data_ok_def level_def level_data_def level_quantum_def DefaultQuantum_def RunLevels_def)
  have d1: "data_ok ((s_threads s2 t)\<lparr>t_state := READY\<rparr>) = data_ok (s_threads s2 t)" by (simp add: data_ok_def)
  have lv: "level ?s3 u = level s2 u" for u by (simp add: level_def)
  have lv1: "level ?s1 u = level s u" if "u \<noteq> t" for u using that by (simp add: level_def)
  have "fst (level_push 0 t ?s3) \<and> sched_inv (insert t A) idle (snd (level_push 0 t ?s3))"
    by (rule start_thread_inv [OF inv _ c0])
      (use t c fin s2 d0 d1 lv lv1 in \<open>simp_all add: RunLevels_def card_insert_if\<close>)
  moreover have "addThread MultiLevelFeedbackQueuePolicy t s = level_push 0 t ?s3"
    by (simp add: addThread_def mlfq_vtable mlfq_add_def s2_def Let_def)
  ultimately show ?thesis by (cases "level_push 0 t ?s3") auto
qed

lemma resume_inv:
  assumes inv: "sched_inv A idle s" and t: "t \<in> A" "s_current s \<noteq> Some t"
  shows "\<exists>b s'. resume_thread MultiLevelFeedbackQueuePolicy val t s = Inr (b, s') \<and> sched_inv A idle s'"
proof (cases "t_state (s_threads s t) = SUSPENDED")
  case False
  then show ?thesis using inv by (auto simp: resume_thread_def)
next
  case True
  obtain d i where d: "dataFromThread t s = Inr d" "d_runLevel d = int i" "i < RunLevels"
    using known_data [OF sched_queues [OF inv] t(1)] by metis
  define l where "l = (if \<not> d_isPinned d \<and> 0 < d_runLevel d then d_runLevel d - 1 else d_runLevel d)"
  have j: "level_index l = Inr (nat l)" "nat l < RunLevels" "int (nat l) = l" "0 \<le> l" "l < int RunLevels" using d(2,3) by (auto simp: l_def level_index_def)
  let ?d = "d\<lparr>d_runLevel := l, d_quantum := level_quantum (nat l), d_resetQuantum := level_quantum (nat l)\<rparr>"
  let ?s2 = "set_thread_state READY t (set_data ?d t s)"
  define s3 where "s3 = (case s_current ?s2 of None \<Rightarrow> ?s2 | Some c \<Rightarrow>
      (case t_data (s_threads ?s2 c) of None \<Rightarrow> ?s2 | Some dc \<Rightarrow> if d_runLevel dc > l then Thread_yield c ?s2 else ?s2))"
  have s3: "s_policy s3 = s_policy s" "s_current s3 = s_current s"
    "level s3 u = level ?s2 u" "data_ok (s_threads s3 u) = data_ok (s_threads ?s2 u)"
    "t_state (s_threads s3 u) = t_state (s_threads ?s2 u)" for u
    by (auto simp: s3_def split: option.split)
  have A: "insert t A = A" "card (insert t A) \<le> RunLevelDepth"
    using t(1) sched_queues [OF inv] by (auto simp: queues_inv_def insert_absorb)
  have d0: "data_ok (s_threads ?s2 t)" "level ?s2 t = l"
    using j by (simp_all add: data_ok_def level_def level_quantum_def DefaultQuantum_def)
  have lv: "level ?s2 u = level s u" if "u \<noteq> t" for u using that by (simp add: level_def)
  have "fst (level_push (nat l) t s3) \<and> sched_inv (insert t A) idle (snd (level_push (nat l) t s3))"
    by (rule start_thread_inv [OF inv _ t(2) A(2) j(2)]) (use True s3 d0 lv j in simp_all)
  then have "sched_inv A idle (snd (level_push (nat l) t s3))" using A(1) by simp
  then have "sched_inv A idle (upd_thread t (\<lambda>th. th\<lparr>t_return_value := val\<rparr>) (snd (level_push (nat l) t s3)))"
    by (rule sched_inv_upd) simp_all
  moreover have "resume_thread MultiLevelFeedbackQueuePolicy val t s =
      Inr (True, upd_thread t (\<lambda>th. th\<lparr>t_return_value := val\<rparr>) (snd (level_push (nat l) t s3)))"
    using True d(1) j(1) unfolding s3_def l_def by (simp add: resume_thread_def mlfq_vtable mlfq_resume_def Let_def)
  ultimately show ?thesis by blast
qed

lemma remove_inv:
  assumes inv: "sched_inv A idle s" and t: "t \<in> A" "t \<noteq> idle"
  shows "\<exists>s'. removeThread MultiLevelFeedbackQueuePolicy t s = Inr (True, s') \<and> sched_inv (A - {t}) idle s'"
proof -
  obtain d i where d: "dataFromThread t s = Inr d" "d_runLevel d = int i" "i < RunLevels" "level s t = int i"
    "level_index (d_runLevel d) = Inr i"
    using known_data [OF sched_queues [OF inv] t(1)] by metis
  let ?s1 = "level_remove i t s"
  let ?s2 = "set_data (d\<lparr>d_runLevel := -1\<rparr>) t ?s1"
  define s3 where "s3 = (if s_current ?s2 = Some t then ?s2\<lparr>s_current := None\<rparr> else ?s2)"
  note q = dequeue [OF sched_queues [OF inv], of "A - {t}" t i s]
  have q1: "queues_inv (A - {t}) ?s1" by (rule q) (use d in simp_all)
  have q2: "s_threads ?s1 = s_threads s" "s_current ?s1 = s_current s" by (simp_all add: level_remove_def)
  have s3: "s_policy s3 = s_policy ?s1" "\<And>u. u \<noteq> t \<Longrightarrow> s_threads s3 u = s_threads s u"
    "s_current s3 = (if s_current s = Some t then None else s_current s)"
    using q2 by (simp_all add: s3_def)
  have "sched_inv (A - {t}) idle s3"
  proof (rule sched_invI)
    show "queues_inv (A - {t}) s3"
      by (rule queues_inv_cong [OF q1 s3(1)]) (use queues_data [OF q1] s3(2) q2 in \<open>auto simp: level_def\<close>)
    show "idle \<in> A - {t}" using sched_idle [OF inv] t by simp
    show "t_state (s_threads s3 idle) = READY \<or> t_state (s_threads s3 idle) = RUNNING"
      using sched_idle [OF inv] t s3(2) [of idle] by simp
    show "u \<in> A - {t} \<and> t_state (s_threads s3 u) \<noteq> READY" if "s_current s3 = Some u" for u
      using that current_known [OF inv, of u] s3(2) [of u] s3(3) by (auto split: if_splits)
    show "s_current s3 = Some u" if "u \<in> A - {t}" "t_state (s_threads s3 u) = RUNNING" for u
      using that running_current [OF inv, of u] s3(2) [of u] s3(3) by auto
  qed
  moreover have "removeThread MultiLevelFeedbackQueuePolicy t s = Inr (True, s3)"
    using d by (simp add: removeThread_def mlfq_vtable mlfq_remove_def s3_def)
  ultimately show ?thesis by blast
qed

text \<open>Killing a thread that is in no queue.\<close>

lemma kill_inv:
  assumes inv: "sched_inv A idle s" and t: "t \<in> A" "t \<noteq> idle" "t_state (s_threads s t) \<noteq> READY"
    and regs: "s_current s = Some t \<Longrightarrow> is_in_kstack_range (s_threads s t) regs"
  shows "\<exists>b s'. kill_thread MultiLevelFeedbackQueuePolicy regs y t s = Inr (b, s') \<and> sched_inv A idle s'"
proof (cases "t_state (s_threads s t) = TERMINATED")
  case True
  then have "kill_thread MultiLevelFeedbackQueuePolicy regs y t s = Inr (True, s)" by (simp add: kill_thread_def)
  with inv show ?thesis by blast
next
  case False
  let ?s1 = "upd_thread t (\<lambda>th. th\<lparr>t_state := TERMINATED, t_exitCode := 127\<rparr>) s"
  have inv1: "sched_inv A idle ?s1"
  proof (rule sched_invI)
    show "queues_inv A ?s1"
      by (rule queues_inv_cong [OF sched_queues [OF inv]])
        (use queues_data [OF sched_queues [OF inv]] t in \<open>auto simp: level_def data_ok_def\<close>)
    show "idle \<in> A" using sched_idle [OF inv] by blast
    show "t_state (s_threads ?s1 idle) = READY \<or> t_state (s_threads ?s1 idle) = RUNNING"
      using sched_idle [OF inv] t by simp
    show "u \<in> A \<and> t_state (s_threads ?s1 u) \<noteq> READY" if "s_current ?s1 = Some u" for u
      using that current_known [OF inv, of u] by simp
    show "s_current ?s1 = Some u" if "u \<in> A" "t_state (s_threads ?s1 u) = RUNNING" for u
      using that running_current [OF inv, of u] by (simp split: if_splits)
  qed
  show ?thesis
  proof (cases "y \<and> s_current ?s1 = Some t \<and> \<not> t_preemptionDisallowed (s_threads ?s1 t)")
    case True
    have "\<exists>sp s'. schedule MultiLevelFeedbackQueuePolicy regs ?s1 = Inr (sp, s') \<and> sched_inv A idle s'"
      by (rule schedule_inv [OF inv1]) (use True regs in \<open>simp add: is_in_kstack_range_def\<close>)
    then obtain sp s2 where "schedule MultiLevelFeedbackQueuePolicy regs ?s1 = Inr (sp, s2)" "sched_inv A idle s2" by blast
    moreover from this have "kill_thread MultiLevelFeedbackQueuePolicy regs y t s = Inr (True, s2)"
      using False True by (simp add: kill_thread_def Let_def)
    ultimately show ?thesis by blast
  next
    case no: False
    have "kill_thread MultiLevelFeedbackQueuePolicy regs y t s = Inr (True, ?s1)"
      using False no by (auto simp: kill_thread_def Let_def)
    with inv1 show ?thesis by blast
  qed
qed

section \<open>Runs of the scheduler\<close>

text \<open>
  What the kernel asks of the scheduler. \<open>sched_step A s B s'\<close>: the threads known to the policy are \<open>A\<close> before and \<open>B\<close>
  after. Threads are added while there is room for them at the first level; the idle thread is not stopped; a thread
  that is waiting for the processor is not killed, and one that is on it is not resumed.
\<close>

datatype sched_op = Tick u32 | Yield | Suspend u32 nat | Resume u32 nat | Kill u32 bool nat | Add nat | Remove nat

definition op_allowed :: "nat \<Rightarrow> nat set \<Rightarrow> mlfq sched \<Rightarrow> sched_op \<Rightarrow> bool" where
  "op_allowed idle A s c =
     (let saved = (\<lambda>regs. case s_current s of None \<Rightarrow> True | Some t \<Rightarrow> is_in_kstack_range (s_threads s t) regs)
      in case c of
           Tick regs \<Rightarrow> saved regs
         | Yield \<Rightarrow> True
         | Suspend regs t \<Rightarrow> saved regs \<and> t \<in> A \<and> t \<noteq> idle
         | Resume val t \<Rightarrow> t \<in> A \<and> s_current s \<noteq> Some t
         | Kill regs y t \<Rightarrow> saved regs \<and> t \<in> A \<and> t \<noteq> idle \<and> t_state (s_threads s t) \<noteq> READY
         | Add t \<Rightarrow> t \<notin> A \<and> card A < RunLevelDepth
         | Remove t \<Rightarrow> t \<in> A \<and> t \<noteq> idle)"

definition op_threads :: "sched_op \<Rightarrow> nat set \<Rightarrow> nat set" where
  "op_threads c A = (case c of Add t \<Rightarrow> insert t A | Remove t \<Rightarrow> A - {t} | _ \<Rightarrow> A)"

definition sched_apply :: "sched_op \<Rightarrow> mlfq sched \<Rightarrow> mlfq sched result" where
  "sched_apply c s =
     (let pol = MultiLevelFeedbackQueuePolicy
      in case c of
           Tick regs \<Rightarrow> rbind (onTickTimer pol [] regs s) (\<lambda>(sp, s1). Inr s1)
         | Yield \<Rightarrow> Inr (case s_current s of None \<Rightarrow> s | Some t \<Rightarrow> Thread_yield t s)
         | Suspend regs t \<Rightarrow> rbind (suspend_thread pol regs t s) (\<lambda>(b, s1). Inr s1)
         | Resume val t \<Rightarrow> rbind (resume_thread pol val t s) (\<lambda>(b, s1). Inr s1)
         | Kill regs y t \<Rightarrow> rbind (kill_thread pol regs y t s) (\<lambda>(b, s1). Inr s1)
         | Add t \<Rightarrow> Inr (snd (addThread pol t s))
         | Remove t \<Rightarrow> rbind (removeThread pol t s) (\<lambda>(b, s1). Inr s1))"

text \<open>The state \<open>Scheduler::Scheduler\<close> leaves: the idle thread waits in the last queue.\<close>

definition sched_boot :: "nat \<Rightarrow> (nat \<Rightarrow> thread) \<Rightarrow> mlfq sched" where
  "sched_boot idle ths = snd (mlfq_setIdleThread idle \<lparr>s_threads = ths, s_policy = new_mlfq, s_current = None\<rparr>)"

inductive sched_runs :: "nat \<Rightarrow> (nat \<Rightarrow> thread) \<Rightarrow> nat set \<Rightarrow> mlfq sched \<Rightarrow> bool" for idle ths where
  boot: "sched_runs idle ths {idle} (sched_boot idle ths)"
| step: "sched_runs idle ths A s \<Longrightarrow> op_allowed idle A s c \<Longrightarrow> sched_apply c s = Inr s' \<Longrightarrow> sched_runs idle ths (op_threads c A) s'"

lemma boot_inv: "sched_inv {idle} idle (sched_boot idle ths)"
proof -
  let ?s0 = "\<lparr>s_threads = ths, s_policy = new_mlfq, s_current = None\<rparr> :: mlfq sched"
  let ?s1 = "set_thread_state READY idle (set_data (level_data (RunLevels - 1) True) idle ?s0)"
  have q0: "queues_inv {} ?s0"
    by (simp add: queues_inv_def new_mlfq_def new_queue_def)
  have e: "queues_inv (insert idle {}) (snd (level_push (RunLevels - 1) idle ?s1))"
    "s_threads (snd (level_push (RunLevels - 1) idle ?s1)) = s_threads ?s1"
    "s_current (snd (level_push (RunLevels - 1) idle ?s1)) = s_current ?s1"
    by (rule enqueue [OF q0]; simp add: RunLevels_def RunLevelDepth_def data_ok_def level_def level_data_def level_quantum_def DefaultQuantum_def)+
  show ?thesis
    unfolding sched_boot_def mlfq_setIdleThread_def
    by (rule sched_invI) (use e in \<open>simp_all\<close>)
qed

lemma tick_inv:
  assumes inv: "sched_inv A idle s" and regs: "\<And>t. s_current s = Some t \<Longrightarrow> is_in_kstack_range (s_threads s t) regs"
  shows "\<exists>sp s'. onTickTimer MultiLevelFeedbackQueuePolicy [] regs s = Inr (sp, s') \<and> sched_inv A idle s'"
proof (cases "s_current s")
  case None
  then show ?thesis using schedule_inv [OF inv regs] by (simp add: onTickTimer_def)
next
  case (Some t)
  let ?s1 = "upd_thread t (\<lambda>th. th\<lparr>t_cpuTime := t_cpuTime th + 1\<rparr>) s"
  have "sched_inv A idle ?s1" by (rule sched_inv_upd [OF inv]) simp_all
  then have "\<exists>sp s'. schedule MultiLevelFeedbackQueuePolicy regs ?s1 = Inr (sp, s') \<and> sched_inv A idle s'"
    by (rule schedule_inv) (use Some regs in \<open>auto simp: is_in_kstack_range_def\<close>)
  then show ?thesis using Some by (simp add: onTickTimer_def)
qed

lemma apply_inv:
  assumes inv: "sched_inv A idle s" and ok: "op_allowed idle A s c"
  shows "\<exists>s'. sched_apply c s = Inr s' \<and> sched_inv (op_threads c A) idle s'"
proof (cases c)
  case (Tick regs)
  then have "\<And>t. s_current s = Some t \<Longrightarrow> is_in_kstack_range (s_threads s t) regs" using ok by (simp add: op_allowed_def)
  with tick_inv [OF inv] show ?thesis using Tick by (fastforce simp: sched_apply_def op_threads_def)
next
  case Yield
  then show ?thesis using inv Thread_yield_inv [OF inv] by (simp add: sched_apply_def op_threads_def split: option.split)
next
  case (Suspend regs t)
  then have "t \<in> A" "t \<noteq> idle" "s_current s = Some t \<Longrightarrow> is_in_kstack_range (s_threads s t) regs" using ok by (auto simp: op_allowed_def)
  from suspend_inv [OF inv this] show ?thesis using Suspend by (fastforce simp: sched_apply_def op_threads_def)
next
  case (Resume val t)
  then have "t \<in> A" "s_current s \<noteq> Some t" using ok by (auto simp: op_allowed_def)
  from resume_inv [OF inv this, of val] show ?thesis using Resume by (fastforce simp: sched_apply_def op_threads_def)
next
  case (Kill regs y t)
  then have "t \<in> A" "t \<noteq> idle" "t_state (s_threads s t) \<noteq> READY"
    "s_current s = Some t \<Longrightarrow> is_in_kstack_range (s_threads s t) regs" using ok by (auto simp: op_allowed_def)
  from kill_inv [OF inv this, of y] show ?thesis using Kill by (fastforce simp: sched_apply_def op_threads_def)
next
  case (Add t)
  then have "t \<notin> A" "card A < RunLevelDepth" using ok by (auto simp: op_allowed_def)
  from add_inv [OF inv this] show ?thesis using Add by (auto simp: sched_apply_def op_threads_def)
next
  case (Remove t)
  then have "t \<in> A" "t \<noteq> idle" using ok by (auto simp: op_allowed_def)
  from remove_inv [OF inv this] show ?thesis using Remove by (fastforce simp: sched_apply_def op_threads_def)
qed

lemma runs_inv: "sched_runs idle ths A s \<Longrightarrow> sched_inv A idle s"
proof (induction rule: sched_runs.induct)
  case boot
  show ?case by (rule boot_inv)
next
  case (step A s c s')
  then show ?case using apply_inv [of A idle s c] by fastforce
qed

section \<open>Properties\<close>

text \<open>C24: take a run of ticks, yields and of suspending, resuming, killing, adding and removing threads in which there are at
  most 10 threads (the depth of a run level), a thread is killed only while it is not ready, the current thread is not resumed,
  the idle thread is not suspended, killed or removed, and the registers saved for the current thread lie in its kernel stack.
  Then the next such operation succeeds: the scheduler does not panic and no assertion of it fails, the only
  running thread is the current one, and every thread that is ready is in the queue of its run level exactly once.\<close>

theorem sched_never_panics:
  assumes "sched_runs idle ths A s" "op_allowed idle A s c"
  shows "\<exists>s'. sched_apply c s = Inr s' \<and>
           (\<forall>t \<in> op_threads c A. t_state (s_threads s' t) = RUNNING \<longrightarrow> s_current s' = Some t) \<and>
           (\<forall>i < RunLevels. distinct (q_data (s_policy s' ! i)) \<and>
              set (q_data (s_policy s' ! i)) = {t \<in> op_threads c A. t_state (s_threads s' t) = READY \<and> level s' t = int i})"
proof -
  obtain s' where s': "sched_apply c s = Inr s'" "sched_inv (op_threads c A) idle s'"
    using apply_inv [OF runs_inv [OF assms(1)] assms(2)] by blast
  have "queues_inv (op_threads c A) s'" by (rule sched_queues [OF s'(2)])
  then have "\<forall>i < RunLevels. distinct (q_data (s_policy s' ! i)) \<and>
      set (q_data (s_policy s' ! i)) = {t \<in> op_threads c A. t_state (s_threads s' t) = READY \<and> level s' t = int i}"
    unfolding queues_inv_def by blast
  with s' running_current [OF s'(2)] show ?thesis by blast
qed

definition idle_thread :: thread where
  "idle_thread = \<lparr>t_state = READY, t_data = None, t_stack_pointer = 0x80100F00, t_kernelStack = 0x80100000,
     t_preemptionDisallowed = False, t_exitCode = 0, t_cpuTime = 0, t_return_value = 0\<rparr>"

text \<open>The state after a thread was added to the idle thread.\<close>

definition two_threads :: "mlfq sched" where
  "two_threads = snd (mlfq_add 7 (sched_boot 0 (\<lambda>_. idle_thread)))"

lemma two_threads_eqs:
  "s_policy two_threads = \<lparr>q_capacity = 10, q_data = [7]\<rparr> # replicate 3 (new_queue 10) @ [\<lparr>q_capacity = 10, q_data = [0]\<rparr>]"
  "s_current two_threads = None" "t_state (s_threads two_threads 7) = READY" "t_state (s_threads two_threads 0) = READY"
  by (simp_all add: two_threads_def mlfq_add_def sched_boot_def mlfq_setIdleThread_def level_push_def q_push_nowait new_mlfq_def
      new_queue_def q_full_def RunLevels_def RunLevelDepth_def eval_nat_numeral)

lemma two_threads_run: "sched_runs 0 (\<lambda>_. idle_thread) {7, 0} two_threads"
proof -
  have "sched_runs 0 (\<lambda>_. idle_thread) (op_threads (Add 7) {0}) two_threads"
    by (rule sched_runs.step [OF sched_runs.boot])
      (simp_all add: op_allowed_def RunLevelDepth_def sched_apply_def two_threads_def addThread_def MultiLevelFeedbackQueuePolicy_def
        mlfq_add_def sched_boot_def mlfq_setIdleThread_def level_push_def q_push_nowait new_mlfq_def new_queue_def q_full_def
        RunLevels_def)
  then show ?thesis by (simp add: op_threads_def)
qed

lemma sched_never_panics_witness:
  "\<exists>s'. sched_apply (Tick 0x80100F00) two_threads = Inr s' \<and>
     (\<forall>t \<in> {7, 0}. t_state (s_threads s' t) = RUNNING \<longrightarrow> s_current s' = Some t) \<and>
     (\<forall>i < RunLevels. distinct (q_data (s_policy s' ! i)) \<and>
        set (q_data (s_policy s' ! i)) = {t \<in> {7, 0}. t_state (s_threads s' t) = READY \<and> level s' t = int i})"
  using sched_never_panics [OF two_threads_run, of "Tick 0x80100F00"]
  by (simp add: op_allowed_def op_threads_def two_threads_eqs)

text \<open>C25: in every run as described for the scheduler above, the scheduling data of every thread is well typed: it exists, its run
  level is an index of the queues, the quantum it is reset to is that of its run level, and what is left of its quantum is positive
  and at most the quantum of its run level.\<close>

theorem sched_data_typed:
  assumes "sched_runs idle ths A s" "t \<in> A"
  shows "\<exists>d. dataFromThread t s = Inr d \<and> 0 \<le> d_runLevel d \<and> d_runLevel d < int RunLevels \<and>
           d_resetQuantum d = 100 + 20 * d_runLevel d \<and> 0 < d_quantum d \<and> d_quantum d \<le> 100 + 20 * d_runLevel d"
proof -
  obtain d i where d: "dataFromThread t s = Inr d" "d_runLevel d = int i" "i < RunLevels" "d_resetQuantum d = level_quantum i"
    "0 < d_quantum d" "d_quantum d \<le> d_resetQuantum d"
    using known_data [OF sched_queues [OF runs_inv [OF assms(1)]] assms(2)] by metis
  then show ?thesis by (intro exI [of _ d]) (simp add: level_quantum_def DefaultQuantum_def)
qed

lemma sched_data_typed_witness:
  "\<exists>d. dataFromThread 7 two_threads = Inr d \<and> 0 \<le> d_runLevel d \<and> d_runLevel d < int RunLevels \<and>
     d_resetQuantum d = 100 + 20 * d_runLevel d \<and> 0 < d_quantum d \<and> d_quantum d \<le> 100 + 20 * d_runLevel d"
  by (rule sched_data_typed [OF two_threads_run]) simp

lemma choose_first:
  "j < length qs \<Longrightarrow> q_data (qs ! j) = t # us \<Longrightarrow> \<forall>k < j. q_data (qs ! k) = [] \<Longrightarrow> fst (choose_levels qs) = Some t"
proof (induction qs arbitrary: j)
  case (Cons q qs)
  show ?case
  proof (cases j)
    case 0
    then show ?thesis using Cons.prems by (simp add: q_pop_nowait)
  next
    case (Suc i)
    have "q_data q = []" using Cons.prems(3) Suc by auto
    moreover have "fst (choose_levels qs) = Some t"
      by (rule Cons.IH [of i]) (use Cons.prems Suc in auto)
    ultimately show ?thesis by (auto simp: q_pop_nowait split: prod.split)
  qed
qed simp

text \<open>A thread that is put into its queue does not overtake the first thread of a level that is not below its own.\<close>

lemma choose_after_push:
  assumes "j \<le> i" "i < length (s_policy s)" "q_data (s_policy s ! j) = t # us" "\<forall>k < j. q_data (s_policy s ! k) = []"
  shows "fst (mlfq_choose (snd (level_push i c s))) = Some t" "s_threads (snd (mlfq_choose (snd (level_push i c s)))) = s_threads s"
proof -
  let ?q = "snd (q_push id False c (s_policy s ! i))"
  have p: "snd (level_push i c s) = s\<lparr>s_policy := (s_policy s)[i := ?q]\<rparr>" by (simp add: level_push_def split: prod.split)
  have "\<exists>vs. q_data ((s_policy s)[i := ?q] ! j) = t # vs" using assms(1-3) by (auto simp: q_push_nowait)
  then obtain vs where "q_data ((s_policy s)[i := ?q] ! j) = t # vs" by blast
  moreover have "\<forall>k < j. q_data ((s_policy s)[i := ?q] ! k) = []" using assms(1,2,4) by auto
  ultimately have "fst (choose_levels ((s_policy s)[i := ?q])) = Some t"
    using assms(1,2) by (intro choose_first [of j]) auto
  then show "fst (mlfq_choose (snd (level_push i c s))) = Some t" "s_threads (snd (mlfq_choose (snd (level_push i c s)))) = s_threads s"
    by (auto simp: p mlfq_choose_def split: prod.split)
qed

lemma switch_terminated:
  assumes "fst p = Some t" "t_state (s_threads (snd p) t) = TERMINATED"
  shows "switch_to_proc p = Inl (Panic ''chosen thread is in an invalid state'')"
  using assms by (cases p) (simp add: switch_to_proc_def)

text \<open>C27: killing the ready thread that is next to run leaves it in its queue. When a running thread \<open>c\<close> of the same or a
  lower priority does it and then gives up the processor, because it asked to or because its quantum ends, the scheduler chooses
  the terminated thread and panics.\<close>

theorem kill_ready_panics:
  assumes t: "t_state (s_threads s t) = READY" "length (s_policy s) = RunLevels" "q_data (s_policy s ! j) = t # us"
      "\<forall>k < j. q_data (s_policy s ! k) = []"
    and c: "s_current s = Some c" "t_state (s_threads s c) = RUNNING" "is_in_kstack_range (s_threads s c) regs"
      "t_data (s_threads s c) = Some d" "int j \<le> d_runLevel d" "d_runLevel d < int RunLevels"
      "d_yieldRequested d \<or> d_quantum d \<le> 1"
  shows "\<exists>s1. kill_thread MultiLevelFeedbackQueuePolicy regs y t s = Inr (True, s1) \<and> t \<in> levels_ready (s_policy s1) \<and>
           schedule MultiLevelFeedbackQueuePolicy regs s1 = Inl (Panic ''chosen thread is in an invalid state'')"
proof -
  let ?s1 = "upd_thread t (\<lambda>th. th\<lparr>t_state := TERMINATED, t_exitCode := 127\<rparr>) s"
  have ct: "c \<noteq> t" using t(1) c(2) by auto
  have k: "kill_thread MultiLevelFeedbackQueuePolicy regs y t s = Inr (True, ?s1)"
    using t(1) c(1) ct by (simp add: kill_thread_def)
  have j: "j < length (s_policy s)" using c(5,6) t(2) by linarith
  have q: "t \<in> levels_ready (s_policy ?s1)" using t(3) j by (auto simp: levels_ready_nth intro!: bexI [of _ j])
  let ?s2 = "upd_thread c (\<lambda>th. th\<lparr>t_stack_pointer := regs\<rparr>) ?s1"
  have push: "switch_to_proc (mlfq_choose (snd (level_push i c u))) = Inl (Panic ''chosen thread is in an invalid state'')"
    if "j \<le> i" "i < RunLevels" "s_policy u = s_policy s" "t_state (s_threads u t) = TERMINATED" for i u
    using choose_after_push [of j i u t us c] that t by (intro switch_terminated) simp_all
  have dt: "dataFromThread c ?s2 = Inr d" "dataFromThread c (set_data x c ?s2) = Inr x" for x
    using c(4) ct by (simp_all add: dataFromThread_def)
  have "rbind (mlfq_evaluate_and_choose c ?s2) switch_to_proc = Inl (Panic ''chosen thread is in an invalid state'')"
  proof (cases "d_yieldRequested d")
    case True
    have "level_index (d_runLevel d) = Inr (nat (d_runLevel d))" using c(5,6) by (simp add: level_index_def)
    then show ?thesis
      using True c(5,6) ct by (simp add: mlfq_evaluate_and_choose_def mlfq_yield_def dt Let_def push)
  next
    case False
    have "j \<le> nat (d_runLevel d)" "nat (d_runLevel d) < RunLevels" "j \<le> nat (d_runLevel d + 1)"
      "d_runLevel d + 1 < int RunLevels \<Longrightarrow> nat (d_runLevel d + 1) < RunLevels" "0 \<le> d_runLevel d"
      using c(5,6) by linarith+
    then show ?thesis
      using False c(6,7) ct by (auto simp: mlfq_evaluate_and_choose_def dt Let_def level_index_def push)
  qed
  then have "schedule MultiLevelFeedbackQueuePolicy regs ?s1 = Inl (Panic ''chosen thread is in an invalid state'')"
    using c(1-3) ct by (simp add: schedule_def MultiLevelFeedbackQueuePolicy_def)
  with k q show ?thesis by blast
qed

definition kill_state :: "mlfq sched" where
  "kill_state =
     \<lparr>s_threads = (\<lambda>t. idle_thread\<lparr>t_state := (if t = 8 then RUNNING else READY),
         t_data := Some ((level_data 0 False)\<lparr>d_yieldRequested := True\<rparr>)\<rparr>),
      s_policy = \<lparr>q_capacity = 10, q_data = [7]\<rparr> # replicate 4 (new_queue RunLevelDepth), s_current = Some 8\<rparr>"

lemma kill_ready_panics_witness:
  "\<exists>s1. kill_thread MultiLevelFeedbackQueuePolicy 0x80100F00 True 7 kill_state = Inr (True, s1) \<and> 7 \<in> levels_ready (s_policy s1) \<and>
     schedule MultiLevelFeedbackQueuePolicy 0x80100F00 s1 = Inl (Panic ''chosen thread is in an invalid state'')"
  by (rule kill_ready_panics [where j = 0 and us = "[]" and c = 8 and d = "(level_data 0 False)\<lparr>d_yieldRequested := True\<rparr>"])
    (simp_all add: kill_state_def RunLevels_def level_data_def idle_thread_def is_in_kstack_range_def pointer_is_in_range_def
      KernelStackSize_def)

text \<open>C28: when the queue of its run level is full, a thread that gives up the processor is lost: it is marked ready but
  is in no queue.\<close>

theorem full_level_loses_thread:
  assumes cur: "s_current s = Some t" "t_state (s_threads s t) = RUNNING" "is_in_kstack_range (s_threads s t) regs"
    and d: "t_data (s_threads s t) = Some d" "d_yieldRequested d" "d_runLevel d = int i" "i < RunLevels"
    and full: "length (s_policy s) = RunLevels" "q_full (s_policy s ! i)" "q_capacity (s_policy s ! i) = RunLevelDepth"
    and t: "t \<notin> levels_ready (s_policy s)" and ok: "schedule MultiLevelFeedbackQueuePolicy regs s = Inr (sp, s')"
  shows "t_state (s_threads s' t) = READY \<and> t \<notin> levels_ready (s_policy s') \<and> s_current s' \<noteq> Some t"
proof -
  let ?s1 = "upd_thread t (\<lambda>th. th\<lparr>t_stack_pointer := regs\<rparr>) s"
  let ?d = "d\<lparr>d_quantum := d_quantum d - 1\<rparr>"
  let ?s2 = "set_thread_state READY t (set_data (?d\<lparr>d_quantum := d_resetQuantum d, d_yieldRequested := False\<rparr>) t (set_data ?d t ?s1))"
  have dt: "dataFromThread t ?s1 = Inr d" "dataFromThread t (set_data x t ?s1) = Inr x" for x
    using d(1) by (simp_all add: dataFromThread_def)
  have ix: "level_index (d_runLevel d) = Inr i" using d(3,4) by (simp add: level_index_def)
  have "(s_policy s)[i := s_policy s ! i] = s_policy s" by simp
  then have push: "snd (level_push i t ?s2) = ?s2\<lparr>s_policy := s_policy s\<rparr>"
    using full by (simp add: level_push_def q_push_nowait)
  have "mlfq_evaluate_and_choose t ?s1 = Inr (mlfq_choose (?s2\<lparr>s_policy := s_policy s\<rparr>))"
    using d(2) ix push by (simp add: mlfq_evaluate_and_choose_def mlfq_yield_def dt Let_def)
  then have sch: "switch_to_proc (mlfq_choose (?s2\<lparr>s_policy := s_policy s\<rparr>)) = Inr (sp, s')"
    using ok cur by (simp add: schedule_def MultiLevelFeedbackQueuePolicy_def)
  obtain u qs where u: "choose_levels (s_policy s) = (Some u, qs)"
    using sch by (auto simp: mlfq_choose_def switch_to_proc_def split: prod.splits option.splits)
  have sub: "u \<in> levels_ready (s_policy s)" "levels_ready qs \<subseteq> levels_ready (s_policy s)"
    by (rule choose_levels_ready [OF u])+
  then have "u \<noteq> t" using t by blast
  with sch u have "s' = set_thread_state RUNNING u (?s2\<lparr>s_policy := qs, s_current := Some u\<rparr>)"
    by (auto simp: mlfq_choose_def switch_to_proc_def split: if_splits)
  with \<open>u \<noteq> t\<close> sub t show ?thesis by auto
qed

definition full_level_state :: "mlfq sched" where
  "full_level_state =
     \<lparr>s_threads = (\<lambda>t. idle_thread\<lparr>t_state := (if t = 20 then RUNNING else READY),
         t_data := Some ((level_data 0 False)\<lparr>d_yieldRequested := True\<rparr>)\<rparr>),
      s_policy = \<lparr>q_capacity = 10, q_data = [1, 2, 3, 4, 5, 6, 7, 8, 9, 10]\<rparr> # replicate 4 (new_queue RunLevelDepth),
      s_current = Some 20\<rparr>"

lemma full_level_loses_thread_witness:
  "\<exists>sp s'. schedule MultiLevelFeedbackQueuePolicy 0x80100F00 full_level_state = Inr (sp, s') \<and>
     t_state (s_threads s' 20) = READY \<and> 20 \<notin> levels_ready (s_policy s') \<and> s_current s' \<noteq> Some 20"
proof -
  let ?d = "(level_data 0 False)\<lparr>d_yieldRequested := True\<rparr>"
  have k: "is_in_kstack_range (s_threads full_level_state 20) 0x80100F00"
    by (simp add: full_level_state_def idle_thread_def is_in_kstack_range_def pointer_is_in_range_def KernelStackSize_def)
  have f: "s_current full_level_state = Some 20" "t_state (s_threads full_level_state 20) = RUNNING"
    "t_data (s_threads full_level_state 20) = Some ?d" "d_yieldRequested ?d" "d_runLevel ?d = int 0" "0 < RunLevels"
    "length (s_policy full_level_state) = RunLevels" "q_full (s_policy full_level_state ! 0)"
    "q_capacity (s_policy full_level_state ! 0) = RunLevelDepth" "20 \<notin> levels_ready (s_policy full_level_state)"
    by (simp_all add: full_level_state_def level_data_def RunLevels_def RunLevelDepth_def q_full_def levels_ready_def new_queue_def)
  have "\<exists>r. schedule MultiLevelFeedbackQueuePolicy 0x80100F00 full_level_state = Inr r"
    using k by (simp add: full_level_state_def schedule_def MultiLevelFeedbackQueuePolicy_def mlfq_evaluate_and_choose_def
        mlfq_yield_def dataFromThread_def level_data_def level_index_def RunLevels_def level_push_def q_push_nowait q_full_def
        mlfq_choose_def q_pop_nowait switch_to_proc_def)
  then obtain sp s' where r: "schedule MultiLevelFeedbackQueuePolicy 0x80100F00 full_level_state = Inr (sp, s')" by auto
  from full_level_loses_thread [OF f(1,2) k f(3,4,5,6,7,8,9,10) r] r show ?thesis by blast
qed

text \<open>
  Round robin: one turn is a request to yield and the next decision. \<open>regs t\<close> is where thread \<open>t\<close> saves its registers, on its own
  kernel stack.
\<close>

definition rr_turn :: "(nat \<Rightarrow> u32) \<Rightarrow> rr sched \<Rightarrow> rr sched result" where
  "rr_turn regs s =
     (case s_current s of
        None \<Rightarrow> rbind (schedule SimpleRoundRobinSchedulingPolicy 0 s) (\<lambda>(sp, s2). Inr s2)
      | Some t \<Rightarrow> rbind (schedule SimpleRoundRobinSchedulingPolicy (regs t) (Thread_yield t s)) (\<lambda>(sp, s2). Inr s2))"

fun rr_turns :: "(nat \<Rightarrow> u32) \<Rightarrow> nat \<Rightarrow> rr sched \<Rightarrow> rr sched result" where
  "rr_turns regs 0 s = Inr s"
| "rr_turns regs (Suc n) s = rbind (rr_turn regs s) (rr_turns regs n)"

text \<open>The threads of the system in the order in which they run, the current one first.\<close>

definition rr_order :: "nat list \<Rightarrow> (nat \<Rightarrow> u32) \<Rightarrow> rr sched \<Rightarrow> bool" where
  "rr_order ts regs s \<longleftrightarrow>
     ts \<noteq> [] \<and> distinct ts \<and> s_current s = Some (hd ts) \<and> q_data (s_policy s) = tl ts \<and>
     length (tl ts) < q_capacity (s_policy s) \<and> t_state (s_threads s (hd ts)) = RUNNING \<and>
     (\<forall>t \<in> set (tl ts). t_state (s_threads s t) = READY) \<and>
     (\<forall>t \<in> set ts. t_data (s_threads s t) \<noteq> None \<and> is_in_kstack_range (s_threads s t) (regs t))"

lemma rr_turn_rotates:
  assumes o: "rr_order ts regs s"
  shows "\<exists>s'. rr_turn regs s = Inr s' \<and> rr_order (rotate1 ts) regs s'"
proof -
  obtain t us where ts: "ts = t # us" using o unfolding rr_order_def by (cases ts) auto
  have f: "distinct (t # us)" "s_current s = Some t" "q_data (s_policy s) = us" "length us < q_capacity (s_policy s)"
    "t_state (s_threads s t) = RUNNING" "\<forall>u \<in> set us. t_state (s_threads s u) = READY"
    "\<forall>u \<in> set (t # us). t_data (s_threads s u) \<noteq> None \<and> is_in_kstack_range (s_threads s u) (regs u)"
    using o unfolding rr_order_def ts by simp_all
  obtain d where d: "t_data (s_threads s t) = Some d" using f(7) by auto
  obtain v vs where v: "us @ [t] = v # vs" by (cases "us @ [t]") auto
  let ?e = "d\<lparr>d_yieldRequested := True\<rparr>"
  let ?s1 = "set_data ?e t s"
  let ?s2 = "upd_thread t (\<lambda>th. th\<lparr>t_stack_pointer := regs t\<rparr>) ?s1"
  let ?s3 = "set_data (?e\<lparr>d_quantum := d_resetQuantum ?e, d_yieldRequested := False\<rparr>) t (set_thread_state READY t ?s2)"
  let ?s4 = "?s3\<lparr>s_policy := (s_policy s)\<lparr>q_data := vs\<rparr>\<rparr>"
  let ?s' = "set_thread_state RUNNING v (?s4\<lparr>s_current := Some v\<rparr>)"
  have vr: "t_state (s_threads ?s4 v) = READY" using f(6) v by (cases us) auto
  have k: "is_in_kstack_range (s_threads ?s1 t) (regs t)" using f(7) by (simp add: is_in_kstack_range_def)
  have nf: "\<not> q_full (s_policy s)" using f(3,4) by (simp add: q_full_def)
  have "rr_choose (snd (rr_push t ?s3)) = (Some v, ?s4)"
    using nf v f(3) by (simp add: rr_push_def rr_choose_def q_push_nowait q_pop_nowait)
  then have "rr_evaluate_and_choose t ?s2 = Inr (Some v, ?s4)"
    using d by (simp add: rr_evaluate_and_choose_def rr_yield_def dataFromThread_def Let_def)
  then have "rr_turn regs s = Inr ?s'"
    using d f(2,5) k vr by (simp add: rr_turn_def Thread_yield_def schedule_def SimpleRoundRobinSchedulingPolicy_def switch_to_proc_def Let_def)
  moreover have "rr_order (rotate1 ts) regs ?s'"
  proof -
    have r: "rotate1 ts = v # vs" using v ts by simp
    have "distinct (rotate1 ts)" "set (rotate1 ts) = set ts" "length (rotate1 ts) = length ts" using f(1) ts by simp_all
    then have "distinct (v # vs)" "set (v # vs) = set (t # us)" "length vs = length us" unfolding r by (simp_all add: ts)
    then show ?thesis
      unfolding rr_order_def r using f vr by (auto simp: is_in_kstack_range_def)
  qed
  ultimately show ?thesis by blast
qed

text \<open>C26: round robin is fair. The threads of a queue that is not full are ready, have scheduling data and save their registers on
  their own kernel stacks. When every thread gives the processor back, the threads take turns in the order of the
  queue: after \<open>n\<close> turns the current thread is the \<open>n\<close>-th of them, counting round, and no turn faults.\<close>

theorem rr_takes_turns:
  assumes "rr_order ts regs s"
  shows "\<exists>s'. rr_turns regs n s = Inr s' \<and> s_current s' = Some (ts ! (n mod length ts))"
proof -
  have "\<exists>s'. rr_turns regs n s = Inr s' \<and> rr_order (rotate n ts) regs s'" using assms
  proof (induction n arbitrary: ts s)
    case (Suc n)
    obtain s1 where "rr_turn regs s = Inr s1" "rr_order (rotate1 ts) regs s1" using rr_turn_rotates [OF Suc.prems] by blast
    with Suc.IH [of "rotate1 ts" s1] show ?case by (simp add: rotate1_rotate_swap)
  qed simp
  then obtain s' where s': "rr_turns regs n s = Inr s'" "s_current s' = Some (hd (rotate n ts))"
    unfolding rr_order_def by blast
  moreover have "ts \<noteq> []" using assms by (simp add: rr_order_def)
  ultimately show ?thesis by (simp add: hd_rotate_conv_nth)
qed

text \<open>Three threads, each with a kernel stack of 16 KB of its own.\<close>

definition three_threads :: "rr sched" where
  "three_threads =
     \<lparr>s_threads = (\<lambda>t. idle_thread\<lparr>t_kernelStack := 0x80100000 + 0x4000 * of_nat t, t_state := (if t = 1 then RUNNING else READY),
         t_data := Some (level_data 0 False)\<rparr>),
      s_policy = \<lparr>q_capacity = ReadyQueueCapacity, q_data = [2, 3]\<rparr>, s_current = Some 1\<rparr>"

definition three_regs :: "nat \<Rightarrow> u32" where
  "three_regs t = 0x80100000 + 0x4000 * of_nat t + 0x3F00"

lemma rr_takes_turns_witness:
  "\<exists>s'. rr_turns three_regs 7 three_threads = Inr s' \<and> s_current s' = Some 2"
  using rr_takes_turns [of "[1, 2, 3]" three_regs three_threads 7]
  by (simp add: rr_order_def three_threads_def three_regs_def ReadyQueueCapacity_def idle_thread_def is_in_kstack_range_def
      pointer_is_in_range_def KernelStackSize_def)

end
