(* ===== verification/Pipe.thy ===== *)
theory Pipe
  imports Gz_Prelude
begin

text \<open>
  Pipes, src/kernel/lib/kernel/ipc/Pipe.cpp. A call is cut where another thread can run: at the
  test of its loop, where it may have to wait for an event, and between that test and the part it does under the lock. A call that
  has to wait says so and leaves the pipe as it is; when it is woken it goes on with the test of the loop.
\<close>

section \<open>Operations\<close>

record Pipe =
  pi_buffer :: "u8 list"
  pi_readAvailable :: bool
  pi_writeAvailable :: bool
  pi_readClosed :: bool
  pi_writeClosed :: bool

datatype Direction = DirRead | DirWrite

definition PipeMaxSize :: nat where
  "PipeMaxSize = 1 * 1024 * 1024"

definition new_Pipe :: Pipe where
  "new_Pipe = \<lparr>pi_buffer = [], pi_readAvailable = False, pi_writeAvailable = False, pi_readClosed = False, pi_writeClosed = False\<rparr>"

definition isBufferFullSafe :: "Pipe \<Rightarrow> bool" where
  "isBufferFullSafe p = (PipeMaxSize \<le> length (pi_buffer p))"

definition processBufferSizeUnsafe :: "Pipe \<Rightarrow> Pipe" where
  "processBufferSizeUnsafe p =
     p\<lparr>pi_readAvailable := (pi_buffer p \<noteq> []), pi_writeAvailable := (length (pi_buffer p) < PipeMaxSize)\<rparr>"

text \<open>What a call on a descriptor answers: a number with the bytes it stored in the buffer, or that it waits.\<close>

datatype io = Ret int "u8 list" | Waits

text \<open>The part of a read under the lock, the part from the test of the loop on, and the call.\<close>

definition Pipe_read_locked :: "nat \<Rightarrow> Pipe \<Rightarrow> (io \<times> Pipe) result" where
  "Pipe_read_locked sz p =
     (let size_to_copy = min (length (pi_buffer p)) sz
      in if size_to_copy = 0 then Inl (Assertion ''0 != size_to_copy'')
         else Inr (Ret (int size_to_copy) (take size_to_copy (pi_buffer p)),
                   processBufferSizeUnsafe (p\<lparr>pi_buffer := drop size_to_copy (pi_buffer p)\<rparr>)))"

definition Pipe_read_loop :: "nat \<Rightarrow> Pipe \<Rightarrow> (io \<times> Pipe) result" where
  "Pipe_read_loop sz p =
     (if pi_buffer p = [] \<and> \<not> pi_writeClosed p then Inr (Waits, p)
      else if pi_writeClosed p then Inr (Ret 0 [], p)
      else Pipe_read_locked sz p)"

definition Pipe_read :: "nat \<Rightarrow> Pipe \<Rightarrow> (io \<times> Pipe) result" where
  "Pipe_read sz p = (if pi_readClosed p then Inr (Ret (-1) [], p) else Pipe_read_loop sz p)"

text \<open>A write in the same way.\<close>

definition Pipe_write_locked :: "u8 list \<Rightarrow> Pipe \<Rightarrow> io \<times> Pipe" where
  "Pipe_write_locked bytes p =
     (Ret (int (length bytes)) [], processBufferSizeUnsafe (p\<lparr>pi_buffer := pi_buffer p @ bytes\<rparr>))"

definition Pipe_write_loop :: "u8 list \<Rightarrow> Pipe \<Rightarrow> io \<times> Pipe" where
  "Pipe_write_loop bytes p = (if isBufferFullSafe p then (Waits, p) else Pipe_write_locked bytes p)"

definition Pipe_write :: "u8 list \<Rightarrow> Pipe \<Rightarrow> io \<times> Pipe" where
  "Pipe_write bytes p = (if pi_writeClosed p \<or> pi_readClosed p then (Ret (-1) [], p) else Pipe_write_loop bytes p)"

lemmas Pipe_read_defs = Pipe_read_def Pipe_read_loop_def Pipe_read_locked_def
lemmas Pipe_write_defs = Pipe_write_def Pipe_write_loop_def Pipe_write_locked_def

definition Pipe_poll :: "Pipe \<Rightarrow> bool \<times> bool" where
  "Pipe_poll p =
     (pi_buffer p \<noteq> [] \<or> pi_writeClosed p \<or> pi_readClosed p, \<not> isBufferFullSafe p \<or> pi_writeClosed p \<or> pi_readClosed p)"

definition Pipe_close :: "Direction \<Rightarrow> Pipe \<Rightarrow> Pipe" where
  "Pipe_close d p = (case d of DirRead \<Rightarrow> p\<lparr>pi_readClosed := True\<rparr> | DirWrite \<Rightarrow> p\<lparr>pi_writeClosed := True\<rparr>)"

section \<open>Runs\<close>

text \<open>
  A run of any number of threads: the bytes accepted by writes and the bytes delivered by reads. The part of a call under the lock
  may come any time after its tests, when other threads have read, written or closed an end meanwhile, so it is a step of its
  own with no condition. The parts of a call before it do not change the pipe.
\<close>

inductive pipe_runs :: "u8 list \<Rightarrow> u8 list \<Rightarrow> Pipe \<Rightarrow> bool" where
  create: "pipe_runs [] [] new_Pipe"
| read_done: "pipe_runs ws rs p \<Longrightarrow> Pipe_read_locked n p = Inr (Ret k bs, p') \<Longrightarrow> pipe_runs ws (rs @ bs) p'"
| write_done: "pipe_runs ws rs p \<Longrightarrow> Pipe_write_locked bs p = (Ret k [], p') \<Longrightarrow> pipe_runs (ws @ bs) rs p'"
| close_done: "pipe_runs ws rs p \<Longrightarrow> pipe_runs ws rs (Pipe_close d p)"

lemma pipe_inv:
  assumes "pipe_runs ws rs p"
  shows "ws = rs @ pi_buffer p \<and> (pi_readAvailable p \<longleftrightarrow> pi_buffer p \<noteq> [])"
  using assms
  by (induction rule: pipe_runs.induct)
    (auto simp: new_Pipe_def Pipe_read_locked_def Pipe_write_locked_def Pipe_close_def processBufferSizeUnsafe_def Let_def
      split: if_splits Direction.splits)

text \<open>Calls that are not interrupted are steps of a run, or do not change the pipe.\<close>

lemma read_runs:
  "pipe_runs ws rs p \<Longrightarrow> Pipe_read n p = Inr (Ret k bs, p') \<Longrightarrow> pipe_runs ws (rs @ bs) p'"
  using pipe_runs.read_done by (auto simp: Pipe_read_def Pipe_read_loop_def split: if_splits)

lemma write_runs:
  "pipe_runs ws rs p \<Longrightarrow> Pipe_write bs p = (Ret k x, p') \<Longrightarrow> 0 \<le> k \<Longrightarrow> pipe_runs (ws @ bs) rs p'"
  using pipe_runs.write_done
  by (auto simp: Pipe_write_def Pipe_write_loop_def Pipe_write_locked_def split: if_splits)

section \<open>Properties\<close>

text \<open>C30: a pipe is a queue of bytes. In every run, however the calls interleave, the bytes written are the bytes
  read followed by the buffer, and the event readers wait for is raised exactly while the buffer is not empty. A call that is not
  interrupted answers as follows. A read of at least one byte fails if the read end is closed; otherwise it answers end of file if
  the write end is closed, also when bytes are left; otherwise it waits if the buffer is empty; otherwise it takes the next bytes, as
  many as it asked for or as there are. A write fails if an end is closed, waits if the pipe is full and
  appends all its bytes otherwise.\<close>

theorem pipe_is_fifo:
  assumes "pipe_runs ws rs p" "0 < n"
  shows "ws = rs @ pi_buffer p \<and> (pi_readAvailable p \<longleftrightarrow> pi_buffer p \<noteq> []) \<and>
    (if pi_readClosed p then Pipe_read n p = Inr (Ret (-1) [], p)
     else if pi_writeClosed p then Pipe_read n p = Inr (Ret 0 [], p)
     else if pi_buffer p = [] then Pipe_read n p = Inr (Waits, p)
     else \<exists>bs p'. Pipe_read n p = Inr (Ret (int (length bs)) bs, p') \<and> length bs = min n (length (pi_buffer p)) \<and>
            pi_buffer p = bs @ pi_buffer p' \<and> pipe_runs ws (rs @ bs) p') \<and>
    (if pi_readClosed p \<or> pi_writeClosed p then Pipe_write cs p = (Ret (-1) [], p)
     else if PipeMaxSize \<le> length (pi_buffer p) then Pipe_write cs p = (Waits, p)
     else \<exists>p'. Pipe_write cs p = (Ret (int (length cs)) [], p') \<and> pi_buffer p' = pi_buffer p @ cs \<and> pipe_runs (ws @ cs) rs p')"
proof -
  let ?k = "min (length (pi_buffer p)) n"
  let ?r = "processBufferSizeUnsafe (p\<lparr>pi_buffer := drop ?k (pi_buffer p)\<rparr>)"
  let ?w = "processBufferSizeUnsafe (p\<lparr>pi_buffer := pi_buffer p @ cs\<rparr>)"
  have r: "Pipe_read n p = Inr (Ret (int ?k) (take ?k (pi_buffer p)), ?r)"
    if "\<not> pi_readClosed p" "\<not> pi_writeClosed p" "pi_buffer p \<noteq> []"
    using that assms(2) by (simp add: Pipe_read_defs Let_def)
  have w: "Pipe_write cs p = (Ret (int (length cs)) [], ?w)"
    if "\<not> (pi_readClosed p \<or> pi_writeClosed p)" "\<not> PipeMaxSize \<le> length (pi_buffer p)"
    using that by (simp add: Pipe_write_defs isBufferFullSafe_def)
  have b: "pi_buffer ?r = drop ?k (pi_buffer p)" "pi_buffer ?w = pi_buffer p @ cs"
    by (simp_all add: processBufferSizeUnsafe_def)
  have reads: "\<exists>bs p'. Pipe_read n p = Inr (Ret (int (length bs)) bs, p') \<and> length bs = min n (length (pi_buffer p)) \<and>
      pi_buffer p = bs @ pi_buffer p' \<and> pipe_runs ws (rs @ bs) p'"
    if "\<not> pi_readClosed p" "\<not> pi_writeClosed p" "pi_buffer p \<noteq> []"
    using r [OF that] b(1) read_runs [OF assms(1) r [OF that]]
    by (intro exI [of _ "take ?k (pi_buffer p)"] exI [of _ ?r]) simp
  have writes: "\<exists>p'. Pipe_write cs p = (Ret (int (length cs)) [], p') \<and> pi_buffer p' = pi_buffer p @ cs \<and> pipe_runs (ws @ cs) rs p'"
    if "\<not> (pi_readClosed p \<or> pi_writeClosed p)" "\<not> PipeMaxSize \<le> length (pi_buffer p)"
    using w [OF that] b(2) write_runs [OF assms(1) w [OF that]] by (intro exI [of _ ?w]) simp
  have calls: "\<not> pi_readClosed p \<Longrightarrow> pi_writeClosed p \<Longrightarrow> Pipe_read n p = Inr (Ret 0 [], p)"
    "\<not> pi_readClosed p \<Longrightarrow> \<not> pi_writeClosed p \<Longrightarrow> pi_buffer p = [] \<Longrightarrow> Pipe_read n p = Inr (Waits, p)"
    "pi_readClosed p \<Longrightarrow> Pipe_read n p = Inr (Ret (-1) [], p)"
    "pi_readClosed p \<or> pi_writeClosed p \<Longrightarrow> Pipe_write cs p = (Ret (-1) [], p)"
    "\<not> (pi_readClosed p \<or> pi_writeClosed p) \<Longrightarrow> PipeMaxSize \<le> length (pi_buffer p) \<Longrightarrow> Pipe_write cs p = (Waits, p)"
    by (auto simp: Pipe_read_def Pipe_read_loop_def Pipe_write_def Pipe_write_loop_def isBufferFullSafe_def)
  show ?thesis
  proof (intro conjI)
    show "ws = rs @ pi_buffer p" "pi_readAvailable p \<longleftrightarrow> pi_buffer p \<noteq> []" using pipe_inv [OF assms(1)] by simp_all
  next
    show "if pi_readClosed p then Pipe_read n p = Inr (Ret (-1) [], p)
     else if pi_writeClosed p then Pipe_read n p = Inr (Ret 0 [], p)
     else if pi_buffer p = [] then Pipe_read n p = Inr (Waits, p)
     else \<exists>bs p'. Pipe_read n p = Inr (Ret (int (length bs)) bs, p') \<and> length bs = min n (length (pi_buffer p)) \<and>
            pi_buffer p = bs @ pi_buffer p' \<and> pipe_runs ws (rs @ bs) p'"
      using calls(1-3) reads by (auto simp only: if_True if_False split: if_split)
  next
    show "if pi_readClosed p \<or> pi_writeClosed p then Pipe_write cs p = (Ret (-1) [], p)
     else if PipeMaxSize \<le> length (pi_buffer p) then Pipe_write cs p = (Waits, p)
     else \<exists>p'. Pipe_write cs p = (Ret (int (length cs)) [], p') \<and> pi_buffer p' = pi_buffer p @ cs \<and> pipe_runs (ws @ cs) rs p'"
      using calls(4-5) writes by (auto simp only: if_True if_False split: if_split)
  qed
qed

definition hello_pipe :: Pipe where
  "hello_pipe = snd (Pipe_write [104, 105] new_Pipe)"

lemma hello_pipe_eqs: "pi_buffer hello_pipe = [104, 105]" "\<not> pi_readClosed hello_pipe" "\<not> pi_writeClosed hello_pipe"
  by (simp_all add: hello_pipe_def Pipe_write_defs new_Pipe_def isBufferFullSafe_def processBufferSizeUnsafe_def PipeMaxSize_def)

lemma hello_pipe_runs: "pipe_runs [104, 105] [] hello_pipe"
  using write_runs [OF pipe_runs.create, of "[104, 105]" 2 "[]" hello_pipe]
  by (simp add: hello_pipe_def Pipe_write_defs new_Pipe_def isBufferFullSafe_def PipeMaxSize_def)

lemma pipe_is_fifo_witness:
  "\<exists>bs p'. Pipe_read 1 hello_pipe = Inr (Ret (int (length bs)) bs, p') \<and> length bs = 1 \<and>
     [104, 105] = bs @ pi_buffer p' \<and> pipe_runs [104, 105] bs p'"
  using pipe_is_fifo [OF hello_pipe_runs, of 1 "[]"] by (simp add: hello_pipe_eqs)

text \<open>Closing the write end discards what is still in the pipe: from then on every read answers end of file, whatever
  the buffer holds, and the pipe does not change.\<close>

theorem pipe_close_loses_data:
  assumes "\<not> pi_readClosed p"
  shows "Pipe_read n (Pipe_close DirWrite p) = Inr (Ret 0 [], Pipe_close DirWrite p) \<and>
         pi_buffer (Pipe_close DirWrite p) = pi_buffer p"
  using assms by (simp add: Pipe_read_def Pipe_read_loop_def Pipe_close_def)

lemma pipe_close_loses_data_witness:
  "Pipe_read 2 (Pipe_close DirWrite hello_pipe) = Inr (Ret 0 [], Pipe_close DirWrite hello_pipe) \<and>
   pi_buffer (Pipe_close DirWrite hello_pipe) = [104, 105]"
  using pipe_close_loses_data [of hello_pipe 2] by (simp add: hello_pipe_eqs)

text \<open>Two readers that both saw the pipe not empty: when the first takes all of it, the assertion of the second fails.\<close>

theorem pipe_second_reader_asserts:
  "\<exists>p'. Pipe_read_locked 2 hello_pipe = Inr (Ret 2 [104, 105], p') \<and>
        Pipe_read_locked 2 p' = Inl (Assertion ''0 != size_to_copy'')"
  by (simp add: Pipe_read_locked_def hello_pipe_eqs processBufferSizeUnsafe_def)

text \<open>Closing the write end does not raise the event: a reader that waits for an empty pipe is not woken by it.\<close>

theorem pipe_close_leaves_reader:
  "pi_readAvailable (Pipe_close DirWrite new_Pipe) = False \<and> Pipe_read 1 new_Pipe = Inr (Waits, new_Pipe)"
  by (simp add: Pipe_close_def new_Pipe_def Pipe_read_def Pipe_read_loop_def)

end
