(* ===== verification/File_Desc.thy ===== *)
theory File_Desc
  imports Pipe
begin

text \<open>
  File descriptors and the descriptor tables of processes, src/kernel/lib/kernel/vfs/FileDescriptor.cpp,
  AccessControlledFileDescriptor.cpp, FileDescriptorCollection.cpp, ipc/PipeFileDescriptor.cpp and vfs_api.cpp. Offsets are
  C ints and sizes are size_t, both 32 bits wide.
\<close>

section \<open>Descriptors\<close>

datatype FileDescriptor =
    NullFileDescriptor u32
  | InvalidFileDescriptor
  | MemoryBackedFileDescriptor u32 u32 u32
  | VectorBackedFileDescriptor nat u32
  | PipeFileDescriptor nat Direction
  | AccessControlledFileDescriptor FileDescriptor bool bool

text \<open>The objects descriptors refer to: memory, the vectors of files with the addresses of their bytes, pipes.\<close>

record fd_store =
  fs_mem :: "u32 \<Rightarrow> u8"
  fs_vectors :: "u8 list list"
  fs_base :: "nat \<Rightarrow> u32"
  fs_pipes :: "Pipe list"

definition SEEK_SET :: int where "SEEK_SET = 0"
definition SEEK_CUR :: int where "SEEK_CUR = 1"
definition SEEK_END :: int where "SEEK_END = 2"

definition mem_size_left :: "u32 \<Rightarrow> u32 \<Rightarrow> u32 \<Rightarrow> u32" where
  "mem_size_left start stop off = stop - (start + off)"

definition vec_size_left :: "u8 list \<Rightarrow> u32 \<Rightarrow> u32" where
  "vec_size_left data off = of_nat (length data) - off"

definition mem_read :: "(u32 \<Rightarrow> u8) \<Rightarrow> u32 \<Rightarrow> nat \<Rightarrow> u8 list" where
  "mem_read m a n = map (\<lambda>i. m (a + of_nat i)) [0..<n]"

fun mem_write :: "u32 \<Rightarrow> u8 list \<Rightarrow> (u32 \<Rightarrow> u8) \<Rightarrow> (u32 \<Rightarrow> u8)" where
  "mem_write a [] m = m"
| "mem_write a (b # bs) m = mem_write (a + 1) bs (m(a := b))"

definition memory_read :: "u32 \<Rightarrow> u32 \<Rightarrow> u32 \<Rightarrow> u32 \<Rightarrow> fd_store \<Rightarrow> io \<times> u32" where
  "memory_read sz start stop off s =
     (let len = min sz (mem_size_left start stop off)
      in if len = 0 then (Ret 0 [], off)
         else (Ret (sint len) (mem_read (fs_mem s) (start + off) (unat len)), off + len))"

definition memory_write :: "u8 list \<Rightarrow> u32 \<Rightarrow> u32 \<Rightarrow> u32 \<Rightarrow> fd_store \<Rightarrow> io \<times> u32 \<times> fd_store" where
  "memory_write bytes start stop off s =
     (let len = min (of_nat (length bytes)) (mem_size_left start stop off)
      in if len = 0 then (Ret 0 [], off, s)
         else (Ret (sint len) [], off + len,
               s\<lparr>fs_mem := mem_write (start + off) (take (unat len) bytes) (fs_mem s)\<rparr>))"

definition vector_read :: "u32 \<Rightarrow> nat \<Rightarrow> u32 \<Rightarrow> fd_store \<Rightarrow> (io \<times> u32) result" where
  "vector_read sz v off s =
     (let data = fs_vectors s ! v; len = min sz (vec_size_left data off)
      in if len = 0 then Inr (Ret 0 [], off)
         else if length data < unat off + unat len then Inl (Undefined ''memcpy from outside of the vector'')
         else Inr (Ret (sint len) (take (unat len) (drop (unat off) data)), off + len))"

definition vector_write :: "u8 list \<Rightarrow> nat \<Rightarrow> u32 \<Rightarrow> fd_store \<Rightarrow> io \<times> u32 \<times> fd_store" where
  "vector_write bytes v off s =
     (Ret (sint (of_nat (length bytes) :: u32)) [], off + of_nat (length bytes),
      s\<lparr>fs_vectors := (fs_vectors s)[v := fs_vectors s ! v @ bytes]\<rparr>)"

definition null_seek :: "u32 \<Rightarrow> int \<Rightarrow> u32 \<Rightarrow> int \<times> u32" where
  "null_seek whr whence off =
     (if whence = SEEK_SET then (sint whr, whr)
      else if whence = SEEK_CUR then (sint (off + whr), off + whr)
      else (-1, off))"

definition memory_seek :: "u32 \<Rightarrow> int \<Rightarrow> u32 \<Rightarrow> u32 \<Rightarrow> u32 \<Rightarrow> int \<times> u32" where
  "memory_seek whr whence start stop off =
     (if whence = SEEK_SET then (sint whr, whr)
      else if whence = SEEK_CUR then (sint (off + whr), off + whr)
      else if whence = SEEK_END then (sint ((stop - whr) - start), (stop - whr) - start)
      else (-1, off))"

definition vector_seek :: "u32 \<Rightarrow> int \<Rightarrow> nat \<Rightarrow> u32 \<Rightarrow> fd_store \<Rightarrow> int \<times> u32" where
  "vector_seek whr whence v off s =
     (let n = of_nat (length (fs_vectors s ! v)); start = fs_base s v; stop = start + n
      in if whence = SEEK_SET then (if \<not> pointer_is_in_range whr start stop then (-1, off) else (sint whr, whr))
         else if whence = SEEK_CUR then
           (if \<not> pointer_is_in_range (off + whr) start stop then (-1, off) else (sint (off + whr), off + whr))
         else if whence = SEEK_END then
           (if \<not> pointer_is_in_range (n - whr) start stop then (-1, off) else (sint (n - whr), n - whr))
         else (-1, off))"

fun fd_read :: "u32 \<Rightarrow> FileDescriptor \<Rightarrow> fd_store \<Rightarrow> (io \<times> FileDescriptor \<times> fd_store) result" where
  "fd_read sz (NullFileDescriptor off) s = Inr (Ret (sint sz) (replicate (unat sz) 0), NullFileDescriptor (off + sz), s)"
| "fd_read sz InvalidFileDescriptor s = Inr (Ret (-1) [], InvalidFileDescriptor, s)"
| "fd_read sz (MemoryBackedFileDescriptor start stop off) s =
     (case memory_read sz start stop off s of (r, off1) \<Rightarrow> Inr (r, MemoryBackedFileDescriptor start stop off1, s))"
| "fd_read sz (VectorBackedFileDescriptor v off) s =
     rbind (vector_read sz v off s) (\<lambda>(r, off1). Inr (r, VectorBackedFileDescriptor v off1, s))"
| "fd_read sz (PipeFileDescriptor k d) s =
     (if d \<noteq> DirRead then Inr (Ret (-1) [], PipeFileDescriptor k d, s)
      else rbind (Pipe_read (unat sz) (fs_pipes s ! k)) (\<lambda>(r, p).
             Inr (r, PipeFileDescriptor k d, s\<lparr>fs_pipes := (fs_pipes s)[k := p]\<rparr>)))"
| "fd_read sz (AccessControlledFileDescriptor fd r w) s =
     (if \<not> r then Inr (Ret (-1) [], AccessControlledFileDescriptor fd r w, s)
      else rbind (fd_read sz fd s) (\<lambda>(a, fd1, s1). Inr (a, AccessControlledFileDescriptor fd1 r w, s1)))"

fun fd_write :: "u8 list \<Rightarrow> FileDescriptor \<Rightarrow> fd_store \<Rightarrow> io \<times> FileDescriptor \<times> fd_store" where
  "fd_write bytes (NullFileDescriptor off) s =
     (Ret (sint (of_nat (length bytes) :: u32)) [], NullFileDescriptor (off + of_nat (length bytes)), s)"
| "fd_write bytes InvalidFileDescriptor s = (Ret (-1) [], InvalidFileDescriptor, s)"
| "fd_write bytes (MemoryBackedFileDescriptor start stop off) s =
     (case memory_write bytes start stop off s of (r, off1, s1) \<Rightarrow> (r, MemoryBackedFileDescriptor start stop off1, s1))"
| "fd_write bytes (VectorBackedFileDescriptor v off) s =
     (case vector_write bytes v off s of (r, off1, s1) \<Rightarrow> (r, VectorBackedFileDescriptor v off1, s1))"
| "fd_write bytes (PipeFileDescriptor k d) s =
     (if d \<noteq> DirWrite then (Ret (-1) [], PipeFileDescriptor k d, s)
      else case Pipe_write bytes (fs_pipes s ! k) of (r, p) \<Rightarrow>
             (r, PipeFileDescriptor k d, s\<lparr>fs_pipes := (fs_pipes s)[k := p]\<rparr>))"
| "fd_write bytes (AccessControlledFileDescriptor fd r w) s =
     (if \<not> w then (Ret (-1) [], AccessControlledFileDescriptor fd r w, s)
      else case fd_write bytes fd s of (a, fd1, s1) \<Rightarrow> (a, AccessControlledFileDescriptor fd1 r w, s1))"

fun fd_seek :: "u32 \<Rightarrow> int \<Rightarrow> FileDescriptor \<Rightarrow> fd_store \<Rightarrow> int \<times> FileDescriptor" where
  "fd_seek whr whence (NullFileDescriptor off) s = (case null_seek whr whence off of (r, off1) \<Rightarrow> (r, NullFileDescriptor off1))"
| "fd_seek whr whence InvalidFileDescriptor s = (-1, InvalidFileDescriptor)"
| "fd_seek whr whence (MemoryBackedFileDescriptor start stop off) s =
     (case memory_seek whr whence start stop off of (r, off1) \<Rightarrow> (r, MemoryBackedFileDescriptor start stop off1))"
| "fd_seek whr whence (VectorBackedFileDescriptor v off) s =
     (case vector_seek whr whence v off s of (r, off1) \<Rightarrow> (r, VectorBackedFileDescriptor v off1))"
| "fd_seek whr whence (PipeFileDescriptor k d) s = (-1, PipeFileDescriptor k d)"
| "fd_seek whr whence (AccessControlledFileDescriptor fd r w) s =
     (case fd_seek whr whence fd s of (a, fd1) \<Rightarrow> (a, AccessControlledFileDescriptor fd1 r w))"

text \<open>The size \<open>stat\<close> stores; \<open>None\<close> when it returns -1.\<close>

fun fd_stat :: "FileDescriptor \<Rightarrow> fd_store \<Rightarrow> u32 option" where
  "fd_stat (NullFileDescriptor off) s = Some 0"
| "fd_stat InvalidFileDescriptor s = None"
| "fd_stat (MemoryBackedFileDescriptor start stop off) s = Some (stop - start)"
| "fd_stat (VectorBackedFileDescriptor v off) s = Some (of_nat (length (fs_vectors s ! v)))"
| "fd_stat (PipeFileDescriptor k d) s = None"
| "fd_stat (AccessControlledFileDescriptor fd r w) s = fd_stat fd s"

text \<open>The answer of \<open>poll\<close>, and what it stores for reading and for writing. Only pipes override it.\<close>

fun fd_poll :: "FileDescriptor \<Rightarrow> fd_store \<Rightarrow> int \<times> bool option \<times> bool option" where
  "fd_poll (PipeFileDescriptor k d) s =
     (case Pipe_poll (fs_pipes s ! k) of (rd, wr) \<Rightarrow>
        (0, if d = DirWrite then None else Some rd, if d = DirWrite then Some wr else None))"
| "fd_poll fd s = (-1, None, None)"

fun fd_close_object :: "FileDescriptor \<Rightarrow> fd_store \<Rightarrow> fd_store" where
  "fd_close_object (PipeFileDescriptor k d) s = s\<lparr>fs_pipes := (fs_pipes s)[k := Pipe_close d (fs_pipes s ! k)]\<rparr>"
| "fd_close_object (AccessControlledFileDescriptor fd r w) s = fd_close_object fd s"
| "fd_close_object fd s = s"

text \<open>Open flags, with the values of the C library.\<close>

definition O_RDONLY :: u32 where "O_RDONLY = 0"
definition O_WRONLY :: u32 where "O_WRONLY = 1"
definition O_RDWR :: u32 where "O_RDWR = 2"
definition O_CREAT :: u32 where "O_CREAT = 0x200"
definition O_TRUNC :: u32 where "O_TRUNC = 0x400"

definition new_AccessControlledFileDescriptor :: "FileDescriptor \<Rightarrow> u32 \<Rightarrow> FileDescriptor" where
  "new_AccessControlledFileDescriptor fd flags =
     AccessControlledFileDescriptor fd (flags = O_RDONLY \<or> flags = O_RDWR) (flags = O_WRONLY \<or> flags = O_RDWR)"

section \<open>Descriptor tables\<close>

text \<open>
  The tables of the processes map numbers to descriptor objects, which tables share after \<open>dup\<close> and \<open>fork\<close>. An object
  is destroyed, and its descriptor closed, when the last table lets go of it.
\<close>

type_synonym fd_table = "(int \<times> nat) list"

record fd_world =
  w_store :: fd_store
  w_objs :: "FileDescriptor list"
  w_tables :: "fd_table list"

definition MAX_FD :: nat where
  "MAX_FD = 1024"

definition INVALID_FD :: int where
  "INVALID_FD = -1"

definition held :: "fd_world \<Rightarrow> nat \<Rightarrow> bool" where
  "held w k = (\<exists>t \<in> set (w_tables w). k \<in> snd ` set t)"

definition release :: "nat \<Rightarrow> fd_world \<Rightarrow> fd_world" where
  "release k w = (if held w k then w else w\<lparr>w_store := fd_close_object (w_objs w ! k) (w_store w)\<rparr>)"

definition table_put :: "int \<Rightarrow> nat \<Rightarrow> fd_table \<Rightarrow> fd_table" where
  "table_put n k t = (n, k) # filter (\<lambda>e. fst e \<noteq> n) t"

definition table_erase :: "int \<Rightarrow> fd_table \<Rightarrow> fd_table" where
  "table_erase n t = filter (\<lambda>e. fst e \<noteq> n) t"

definition allocate_fd :: "fd_table \<Rightarrow> int" where
  "allocate_fd t = (case find (\<lambda>i. map_of t (int i) = None) [0..<MAX_FD] of Some i \<Rightarrow> int i | None \<Rightarrow> INVALID_FD)"

definition push_filedescriptor :: "nat \<Rightarrow> FileDescriptor option \<Rightarrow> fd_world \<Rightarrow> int \<times> fd_world" where
  "push_filedescriptor p fd w =
     (case fd of
        None \<Rightarrow> (INVALID_FD, w)
      | Some f \<Rightarrow>
          let k = length (w_objs w);
              w1 = w\<lparr>w_objs := w_objs w @ [f]\<rparr>;
              fdnum = allocate_fd (w_tables w ! p)
          in if fdnum = INVALID_FD then (INVALID_FD, release k w1)
             else (fdnum, w1\<lparr>w_tables := (w_tables w)[p := table_put fdnum k (w_tables w ! p)]\<rparr>))"

definition get_filedescriptor :: "nat \<Rightarrow> int \<Rightarrow> fd_world \<Rightarrow> nat option" where
  "get_filedescriptor p n w = map_of (w_tables w ! p) n"

definition remove_filedescriptor :: "nat \<Rightarrow> int \<Rightarrow> bool \<Rightarrow> fd_world \<Rightarrow> int \<times> fd_world" where
  "remove_filedescriptor p n close w =
     (case get_filedescriptor p n w of
        None \<Rightarrow> (-1, w)
      | Some k \<Rightarrow>
          let w1 = (if close then w\<lparr>w_store := fd_close_object (w_objs w ! k) (w_store w)\<rparr> else w);
              w2 = w1\<lparr>w_tables := (w_tables w)[p := table_erase n (w_tables w ! p)]\<rparr>
          in (0, release k w2))"

definition close_all :: "nat \<Rightarrow> fd_world \<Rightarrow> fd_world" where
  "close_all p w = fold release (map snd (w_tables w ! p)) (w\<lparr>w_tables := (w_tables w)[p := []]\<rparr>)"

definition duplicate :: "nat \<Rightarrow> int \<Rightarrow> int \<Rightarrow> fd_world \<Rightarrow> bool \<times> fd_world" where
  "duplicate p old_fd new_fd w =
     (case get_filedescriptor p old_fd w of
        None \<Rightarrow> (False, w)
      | Some k \<Rightarrow>
          let w1 = w\<lparr>w_tables := (w_tables w)[p := table_put new_fd k (w_tables w ! p)]\<rparr>
          in (True, case get_filedescriptor p new_fd w of None \<Rightarrow> w1 | Some k1 \<Rightarrow> release k1 w1))"

text \<open>The copy constructor, for the child of a \<open>fork\<close>.\<close>

definition fork_table :: "nat \<Rightarrow> fd_world \<Rightarrow> fd_world" where
  "fork_table p w = w\<lparr>w_tables := w_tables w @ [w_tables w ! p]\<rparr>"

section \<open>The interface of the file system\<close>

text \<open>\<open>cur\<close> is the current process, if there is one.\<close>

definition vfs_num_to_fd :: "nat option \<Rightarrow> int \<Rightarrow> fd_world \<Rightarrow> nat option" where
  "vfs_num_to_fd cur n w = (case cur of None \<Rightarrow> None | Some p \<Rightarrow> get_filedescriptor p n w)"

definition vfs_pushfd :: "nat option \<Rightarrow> FileDescriptor option \<Rightarrow> fd_world \<Rightarrow> int \<times> fd_world" where
  "vfs_pushfd cur fd w =
     (case cur of
        None \<Rightarrow> (-1, case fd of None \<Rightarrow> w | Some f \<Rightarrow> w\<lparr>w_store := fd_close_object f (w_store w)\<rparr>)
      | Some p \<Rightarrow> push_filedescriptor p fd w)"

definition vfs_close :: "nat option \<Rightarrow> int \<Rightarrow> fd_world \<Rightarrow> int \<times> fd_world" where
  "vfs_close cur n w = (case cur of None \<Rightarrow> (-1, w) | Some p \<Rightarrow> (0, snd (remove_filedescriptor p n False w)))"

definition vfs_read :: "nat option \<Rightarrow> int \<Rightarrow> u32 \<Rightarrow> fd_world \<Rightarrow> (io \<times> fd_world) result" where
  "vfs_read cur n sz w =
     (case vfs_num_to_fd cur n w of
        None \<Rightarrow> Inr (Ret (-1) [], w)
      | Some k \<Rightarrow> rbind (fd_read sz (w_objs w ! k) (w_store w)) (\<lambda>(r, fd, s).
          Inr (r, w\<lparr>w_objs := (w_objs w)[k := fd], w_store := s\<rparr>)))"

definition vfs_write :: "nat option \<Rightarrow> int \<Rightarrow> u8 list \<Rightarrow> fd_world \<Rightarrow> io \<times> fd_world" where
  "vfs_write cur n bytes w =
     (case vfs_num_to_fd cur n w of
        None \<Rightarrow> (Ret (-1) [], w)
      | Some k \<Rightarrow> (case fd_write bytes (w_objs w ! k) (w_store w) of (r, fd, s) \<Rightarrow>
          (r, w\<lparr>w_objs := (w_objs w)[k := fd], w_store := s\<rparr>)))"

definition vfs_seek :: "nat option \<Rightarrow> int \<Rightarrow> u32 \<Rightarrow> int \<Rightarrow> fd_world \<Rightarrow> int \<times> fd_world" where
  "vfs_seek cur n off whence w =
     (case vfs_num_to_fd cur n w of
        None \<Rightarrow> (-1, w)
      | Some k \<Rightarrow> (case fd_seek off whence (w_objs w ! k) (w_store w) of (r, fd) \<Rightarrow> (r, w\<lparr>w_objs := (w_objs w)[k := fd]\<rparr>)))"

definition vfs_dup :: "nat option \<Rightarrow> int \<Rightarrow> int \<Rightarrow> fd_world \<Rightarrow> int \<times> fd_world" where
  "vfs_dup cur old_fd new_fd w =
     (case cur of None \<Rightarrow> (-1, w) | Some p \<Rightarrow> (case duplicate p old_fd new_fd w of (r, w1) \<Rightarrow> (if r then 0 else -1, w1)))"

definition vfs_stat :: "nat option \<Rightarrow> int \<Rightarrow> fd_world \<Rightarrow> u32 option" where
  "vfs_stat cur n w = (case vfs_num_to_fd cur n w of None \<Rightarrow> None | Some k \<Rightarrow> fd_stat (w_objs w ! k) (w_store w))"

text \<open>The system call that makes a pipe: both ends, and their numbers.\<close>

definition sys_pipe :: "nat \<Rightarrow> fd_world \<Rightarrow> (int \<times> int) \<times> fd_world" where
  "sys_pipe p w =
     (let k = length (fs_pipes (w_store w));
          w1 = w\<lparr>w_store := (w_store w)\<lparr>fs_pipes := fs_pipes (w_store w) @ [new_Pipe]\<rparr>\<rparr>
      in case vfs_pushfd (Some p) (Some (PipeFileDescriptor k DirRead)) w1 of (r, w2) \<Rightarrow>
         (case vfs_pushfd (Some p) (Some (PipeFileDescriptor k DirWrite)) w2 of (wr, w3) \<Rightarrow> ((r, wr), w3)))"

end
