(* ===== verification/File_Desc_Props.thy ===== *)
theory File_Desc_Props
  imports File_Desc
begin

text \<open>
  When the ends of pipes are closed under sharing of descriptors by \<open>dup\<close> and \<open>fork\<close>, which numbers descriptors get,
  and what reading and writing files does.
\<close>

section \<open>Ends of pipes\<close>

fun pipe_end :: "FileDescriptor \<Rightarrow> (nat \<times> Direction) option" where
  "pipe_end (PipeFileDescriptor k d) = Some (k, d)"
| "pipe_end (AccessControlledFileDescriptor fd r w) = pipe_end fd"
| "pipe_end fd = None"

definition pipe_closed :: "Direction \<Rightarrow> Pipe \<Rightarrow> bool" where
  "pipe_closed d p = (case d of DirRead \<Rightarrow> pi_readClosed p | DirWrite \<Rightarrow> pi_writeClosed p)"

lemma pipe_closed_close [simp]: "pipe_closed d (Pipe_close d' p) \<longleftrightarrow> d = d' \<or> pipe_closed d p"
  by (cases d; cases d') (simp_all add: pipe_closed_def Pipe_close_def)

lemma pipe_closed_ops:
  "Pipe_read n p = Inr (r, p') \<Longrightarrow> pipe_closed d p' = pipe_closed d p"
  "Pipe_write bs p = (r, p') \<Longrightarrow> pipe_closed d p' = pipe_closed d p"
  by (auto simp: Pipe_read_defs Pipe_write_defs processBufferSizeUnsafe_def pipe_closed_def Let_def split: if_splits Direction.splits)

lemma close_object_end:
  "fd_close_object fd s =
     (case pipe_end fd of None \<Rightarrow> s | Some (k, d) \<Rightarrow> s\<lparr>fs_pipes := (fs_pipes s)[k := Pipe_close d (fs_pipes s ! k)]\<rparr>)"
  by (induction fd s rule: fd_close_object.induct) simp_all

text \<open>Reading and writing change neither which end a descriptor is nor which ends are closed.\<close>

definition same_ends :: "fd_store \<Rightarrow> fd_store \<Rightarrow> bool" where
  "same_ends s s' \<longleftrightarrow> length (fs_pipes s') = length (fs_pipes s) \<and>
     (\<forall>j < length (fs_pipes s). \<forall>d. pipe_closed d (fs_pipes s' ! j) = pipe_closed d (fs_pipes s ! j))"

lemma same_ends_refl [simp]: "same_ends s s"
  by (simp add: same_ends_def)

lemma fd_read_ends: "fd_read sz fd s = Inr (r, fd', s') \<Longrightarrow> pipe_end fd' = pipe_end fd \<and> same_ends s s'"
proof (induction sz fd s arbitrary: r fd' s' rule: fd_read.induct)
  case (5 sz k d s)
  then show ?case
    by (auto simp: rbind_Inr same_ends_def pipe_closed_ops(1) split: if_splits)
qed (auto simp: rbind_Inr split: if_splits prod.splits)

lemma fd_write_ends: "fd_write bs fd s = (r, fd', s') \<Longrightarrow> pipe_end fd' = pipe_end fd \<and> same_ends s s'"
proof (induction bs fd s arbitrary: r fd' s' rule: fd_write.induct)
  case (3 bytes start stop off s)
  then show ?case by (auto simp: memory_write_def same_ends_def Let_def split: if_splits)
next
  case (4 bytes v off s)
  then show ?case by (auto simp: vector_write_def same_ends_def)
next
  case (5 sz k d s)
  then show ?case by (auto simp: same_ends_def pipe_closed_ops(2) split: if_splits prod.splits)
qed (auto split: if_splits prod.splits)

section \<open>Sharing\<close>

text \<open>
  Every end of a pipe belongs to one descriptor object, and it is closed exactly when no table holds that object. The ends
  in \<open>X\<close> have no object yet.
\<close>

definition ends_known :: "fd_world \<Rightarrow> bool" where
  "ends_known w \<longleftrightarrow> (\<forall>k < length (w_objs w). \<forall>j d. pipe_end (w_objs w ! k) = Some (j, d) \<longrightarrow> j < length (fs_pipes (w_store w)))"

definition ends_unique :: "fd_world \<Rightarrow> bool" where
  "ends_unique w \<longleftrightarrow> (\<forall>k < length (w_objs w). \<forall>k' < length (w_objs w). \<forall>e.
     pipe_end (w_objs w ! k) = Some e \<and> pipe_end (w_objs w ! k') = Some e \<longrightarrow> k = k')"

definition tables_ok :: "fd_world \<Rightarrow> bool" where
  "tables_ok w \<longleftrightarrow> (\<forall>k. held w k \<longrightarrow> k < length (w_objs w)) \<and> (\<forall>t \<in> set (w_tables w). distinct (map fst t))"

definition end_held :: "fd_world \<Rightarrow> nat \<Rightarrow> Direction \<Rightarrow> bool" where
  "end_held w j d \<longleftrightarrow> (\<exists>k. held w k \<and> pipe_end (w_objs w ! k) = Some (j, d))"

definition ends_closed :: "(nat \<times> Direction) set \<Rightarrow> fd_world \<Rightarrow> bool" where
  "ends_closed X w \<longleftrightarrow> (\<forall>j < length (fs_pipes (w_store w)). \<forall>d. (j, d) \<notin> X \<longrightarrow>
     (pipe_closed d (fs_pipes (w_store w) ! j) \<longleftrightarrow> \<not> end_held w j d))"

definition ends_pending :: "(nat \<times> Direction) set \<Rightarrow> fd_world \<Rightarrow> bool" where
  "ends_pending X w \<longleftrightarrow> (\<forall>(j, d) \<in> X. j < length (fs_pipes (w_store w)) \<and> \<not> pipe_closed d (fs_pipes (w_store w) ! j) \<and>
     (\<forall>k < length (w_objs w). pipe_end (w_objs w ! k) \<noteq> Some (j, d)))"

definition fd_inv :: "(nat \<times> Direction) set \<Rightarrow> fd_world \<Rightarrow> bool" where
  "fd_inv X w \<longleftrightarrow> ends_known w \<and> ends_unique w \<and> tables_ok w \<and> ends_closed X w \<and> ends_pending X w"

lemma release_simps [simp]:
  "w_objs (release k w) = w_objs w" "w_tables (release k w) = w_tables w"
  "length (fs_pipes (w_store (release k w))) = length (fs_pipes (w_store w))" "held (release k w) = held w"
  by (auto simp: release_def close_object_end held_def fun_eq_iff split: option.split)

lemma release_closed:
  "j < length (fs_pipes (w_store w)) \<Longrightarrow>
   pipe_closed d (fs_pipes (w_store (release k w)) ! j) \<longleftrightarrow>
     pipe_closed d (fs_pipes (w_store w) ! j) \<or> (\<not> held w k \<and> pipe_end (w_objs w ! k) = Some (j, d))"
  by (auto simp: release_def close_object_end split: option.split if_splits)

lemma fold_release_simps [simp]:
  "w_objs (fold release ks w) = w_objs w" "w_tables (fold release ks w) = w_tables w"
  "length (fs_pipes (w_store (fold release ks w))) = length (fs_pipes (w_store w))" "held (fold release ks w) = held w"
  by (induction ks arbitrary: w) simp_all

lemma fold_release_closed:
  "j < length (fs_pipes (w_store w)) \<Longrightarrow>
   pipe_closed d (fs_pipes (w_store (fold release ks w)) ! j) \<longleftrightarrow>
     pipe_closed d (fs_pipes (w_store w) ! j) \<or> (\<exists>k \<in> set ks. \<not> held w k \<and> pipe_end (w_objs w ! k) = Some (j, d))"
  by (induction ks arbitrary: w) (auto simp: release_closed)

lemma held_known: "tables_ok w \<Longrightarrow> held w k \<Longrightarrow> k < length (w_objs w)"
  by (simp add: tables_ok_def)

text \<open>Tables let go of objects, and what is no longer held is released.\<close>

lemma drop_inv:
  assumes inv: "fd_inv {} w" and w1: "w_store w1 = w_store w" "w_objs w1 = w_objs w"
    and less: "\<And>k. held w1 k \<Longrightarrow> held w k" and ks: "\<And>k. held w k \<Longrightarrow> \<not> held w1 k \<Longrightarrow> k \<in> set ks"
    and kb: "\<And>k. k \<in> set ks \<Longrightarrow> held w k" and keys: "\<forall>t \<in> set (w_tables w1). distinct (map fst t)"
  shows "fd_inv {} (fold release ks w1)"
proof -
  have I: "ends_known w" "ends_unique w" "tables_ok w" "ends_closed {} w" using inv by (simp_all add: fd_inv_def)
  have "pipe_closed d (fs_pipes (w_store (fold release ks w1)) ! j) \<longleftrightarrow> \<not> end_held (fold release ks w1) j d"
    if j: "j < length (fs_pipes (w_store w))" for j d
  proof -
    have "pipe_closed d (fs_pipes (w_store w) ! j) \<longleftrightarrow> \<not> end_held w j d" using I(4) j by (simp add: ends_closed_def)
    moreover have "k = k'" if "held w k" "held w k'" "pipe_end (w_objs w ! k) = Some (j, d)" "pipe_end (w_objs w ! k') = Some (j, d)" for k k'
      using that I(2) held_known [OF I(3)] unfolding ends_unique_def by blast
    ultimately show ?thesis
      using fold_release_closed [of j w1 d ks] j w1 less ks kb unfolding end_held_def fold_release_simps by metis
  qed
  then have "ends_closed {} (fold release ks w1)" using w1 by (simp add: ends_closed_def)
  moreover have "tables_ok (fold release ks w1)" using less held_known [OF I(3)] keys w1 by (auto simp: tables_ok_def)
  ultimately show ?thesis
    using I(1,2) w1 by (simp add: fd_inv_def ends_pending_def ends_known_def ends_unique_def)
qed

section \<open>Operations\<close>

lemma held_nth: "held w k \<longleftrightarrow> (\<exists>q < length (w_tables w). k \<in> snd ` set (w_tables w ! q))"
  unfolding held_def by (metis in_set_conv_nth)

lemma held_update:
  "p < length (w_tables w) \<Longrightarrow> held (w\<lparr>w_tables := (w_tables w)[p := t]\<rparr>) k \<longleftrightarrow>
    k \<in> snd ` set t \<or> (\<exists>q < length (w_tables w). q \<noteq> p \<and> k \<in> snd ` set (w_tables w ! q))"
  unfolding held_nth by (auto split: if_splits)

lemma held_update_less:
  assumes p: "p < length (w_tables w)" and "held (w\<lparr>w_tables := (w_tables w)[p := t]\<rparr>) k"
    and "snd ` set t \<subseteq> snd ` set (w_tables w ! p)"
  shows "held w k"
  using assms(2,3) p unfolding held_update [OF p] unfolding held_nth by blast

lemma table_keys:
  "distinct (map fst t) \<Longrightarrow> distinct (map fst (table_erase n t))" "distinct (map fst t) \<Longrightarrow> distinct (map fst (table_put n k t))"
  by (auto simp: table_erase_def table_put_def distinct_map_filter)

lemma keys_update:
  assumes "tables_ok w" "distinct (map fst t)" shows "\<forall>u \<in> set ((w_tables w)[p := t]). distinct (map fst u)"
  using assms set_update_subset_insert [of "w_tables w" p t] by (auto simp: tables_ok_def)

lemma table_entry: "distinct (map fst t) \<Longrightarrow> map_of t n = Some k \<Longrightarrow> (n, k') \<in> set t \<Longrightarrow> k' = k"
  by (metis map_of_is_SomeI option.inject)

lemma close_inv:
  assumes inv: "fd_inv {} w" and p: "p < length (w_tables w)"
  shows "fd_inv {} (snd (remove_filedescriptor p n False w))"
proof (cases "get_filedescriptor p n w")
  case None
  then show ?thesis using inv by (simp add: remove_filedescriptor_def)
next
  case (Some k)
  let ?t = "w_tables w ! p"
  have ok: "tables_ok w" and d: "distinct (map fst ?t)" using inv p by (auto simp: fd_inv_def tables_ok_def)
  have k: "(n, k) \<in> set ?t" "\<And>k'. (n, k') \<in> set ?t \<Longrightarrow> k' = k"
    using Some table_entry [OF d] by (auto simp: get_filedescriptor_def map_of_SomeD)
  have hk: "held w k" using k(1) p unfolding held_nth by force
  let ?w1 = "w\<lparr>w_tables := (w_tables w)[p := table_erase n ?t]\<rparr>"
  have "fd_inv {} (fold release [k] ?w1)"
  proof (rule drop_inv [OF inv])
    show "held w x" if "held ?w1 x" for x by (rule held_update_less [OF p that]) (auto simp: table_erase_def)
    show "x \<in> set [k]" if hx: "held w x" and nx: "\<not> held ?w1 x" for x
    proof -
      obtain q where q: "q < length (w_tables w)" "x \<in> snd ` set (w_tables w ! q)" using hx unfolding held_nth by blast
      have "q = p" "x \<notin> snd ` set (table_erase n ?t)" using nx q unfolding held_update [OF p] by blast+
      then obtain m where "(m, x) \<in> set ?t" "m = n" using q by (auto simp: table_erase_def)
      then show ?thesis using k(2) by simp
    qed
    show "held w x" if "x \<in> set [k]" for x using that hk by simp
    show "\<forall>t \<in> set (w_tables ?w1). distinct (map fst t)" using keys_update [OF ok table_keys(1) [OF d]] by simp
  qed simp_all
  then show ?thesis using Some by (simp add: remove_filedescriptor_def)
qed

lemma exit_inv:
  assumes inv: "fd_inv {} w" and p: "p < length (w_tables w)"
  shows "fd_inv {} (close_all p w)"
  unfolding close_all_def
proof (rule drop_inv [OF inv])
  let ?w1 = "w\<lparr>w_tables := (w_tables w)[p := []]\<rparr>"
  have ok: "tables_ok w" using inv by (simp add: fd_inv_def)
  show "held w x" if "held ?w1 x" for x by (rule held_update_less [OF p that]) simp
  show "x \<in> set (map snd (w_tables w ! p))" if "held w x" "\<not> held ?w1 x" for x
    using that(1) that(2) [unfolded held_update [OF p]] unfolding held_nth by auto
  show "held w x" if "x \<in> set (map snd (w_tables w ! p))" for x using that p unfolding held_nth by auto
  show "\<forall>t \<in> set (w_tables ?w1). distinct (map fst t)" using keys_update [OF ok, of "[]" p] by simp
qed simp_all

lemma dup_inv:
  assumes inv: "fd_inv {} w" and p: "p < length (w_tables w)"
  shows "fd_inv {} (snd (duplicate p old_fd new_fd w))"
proof (cases "get_filedescriptor p old_fd w")
  case None
  then show ?thesis using inv by (simp add: duplicate_def)
next
  case (Some k)
  let ?t = "w_tables w ! p"
  have ok: "tables_ok w" and d: "distinct (map fst ?t)" using inv p by (auto simp: fd_inv_def tables_ok_def)
  have hk: "k \<in> snd ` set ?t" using Some by (force simp: get_filedescriptor_def dest: map_of_SomeD)
  let ?w1 = "w\<lparr>w_tables := (w_tables w)[p := table_put new_fd k ?t]\<rparr>"
  let ?ks = "case get_filedescriptor p new_fd w of None \<Rightarrow> [] | Some k1 \<Rightarrow> [k1]"
  have "fd_inv {} (fold release ?ks ?w1)"
  proof (rule drop_inv [OF inv])
    show "held w x" if "held ?w1 x" for x
      by (rule held_update_less [OF p that]) (use hk in \<open>auto simp: table_put_def\<close>)
    show "x \<in> set ?ks" if hx: "held w x" and nx: "\<not> held ?w1 x" for x
    proof -
      obtain q where q: "q < length (w_tables w)" "x \<in> snd ` set (w_tables w ! q)" using hx unfolding held_nth by blast
      have "q = p" "x \<notin> snd ` set (table_put new_fd k ?t)" using nx q unfolding held_update [OF p] by blast+
      then have "(new_fd, x) \<in> set ?t" using q by (force simp: table_put_def)
      then have "map_of ?t new_fd = Some x" using d by simp
      then show ?thesis by (simp add: get_filedescriptor_def)
    qed
    show "held w x" if "x \<in> set ?ks" for x
    proof -
      have "map_of ?t new_fd = Some x" using that by (simp add: get_filedescriptor_def split: option.splits)
      then have "(new_fd, x) \<in> set ?t" by (rule map_of_SomeD)
      then show ?thesis using p unfolding held_nth by force
    qed
    show "\<forall>t \<in> set (w_tables ?w1). distinct (map fst t)" using keys_update [OF ok table_keys(2) [OF d]] by simp
  qed simp_all
  then show ?thesis using Some by (simp add: duplicate_def split: option.splits)
qed

lemma fork_inv:
  assumes inv: "fd_inv X w" and p: "p < length (w_tables w)" shows "fd_inv X (fork_table p w)"
proof -
  have h: "held (fork_table p w) = held w" using nth_mem [OF p] by (auto simp: fun_eq_iff held_def fork_table_def)
  have "tables_ok (fork_table p w)"
    using inv h nth_mem [OF p] by (auto simp: fd_inv_def tables_ok_def) (auto simp: fork_table_def)
  then show ?thesis
    using inv h by (simp add: fd_inv_def ends_known_def ends_unique_def ends_closed_def ends_pending_def end_held_def) (simp add: fork_table_def)
qed

text \<open>A number that is not in use.\<close>

lemma allocate_fd_free:
  assumes "allocate_fd t \<noteq> INVALID_FD"
  shows "0 \<le> allocate_fd t \<and> allocate_fd t < int MAX_FD \<and> map_of t (allocate_fd t) = None \<and>
    (\<forall>i. 0 \<le> i \<and> i < allocate_fd t \<longrightarrow> map_of t i \<noteq> None)"
proof -
  obtain i where f: "find (\<lambda>i. map_of t (int i) = None) [0..<MAX_FD] = Some i" and a: "allocate_fd t = int i"
    using assms by (auto simp: allocate_fd_def split: option.splits)
  then have i: "i < MAX_FD" "map_of t (int i) = None" "\<forall>m < i. map_of t (int m) \<noteq> None"
    by (auto simp: find_Some_iff)
  have "map_of t j \<noteq> None" if "0 \<le> j" "j < int i" for j using i(3) that by (metis nat_less_iff nat_0_le)
  with i a show ?thesis by simp
qed

lemma put_held:
  assumes p: "p < length (w_tables w)" and n: "map_of (w_tables w ! p) n = None"
  shows "held (w\<lparr>w_tables := (w_tables w)[p := table_put n k (w_tables w ! p)]\<rparr>) x \<longleftrightarrow> x = k \<or> held w x"
proof -
  have "filter (\<lambda>e. fst e \<noteq> n) (w_tables w ! p) = w_tables w ! p"
    using n by (auto simp: filter_id_conv map_of_eq_None_iff)
  then show ?thesis unfolding held_update [OF p] held_nth [of w] table_put_def using p by auto
qed

lemma nth_snoc: "i < Suc (length xs) \<Longrightarrow> (xs @ [x]) ! i = (if i = length xs then x else xs ! i)"
  by (simp add: nth_append)

lemma push_inv:
  assumes inv: "fd_inv X w" and p: "p < length (w_tables w)" and f: "\<And>e. pipe_end f = Some e \<Longrightarrow> e \<in> X"
  shows "fd_inv (X - set_option (pipe_end f)) (snd (push_filedescriptor p (Some f) w))"
proof -
  have I: "ends_known w" "ends_unique w" "tables_ok w" "ends_closed X w" "ends_pending X w" using inv by (simp_all add: fd_inv_def)
  let ?k = "length (w_objs w)"
  let ?n = "allocate_fd (w_tables w ! p)"
  let ?w1 = "w\<lparr>w_objs := w_objs w @ [f]\<rparr>"
  let ?w2 = "?w1\<lparr>w_tables := (w_tables w)[p := table_put ?n ?k (w_tables w ! p)]\<rparr>"
  let ?w = "snd (push_filedescriptor p (Some f) w)"
  have h1: "held ?w1 = held w" by (simp add: fun_eq_iff held_def)
  have nk: "\<not> held w ?k" using held_known [OF I(3)] by blast
  have w: "?w = (if ?n = INVALID_FD then release ?k ?w1 else ?w2)" by (simp add: push_filedescriptor_def Let_def)
  have st: "w_objs ?w = w_objs w @ [f]" "length (fs_pipes (w_store ?w)) = length (fs_pipes (w_store w))" unfolding w by simp_all
  have hw: "held ?w x \<longleftrightarrow> held w x \<or> (x = ?k \<and> ?n \<noteq> INVALID_FD)" for x
    using put_held [of p ?w1 ?n ?k x] allocate_fd_free [of "w_tables w ! p"] p h1 unfolding w by auto
  have cl: "pipe_closed d (fs_pipes (w_store ?w) ! j) \<longleftrightarrow>
      pipe_closed d (fs_pipes (w_store w) ! j) \<or> (?n = INVALID_FD \<and> pipe_end f = Some (j, d))"
    if "j < length (fs_pipes (w_store w))" for j d
    using release_closed [of j ?w1 d ?k] that nk h1 unfolding w by simp
  have pend: "j < length (fs_pipes (w_store w)) \<and> \<not> pipe_closed d (fs_pipes (w_store w) ! j) \<and>
      (\<forall>k < ?k. pipe_end (w_objs w ! k) \<noteq> Some (j, d))" if "(j, d) \<in> X" for j d
    using I(5) that by (auto simp: ends_pending_def)
  have eh: "end_held ?w j d \<longleftrightarrow> end_held w j d \<or> (?n \<noteq> INVALID_FD \<and> pipe_end f = Some (j, d))" for j d
    unfolding end_held_def hw st using held_known [OF I(3)] nk by (auto simp: nth_append)
  have "ends_known ?w" unfolding ends_known_def st 
    using I(1) pend f unfolding ends_known_def by (auto simp: nth_append less_Suc_eq)
  moreover have "ends_unique ?w" unfolding ends_unique_def st
    using I(2) pend f by (auto simp: ends_unique_def nth_snoc)
  moreover have "tables_ok ?w"
  proof -
    have "distinct (map fst (w_tables w ! p))" using I(3) p by (auto simp: tables_ok_def)
    then have "\<forall>t \<in> set (w_tables ?w). distinct (map fst t)"
      using I(3) keys_update [OF I(3) table_keys(2)] unfolding w by (auto simp: tables_ok_def)
    then show ?thesis unfolding tables_ok_def hw st using held_known [OF I(3)] by (auto intro: less_SucI)
  qed
  moreover have "ends_closed (X - set_option (pipe_end f)) ?w"
  proof -
    have "pipe_closed d (fs_pipes (w_store ?w) ! j) \<longleftrightarrow> \<not> end_held ?w j d"
      if j: "j < length (fs_pipes (w_store w))" and x: "(j, d) \<notin> X - set_option (pipe_end f)" for j d
    proof (cases "pipe_end f = Some (j, d)")
      case True
      then have "\<not> pipe_closed d (fs_pipes (w_store w) ! j)" "\<not> end_held w j d"
        using pend f held_known [OF I(3)] by (auto simp: end_held_def)
      then show ?thesis using cl [OF j] eh True by simp
    next
      case False
      then have "(j, d) \<notin> X" using x by (cases "pipe_end f") auto
      then show ?thesis using I(4) j cl [OF j] eh False by (simp add: ends_closed_def)
    qed
    then show ?thesis unfolding ends_closed_def st by blast
  qed
  moreover have "ends_pending (X - set_option (pipe_end f)) ?w"
    unfolding ends_pending_def st using pend cl by (auto simp: nth_snoc split: if_splits)
  ultimately show ?thesis by (simp add: fd_inv_def)
qed

lemma push_pipes: "length (fs_pipes (w_store (snd (push_filedescriptor p fd w)))) = length (fs_pipes (w_store w))"
  by (simp add: push_filedescriptor_def Let_def split: option.split)

lemma pipe_inv_fd:
  assumes inv: "fd_inv {} w" and p: "p < length (w_tables w)"
  shows "fd_inv {} (snd (sys_pipe p w))"
proof -
  let ?j = "length (fs_pipes (w_store w))"
  let ?w1 = "w\<lparr>w_store := (w_store w)\<lparr>fs_pipes := fs_pipes (w_store w) @ [new_Pipe]\<rparr>\<rparr>"
  let ?X = "{(?j, DirRead), (?j, DirWrite)}"
  have I: "ends_known w" "ends_unique w" "tables_ok w" "ends_closed {} w" using inv by (simp_all add: fd_inv_def)
  have h: "held ?w1 = held w" by (simp add: fun_eq_iff held_def)
  have np: "\<not> pipe_closed d new_Pipe" for d by (cases d) (simp_all add: pipe_closed_def new_Pipe_def)
  have fresh: "k < length (w_objs w) \<Longrightarrow> pipe_end (w_objs w ! k) \<noteq> Some (?j, d)" for k d
    using I(1) unfolding ends_known_def by blast
  have "ends_closed ?X ?w1"
    unfolding ends_closed_def
  proof (intro allI impI)
    fix j d assume j: "j < length (fs_pipes (w_store ?w1))" "(j, d) \<notin> ?X"
    then have "j \<noteq> ?j" by (cases d) auto
    with j have j1: "j < ?j" by simp
    then show "pipe_closed d (fs_pipes (w_store ?w1) ! j) = (\<not> end_held ?w1 j d)"
      using I(4) h by (simp add: ends_closed_def end_held_def nth_append)
  qed
  moreover have "ends_known ?w1" using I(1) unfolding ends_known_def by (simp add: less_SucI)
  moreover have "ends_unique ?w1" "tables_ok ?w1" using I(2,3) h by (simp_all add: ends_unique_def tables_ok_def)
  moreover have "ends_pending ?X ?w1" using np fresh by (auto simp: ends_pending_def)
  ultimately have i1: "fd_inv ?X ?w1" by (simp add: fd_inv_def)
  let ?w2 = "snd (push_filedescriptor p (Some (PipeFileDescriptor ?j DirRead)) ?w1)"
  have i2: "fd_inv {(?j, DirWrite)} ?w2"
    using push_inv [OF i1, of p "PipeFileDescriptor ?j DirRead"] p by (simp add: insert_Diff_if)
  have "length (w_tables ?w2) = length (w_tables w)" by (simp add: push_filedescriptor_def Let_def)
  then have "fd_inv {} (snd (push_filedescriptor p (Some (PipeFileDescriptor ?j DirWrite)) ?w2))"
    using push_inv [OF i2, of p "PipeFileDescriptor ?j DirWrite"] p by simp
  then show ?thesis by (simp add: sys_pipe_def vfs_pushfd_def Let_def split_beta)
qed

text \<open>Descriptors and stores change without a change of ends.\<close>

lemma io_inv:
  assumes inv: "fd_inv X w" and k: "k < length (w_objs w)" and e: "pipe_end fd = pipe_end (w_objs w ! k)" "same_ends (w_store w) s"
  shows "fd_inv X (w\<lparr>w_objs := (w_objs w)[k := fd], w_store := s\<rparr>)"
proof -
  let ?w = "w\<lparr>w_objs := (w_objs w)[k := fd], w_store := s\<rparr>"
  have pe: "pipe_end (w_objs ?w ! i) = pipe_end (w_objs w ! i)" for i using e(1) k by simp
  have h: "held ?w = held w" by (simp add: fun_eq_iff held_def)
  have l: "length (w_objs ?w) = length (w_objs w)" "length (fs_pipes (w_store ?w)) = length (fs_pipes (w_store w))"
    "w_tables ?w = w_tables w" using e(2) by (simp_all add: same_ends_def)
  have c: "pipe_closed d (fs_pipes (w_store ?w) ! j) = pipe_closed d (fs_pipes (w_store w) ! j)"
    if "j < length (fs_pipes (w_store w))" for j d using e(2) that by (simp add: same_ends_def)
  have I: "ends_known w" "ends_unique w" "tables_ok w" "ends_closed X w" "ends_pending X w" using inv by (simp_all add: fd_inv_def)
  have "ends_known ?w" using I(1) unfolding ends_known_def pe l .
  moreover have "ends_unique ?w" using I(2) unfolding ends_unique_def pe l .
  moreover have "tables_ok ?w" using I(3) unfolding tables_ok_def h l .
  moreover have "ends_closed X ?w" using I(4) c unfolding ends_closed_def end_held_def pe h l by metis
  moreover have "ends_pending X ?w" using I(5) c unfolding ends_pending_def pe l by fast
  ultimately show ?thesis by (simp add: fd_inv_def)
qed

section \<open>Runs\<close>

inductive fd_runs :: "fd_world \<Rightarrow> bool" where
  start: "fs_pipes s = [] \<Longrightarrow> fd_runs \<lparr>w_store = s, w_objs = [], w_tables = [[]]\<rparr>"
| pipe: "fd_runs w \<Longrightarrow> p < length (w_tables w) \<Longrightarrow> fd_runs (snd (sys_pipe p w))"
| opened: "fd_runs w \<Longrightarrow> p < length (w_tables w) \<Longrightarrow> pipe_end fd = None \<Longrightarrow> fd_runs (snd (vfs_pushfd (Some p) (Some fd) w))"
| dup: "fd_runs w \<Longrightarrow> p < length (w_tables w) \<Longrightarrow> fd_runs (snd (vfs_dup (Some p) old_fd new_fd w))"
| closed: "fd_runs w \<Longrightarrow> p < length (w_tables w) \<Longrightarrow> fd_runs (snd (vfs_close (Some p) n w))"
| fork: "fd_runs w \<Longrightarrow> p < length (w_tables w) \<Longrightarrow> fd_runs (fork_table p w)"
| exited: "fd_runs w \<Longrightarrow> p < length (w_tables w) \<Longrightarrow> fd_runs (close_all p w)"
| reads: "fd_runs w \<Longrightarrow> p < length (w_tables w) \<Longrightarrow> vfs_read (Some p) n sz w = Inr (r, w') \<Longrightarrow> fd_runs w'"
| writes: "fd_runs w \<Longrightarrow> p < length (w_tables w) \<Longrightarrow> vfs_write (Some p) n bs w = (r, w') \<Longrightarrow> fd_runs w'"

lemma get_known: "tables_ok w \<Longrightarrow> p < length (w_tables w) \<Longrightarrow> get_filedescriptor p n w = Some k \<Longrightarrow> k < length (w_objs w)"
  by (rule held_known) (force simp: get_filedescriptor_def held_nth dest: map_of_SomeD)+

lemma fd_runs_inv: "fd_runs w \<Longrightarrow> fd_inv {} w"
proof (induction rule: fd_runs.induct)
  case (start s)
  then show ?case
    by (simp add: fd_inv_def ends_known_def ends_unique_def tables_ok_def ends_closed_def ends_pending_def held_def)
next
  case (pipe w p)
  then show ?case by (intro pipe_inv_fd) simp_all
next
  case (opened w p fd)
  then show ?case using push_inv [of "{}" w p fd] by (simp add: vfs_pushfd_def)
next
  case (dup w p old_fd new_fd)
  then show ?case using dup_inv [of w p old_fd new_fd] by (simp add: vfs_dup_def split_beta)
next
  case (closed w p n)
  then show ?case using close_inv by (simp add: vfs_close_def)
next
  case (fork w p)
  then show ?case by (intro fork_inv) simp_all
next
  case (exited w p)
  then show ?case by (intro exit_inv) simp_all
next
  case (reads w p n sz r w')
  show ?case
  proof (cases "get_filedescriptor p n w")
    case None
    then show ?thesis using reads by (simp add: vfs_read_def vfs_num_to_fd_def)
  next
    case (Some k)
    then obtain fd s where f: "fd_read sz (w_objs w ! k) (w_store w) = Inr (r, fd, s)"
      "w' = w\<lparr>w_objs := (w_objs w)[k := fd], w_store := s\<rparr>"
      using reads.hyps(3) by (auto simp: vfs_read_def vfs_num_to_fd_def rbind_Inr)
    then show ?thesis
      using io_inv [OF reads.IH, of k fd s] get_known [of w p n k] reads Some fd_read_ends [OF f(1)] by (simp add: fd_inv_def)
  qed
next
  case (writes w p n bs r w')
  show ?case
  proof (cases "get_filedescriptor p n w")
    case None
    then show ?thesis using writes by (simp add: vfs_write_def vfs_num_to_fd_def)
  next
    case (Some k)
    then obtain fd s where f: "fd_write bs (w_objs w ! k) (w_store w) = (r, fd, s)"
      "w' = w\<lparr>w_objs := (w_objs w)[k := fd], w_store := s\<rparr>"
      using writes.hyps(3) by (auto simp: vfs_write_def vfs_num_to_fd_def split: prod.splits)
    then show ?thesis
      using io_inv [OF writes.IH, of k fd s] get_known [of w p n k] writes Some fd_write_ends [OF f(1)] by (simp add: fd_inv_def)
  qed
qed

section \<open>Properties\<close>

text \<open>C31: descriptors keep the ends of pipes open exactly as long as they are shared. In every run of opening, reading,
  writing, duplicating and closing descriptors, forking and exiting, an end of a pipe is closed if and only if no number of
  any process refers to it.\<close>

theorem pipe_end_closed_iff_unreferenced:
  assumes "fd_runs w" "j < length (fs_pipes (w_store w))"
  shows "pipe_closed d (fs_pipes (w_store w) ! j) \<longleftrightarrow>
    \<not> (\<exists>p n k. p < length (w_tables w) \<and> get_filedescriptor p n w = Some k \<and> pipe_end (w_objs w ! k) = Some (j, d))"
proof -
  have inv: "fd_inv {} w" by (rule fd_runs_inv [OF assms(1)])
  have "held w k \<longleftrightarrow> (\<exists>p n. p < length (w_tables w) \<and> get_filedescriptor p n w = Some k)" for k
  proof
    assume "held w k"
    then obtain p n where p: "p < length (w_tables w)" "(n, k) \<in> set (w_tables w ! p)" unfolding held_nth by force
    then have "distinct (map fst (w_tables w ! p))" using inv by (auto simp: fd_inv_def tables_ok_def)
    then have "map_of (w_tables w ! p) n = Some k" using p(2) by (rule map_of_is_SomeI)
    with p show "\<exists>p n. p < length (w_tables w) \<and> get_filedescriptor p n w = Some k"
      unfolding get_filedescriptor_def by blast
  next
    assume "\<exists>p n. p < length (w_tables w) \<and> get_filedescriptor p n w = Some k"
    then show "held w k" unfolding held_nth get_filedescriptor_def by (force dest: map_of_SomeD)
  qed
  then have "end_held w j d \<longleftrightarrow>
      (\<exists>p n k. p < length (w_tables w) \<and> get_filedescriptor p n w = Some k \<and> pipe_end (w_objs w ! k) = Some (j, d))"
    unfolding end_held_def by blast
  moreover have "pipe_closed d (fs_pipes (w_store w) ! j) \<longleftrightarrow> \<not> end_held w j d"
    using inv assms(2) by (simp add: fd_inv_def ends_closed_def)
  ultimately show ?thesis by blast
qed

definition boot_world :: fd_world where
  "boot_world = \<lparr>w_store = \<lparr>fs_mem = \<lambda>_. 0, fs_vectors = [], fs_base = \<lambda>_. 0x80200000, fs_pipes = []\<rparr>, w_objs = [], w_tables = [[]]\<rparr>"

lemma boot_world_runs: "fd_runs boot_world"
  unfolding boot_world_def by (rule fd_runs.start) simp

lemma pipe_end_closed_iff_unreferenced_witness:
  "pipe_closed DirWrite (fs_pipes (w_store (snd (sys_pipe 0 boot_world))) ! 0) \<longleftrightarrow>
    \<not> (\<exists>p n k. p < length (w_tables (snd (sys_pipe 0 boot_world))) \<and> get_filedescriptor p n (snd (sys_pipe 0 boot_world)) = Some k \<and>
         pipe_end (w_objs (snd (sys_pipe 0 boot_world)) ! k) = Some (0, DirWrite))"
proof (rule pipe_end_closed_iff_unreferenced)
  show "fd_runs (snd (sys_pipe 0 boot_world))"
    by (rule fd_runs.pipe [OF boot_world_runs]) (simp add: boot_world_def)
  show "0 < length (fs_pipes (w_store (snd (sys_pipe 0 boot_world))))"
    by (simp add: sys_pipe_def vfs_pushfd_def push_pipes Let_def split_beta)
qed

text \<open>C32: a new descriptor gets the smallest number that is not in use, below \<open>MAX_FD\<close>; it can be found under that number
  and no other number of any process changes its meaning. Only a full table refuses it.\<close>

theorem push_lowest_number:
  assumes "p < length (w_tables w)" "push_filedescriptor p (Some fd) w = (n, w')"
  shows "if n = INVALID_FD then (\<forall>i < MAX_FD. get_filedescriptor p (int i) w \<noteq> None) \<and> w_tables w' = w_tables w
    else 0 \<le> n \<and> n < int MAX_FD \<and> get_filedescriptor p n w = None \<and>
         (\<forall>i. 0 \<le> i \<and> i < n \<longrightarrow> get_filedescriptor p i w \<noteq> None) \<and>
         get_filedescriptor p n w' = Some (length (w_objs w)) \<and> w_objs w' = w_objs w @ [fd] \<and>
         (\<forall>q m. (q, m) \<noteq> (p, n) \<longrightarrow> get_filedescriptor q m w' = get_filedescriptor q m w)"
proof (cases "n = INVALID_FD")
  case True
  have a: "allocate_fd (w_tables w ! p) = INVALID_FD"
    using assms(2) True by (auto simp: push_filedescriptor_def Let_def split: if_splits)
  then have "find (\<lambda>i. map_of (w_tables w ! p) (int i) = None) [0..<MAX_FD] = None"
    by (auto simp: allocate_fd_def INVALID_FD_def split: option.splits)
  then show ?thesis using True assms(2) a by (auto simp: find_None_iff get_filedescriptor_def push_filedescriptor_def Let_def)
next
  case False
  have n: "n = allocate_fd (w_tables w ! p)" "w_objs w' = w_objs w @ [fd]"
    "w_tables w' = (w_tables w)[p := table_put n (length (w_objs w)) (w_tables w ! p)]"
    using assms(2) False by (auto simp: push_filedescriptor_def Let_def split: if_splits)
  have "map_of (table_put n k t) m = (if m = n then Some k else map_of t m)" for k t m
    by (auto simp: table_put_def) (induction t, auto)
  then show ?thesis
    using False allocate_fd_free [of "w_tables w ! p"] n assms(1) by (auto simp: get_filedescriptor_def)
qed

lemma push_lowest_number_witness:
  "\<exists>n w'. push_filedescriptor 0 (Some InvalidFileDescriptor) boot_world = (n, w') \<and>
    (if n = INVALID_FD then (\<forall>i < MAX_FD. get_filedescriptor 0 (int i) boot_world \<noteq> None) \<and> w_tables w' = w_tables boot_world
     else 0 \<le> n \<and> n < int MAX_FD \<and> get_filedescriptor 0 n boot_world = None \<and>
          (\<forall>i. 0 \<le> i \<and> i < n \<longrightarrow> get_filedescriptor 0 i boot_world \<noteq> None) \<and>
          get_filedescriptor 0 n w' = Some (length (w_objs boot_world)) \<and> w_objs w' = w_objs boot_world @ [InvalidFileDescriptor] \<and>
          (\<forall>q m. (q, m) \<noteq> (0, n) \<longrightarrow> get_filedescriptor q m w' = get_filedescriptor q m boot_world))"
proof -
  obtain n w' where r: "push_filedescriptor 0 (Some InvalidFileDescriptor) boot_world = (n, w')" by fastforce
  from push_lowest_number [OF _ r] r show ?thesis by (simp add: boot_world_def)
qed

text \<open>Writing a file, one piece after the other.\<close>

fun fd_writes :: "u8 list list \<Rightarrow> FileDescriptor \<Rightarrow> fd_store \<Rightarrow> FileDescriptor \<times> fd_store" where
  "fd_writes [] fd s = (fd, s)"
| "fd_writes (b # bs) fd s = (case fd_write b fd s of (r, fd1, s1) \<Rightarrow> fd_writes bs fd1 s1)"

lemma fd_writes_vector:
  "v < length (fs_vectors s) \<Longrightarrow>
   fs_vectors (snd (fd_writes bss (AccessControlledFileDescriptor (VectorBackedFileDescriptor v off) r True) s)) =
     (fs_vectors s)[v := fs_vectors s ! v @ concat bss]"
proof (induction bss arbitrary: s off)
  case (Cons b bss)
  then show ?case by (simp add: vector_write_def)
qed simp

text \<open>C33: what is written to a file is appended to it, and is what a reader gets. After any writes through a writable
  descriptor, a read through a fresh readable one returns the old contents followed by the pieces in order, cut to the size
  asked for, and moves the offset past what it returned.\<close>

theorem file_write_read:
  assumes v: "v < length (fs_vectors s)" and sz: "length (fs_vectors s ! v @ concat bss) < 2 ^ 31"
  shows "let s' = snd (fd_writes bss (AccessControlledFileDescriptor (VectorBackedFileDescriptor v off) r True) s);
             out = take (unat n) (fs_vectors s ! v @ concat bss)
         in fd_read n (AccessControlledFileDescriptor (VectorBackedFileDescriptor v 0) True w) s' =
              Inr (Ret (int (length out)) out, AccessControlledFileDescriptor (VectorBackedFileDescriptor v (of_nat (length out))) True w, s')"
proof -
  define dd where "dd = fs_vectors s ! v @ concat bss"
  define s' where "s' = snd (fd_writes bss (AccessControlledFileDescriptor (VectorBackedFileDescriptor v off) r True) s)"
  define out where "out = take (unat n) dd"
  let ?n = "of_nat (length dd) :: u32"
  let ?len = "min n ?n"
  have d: "fs_vectors s' ! v = dd" using fd_writes_vector [OF v] v by (simp add: s'_def dd_def)
  have sz1: "length dd < 2 ^ 31" using sz by (simp only: dd_def)
  have n: "unat ?n = length dd" using sz1 by (simp add: unsigned_of_nat take_bit_nat_eq_self)
  have un: "unat ?len = min (unat n) (length dd)" using n by (simp add: min_def word_le_nat_alt)
  have out: "length out = unat ?len" unfolding un out_def by simp
  have si: "sint ?len = int (length out)" unfolding out by (rule sint_small) (use un sz1 in simp)
  have "vector_read n v 0 s' = Inr (Ret (int (length out)) out, of_nat (length out))"
  proof (cases "?len = 0")
    case True
    then have "unat ?len = 0" by simp
    then have "out = []" using out by simp
    then show ?thesis using True d by (simp add: vector_read_def vec_size_left_def)
  next
    case False
    have t: "take (unat ?len) dd = out" unfolding out_def un by (simp add: min_def)
    have w: "of_nat (length out) = ?len" unfolding out by simp
    have l: "\<not> length dd < unat ?len" using un by simp
    show ?thesis using False unfolding vector_read_def vec_size_left_def d Let_def diff_zero
      by (simp only: if_False l t w si unsigned_0 add_0 drop_0)
  qed
  then show ?thesis unfolding s'_def [symmetric] dd_def [symmetric] out_def [symmetric] Let_def by simp
qed

lemma file_write_read_witness:
  "let s0 = \<lparr>fs_mem = \<lambda>_. 0, fs_vectors = [[1, 2]], fs_base = \<lambda>_. 0x80200000, fs_pipes = []\<rparr>;
       s' = snd (fd_writes [[3], [4, 5]] (AccessControlledFileDescriptor (VectorBackedFileDescriptor 0 0) False True) s0);
       out = take (unat (4 :: u32)) ([1, 2] @ concat [[3], [4, 5]])
   in fd_read 4 (AccessControlledFileDescriptor (VectorBackedFileDescriptor 0 0) True False) s' =
        Inr (Ret (int (length out)) out, AccessControlledFileDescriptor (VectorBackedFileDescriptor 0 (of_nat (length out))) True False, s')"
  using file_write_read [of 0 "\<lparr>fs_mem = \<lambda>_. 0, fs_vectors = [[1, 2]], fs_base = \<lambda>_. 0x80200000, fs_pipes = []\<rparr>" "[[3], [4, 5]]" 0 False 4 False]
  by (simp add: Let_def)

text \<open>The test of \<open>seek\<close> for a vector at the physical address \<open>x\<close>, in the first segment of the kernel. The end of the vector
  is taken for its length, and the sum of the two addresses wraps around to \<open>2 * x\<close> plus the size.\<close>

lemma seek_test:
  assumes "2 * unat x + n < 2 ^ 31" "unat whr < 2 ^ 31"
  shows "pointer_is_in_range whr (0x80000000 + x) (0x80000000 + x + of_nat n) \<longleftrightarrow> unat whr < 2 * unat x + n"
proof -
  let ?e = "x + x + of_nat n :: u32"
  have e: "0x80000000 + x + (0x80000000 + x + of_nat n) = ?e"
  proof -
    have "(0x80000000 :: u32) + 0x80000000 = 0" by simp
    then show ?thesis by (simp add: algebra_simps)
  qed
  have "unat ?e = 2 * unat x + n"
    using assms(1) by (simp add: unat_word_ariths unsigned_of_nat take_bit_nat_eq_self)
  then have s: "sint ?e = int (2 * unat x + n)" using sint_small [of ?e] assms(1) by simp
  have b: "unat (0x80000000 + x) = 0x80000000 + unat x" using assms(1) by (simp add: unat_word_ariths)
  have "sint (0x80000000 + x) < 0"
  proof (rule ccontr)
    assume "\<not> sint (0x80000000 + x) < 0"
    then have "take_bit 32 (sint (0x80000000 + x)) = sint (0x80000000 + x)"
      using sint_lt [of "0x80000000 + x"] by (simp add: take_bit_int_eq_self)
    then have "uint (0x80000000 + x) < 2 ^ 31" using sint_lt [of "0x80000000 + x"] uint_sint [of "0x80000000 + x"] by simp
    then have "nat (uint (0x80000000 + x)) < 0x80000000" by (subst nat_less_iff) simp_all
    then show False using b unat_eq_nat_uint [of "0x80000000 + x"] by linarith
  qed
  then show ?thesis using sint_small [OF assms(2)] s unfolding pointer_is_in_range_def e by linarith
qed

text \<open>C34: for a file whose bytes lie at the physical address \<open>x\<close> in the first segment of the kernel, seeking to a position is accepted exactly
  when it is below \<open>2 * x\<close> plus the size of the file, because the position is compared with the addresses of the bytes
  and not with their number. A read of at least one byte at any position past the end then copies from outside of the vector.\<close>

theorem seek_past_end_overreads:
  assumes b: "fs_base s v = 0x80000000 + x" and n: "2 * unat x + length (fs_vectors s ! v) < 2 ^ 31"
    and w: "unat whr < 2 ^ 31" and sz: "0 < sz"
  shows "fd_seek whr SEEK_SET (VectorBackedFileDescriptor v off) s =
           (if unat whr < 2 * unat x + length (fs_vectors s ! v) then (int (unat whr), VectorBackedFileDescriptor v whr)
            else (-1, VectorBackedFileDescriptor v off)) \<and>
         (length (fs_vectors s ! v) < unat whr \<longrightarrow>
           fd_read sz (VectorBackedFileDescriptor v whr) s = Inl (Undefined ''memcpy from outside of the vector''))"
proof (intro conjI impI)
  show "fd_seek whr SEEK_SET (VectorBackedFileDescriptor v off) s =
           (if unat whr < 2 * unat x + length (fs_vectors s ! v) then (int (unat whr), VectorBackedFileDescriptor v whr)
            else (-1, VectorBackedFileDescriptor v off))"
    using seek_test [OF n w] sint_small [OF w] b by (simp add: vector_seek_def Let_def)
  let ?n = "of_nat (length (fs_vectors s ! v)) :: u32"
  assume past: "length (fs_vectors s ! v) < unat whr"
  have "unat ?n = length (fs_vectors s ! v)" using n by (simp add: unsigned_of_nat take_bit_nat_eq_self)
  then have "?n \<noteq> whr" using past by auto
  then have left: "?n - whr \<noteq> 0" by simp
  then have len: "min sz (vec_size_left (fs_vectors s ! v) whr) \<noteq> 0" using sz by (auto simp: vec_size_left_def min_def)
  then have "length (fs_vectors s ! v) < unat whr + unat (min sz (vec_size_left (fs_vectors s ! v) whr))" using past by simp
  then show "fd_read sz (VectorBackedFileDescriptor v whr) s = Inl (Undefined ''memcpy from outside of the vector'')"
    using len by (simp add: vector_read_def)
qed

lemma seek_past_end_overreads_witness:
  "let s = \<lparr>fs_mem = \<lambda>_. 0, fs_vectors = [[1, 2]], fs_base = \<lambda>_. 0x80200000, fs_pipes = []\<rparr>
   in fd_seek 100 SEEK_SET (VectorBackedFileDescriptor 0 0) s = (100, VectorBackedFileDescriptor 0 100) \<and>
      fd_read 1 (VectorBackedFileDescriptor 0 100) s = Inl (Undefined ''memcpy from outside of the vector'')"
  using seek_past_end_overreads [where s = "\<lparr>fs_mem = \<lambda>_. 0, fs_vectors = [[1, 2]], fs_base = \<lambda>_. 0x80200000, fs_pipes = []\<rparr>"
      and v = 0 and x = "0x200000" and whr = 100 and sz = 1 and off = 0]
  by (simp del: fd_seek.simps fd_read.simps)

end
