(* ===== verification/Path.thy ===== *)
theory Path
  imports Gz_Prelude
begin

text \<open>
  Path strings, src/kernel/lib/kernel/vfs/Path.h. A path object is its string; the operations that change the object are
  functions from the old string to the new one.
\<close>

section \<open>Operations\<close>

definition separator :: char where
  "separator = CHR ''/''"

definition is_absolute :: "string \<Rightarrow> bool" where
  "is_absolute path = (path \<noteq> [] \<and> path ! 0 = separator)"

definition trailing_slash :: "string \<Rightarrow> bool" where
  "trailing_slash path = (path \<noteq> [] \<and> path ! (length path - 1) = separator)"

text \<open>The segments an input stream iterator reads with \<open>std::getline\<close>: it ends when no character is left.\<close>

function getlines :: "string \<Rightarrow> string list" where
  "getlines [] = []"
| "getlines (c # cs) =
     takeWhile (\<lambda>x. x \<noteq> separator) (c # cs) # getlines (drop 1 (dropWhile (\<lambda>x. x \<noteq> separator) (c # cs)))"
  by pat_completeness auto
termination
proof (relation "measure length")
  fix c :: char and cs
  have "length (drop 1 (dropWhile (\<lambda>x. x \<noteq> separator) (c # cs))) \<le> length cs"
    using length_dropWhile_le [of "\<lambda>x. x \<noteq> separator" "c # cs"] by simp
  then show "(drop 1 (dropWhile (\<lambda>x. x \<noteq> separator) (c # cs)), c # cs) \<in> measure length" by simp
qed simp

definition path_split :: "string \<Rightarrow> string list" where
  "path_split path = getlines path @ (if trailing_slash path then [[]] else [])"

fun path_join :: "string list \<Rightarrow> string" where
  "path_join [] = []"
| "path_join [s] = s"
| "path_join (s # t # ss) = s @ [separator] @ path_join (t # ss)"

fun rfind :: "char \<Rightarrow> string \<Rightarrow> nat option" where
  "rfind c [] = None"
| "rfind c (x # xs) =
     (case rfind c xs of Some i \<Rightarrow> Some (Suc i) | None \<Rightarrow> if x = c then Some 0 else None)"

definition path_filename :: "string \<Rightarrow> string" where
  "path_filename path = (case rfind separator path of Some pos \<Rightarrow> drop (pos + 1) path | None \<Rightarrow> path)"

definition path_extension :: "string \<Rightarrow> string" where
  "path_extension path =
     (let name = path_filename path
      in case rfind (CHR ''.'') name of Some pos \<Rightarrow> drop (pos + 1) name | None \<Rightarrow> [])"

definition path_stem :: "string \<Rightarrow> string" where
  "path_stem path =
     (case rfind (CHR ''.'') path of
        None \<Rightarrow> path
      | Some dot_pos \<Rightarrow>
          (case rfind separator path of
             None \<Rightarrow> take dot_pos path
           | Some sep_pos \<Rightarrow> if sep_pos < dot_pos then take dot_pos path else path))"

definition path_trim :: "string \<Rightarrow> string" where
  "path_trim path = rev (dropWhile (\<lambda>x. x = separator) (rev path))"

definition path_directory :: "string \<Rightarrow> string" where
  "path_directory path = path_trim path @ [separator]"

definition path_append :: "string \<Rightarrow> string \<Rightarrow> string" where
  "path_append path segment = (if \<not> trailing_slash path then path @ [separator] else path) @ segment"

definition path_relative :: "string \<Rightarrow> string \<Rightarrow> string" where
  "path_relative path rel = (if \<not> is_absolute rel then path_append path rel else rel)"

definition prune_step :: "bool \<Rightarrow> string list \<Rightarrow> string \<Rightarrow> string list" where
  "prune_step relative pruned segment =
     (if segment = [] \<or> segment = ''.'' then pruned
      else if segment = ''..'' then
        (if relative then (if pruned \<noteq> [] \<and> last pruned \<noteq> ''..'' then butlast pruned else pruned @ [segment])
         else if pruned \<noteq> [] then butlast pruned else pruned)
      else pruned @ [segment])"

definition path_sanitize :: "string \<Rightarrow> string" where
  "path_sanitize path =
     (let relative = (\<not> is_absolute path);
          pruned = foldl (prune_step relative) [] (path_split path);
          was_directory = trailing_slash path
      in if \<not> relative then
           (let path1 = [separator] @ path_join pruned in if was_directory then path_directory path1 else path1)
         else
           (let path1 = path_join pruned in if path1 \<noteq> [] \<and> was_directory then path_directory path1 else path1))"

definition path_up :: "string \<Rightarrow> string" where
  "path_up path =
     (if path = [] then path_directory ''..''
      else let path1 = path_sanitize (path_append path ''..'') in if path1 = [] then path1 else path_directory path1)"

definition path_equivalent :: "string \<Rightarrow> string \<Rightarrow> bool" where
  "path_equivalent path other = (path_sanitize path = path_sanitize other)"

section \<open>Segments\<close>

definition seg_free :: "string \<Rightarrow> bool" where
  "seg_free s \<longleftrightarrow> separator \<notin> set s"

definition proper :: "string \<Rightarrow> bool" where
  "proper s \<longleftrightarrow> s \<noteq> [] \<and> seg_free s \<and> s \<noteq> ''.'' \<and> s \<noteq> ''..''"

lemma getlines_free: "s \<in> set (getlines p) \<Longrightarrow> seg_free s"
  by (induction p rule: getlines.induct) (auto simp: seg_free_def dest: set_takeWhileD)

lemma split_free: "s \<in> set (path_split p) \<Longrightarrow> seg_free s"
  using getlines_free by (auto simp: path_split_def seg_free_def split: if_splits)

lemma takeWhile_seg: "seg_free s \<Longrightarrow> takeWhile (\<lambda>x. x \<noteq> separator) (s @ separator # p) = s"
  by (induction s) (auto simp: seg_free_def)

lemma dropWhile_seg: "seg_free s \<Longrightarrow> dropWhile (\<lambda>x. x \<noteq> separator) (s @ separator # p) = separator # p"
  by (induction s) (auto simp: seg_free_def)

lemma getlines_cons: "seg_free s \<Longrightarrow> getlines (s @ separator # p) = s # getlines p"
  using takeWhile_seg [of s p] dropWhile_seg [of s p] by (cases s) auto

lemma getlines_last:
  assumes "seg_free s" "s \<noteq> []" shows "getlines s = [s]"
proof -
  have "takeWhile (\<lambda>x. x \<noteq> separator) s = s" "dropWhile (\<lambda>x. x \<noteq> separator) s = []"
    using assms(1) by (auto simp: seg_free_def takeWhile_eq_all_conv dropWhile_eq_Nil_conv)
  with assms(2) show ?thesis by (cases s) auto
qed

text \<open>The segments of joined segments, with or without a slash at the end.\<close>

lemma getlines_join:
  assumes "\<forall>s \<in> set ss. seg_free s \<and> s \<noteq> []"
  shows "getlines (path_join ss) = ss" "ss \<noteq> [] \<Longrightarrow> getlines (path_join ss @ [separator]) = ss"
  using assms
proof (induction ss rule: path_join.induct)
  case (2 s)
  { case 1 then show ?case using getlines_last by simp }
  { case 2 then show ?case using getlines_cons [of s "[]"] by simp }
next
  case (3 s t ss)
  { case 1 then show ?case using 3(1) getlines_cons [of s "path_join (t # ss)"] by simp }
  { case 2 then show ?case using 3(2) getlines_cons [of s "path_join (t # ss) @ [separator]"] by simp }
qed simp_all

lemma trailing_last: "trailing_slash p \<longleftrightarrow> p \<noteq> [] \<and> last p = separator"
  by (auto simp: trailing_slash_def last_conv_nth)

lemma join_last: "\<forall>s \<in> set ss. seg_free s \<and> s \<noteq> [] \<Longrightarrow> ss \<noteq> [] \<Longrightarrow> path_join ss \<noteq> [] \<and> last (path_join ss) \<noteq> separator"
  by (induction ss rule: path_join.induct) (auto simp: seg_free_def dest: last_in_set)

lemma join_first: "\<forall>s \<in> set ss. seg_free s \<and> s \<noteq> [] \<Longrightarrow> \<not> is_absolute (path_join ss)"
proof -
  have h: "seg_free s \<Longrightarrow> s \<noteq> [] \<Longrightarrow> (s @ p) ! 0 \<noteq> separator" for s p :: string
    by (cases s) (auto simp: seg_free_def)
  assume "\<forall>s \<in> set ss. seg_free s \<and> s \<noteq> []"
  then show ?thesis using h [of "hd ss" "[]"] h [of "hd ss" "[separator] @ path_join (tl ss)"]
    by (induction ss rule: path_join.induct) (simp_all add: is_absolute_def)
qed

lemma trim_id: "p \<noteq> [] \<Longrightarrow> last p \<noteq> separator \<Longrightarrow> path_trim p = p"
  by (cases p rule: rev_cases) (auto simp: path_trim_def)

lemma trim_slash [simp]: "path_trim (p @ [separator]) = path_trim p"
  by (simp add: path_trim_def)

lemma trim_Nil [simp]: "path_trim [] = []"
  by (simp add: path_trim_def)

section \<open>Normal forms\<close>

text \<open>What pruning leaves: names, after leading \<open>..\<close> when the path is relative.\<close>

definition normal :: "bool \<Rightarrow> string list \<Rightarrow> bool" where
  "normal relative ss \<longleftrightarrow> (\<exists>k ns. ss = replicate k ''..'' @ ns \<and> (\<forall>n \<in> set ns. proper n) \<and> (relative \<or> k = 0))"

lemma normal_names: "normal r ss \<Longrightarrow> \<forall>s \<in> set ss. seg_free s \<and> s \<noteq> []"
proof
  fix s assume "normal r ss" "s \<in> set ss"
  then consider "s = ''..''" | "proper s" by (auto simp: normal_def split: if_splits)
  then show "seg_free s \<and> s \<noteq> []" by cases (simp_all add: proper_def seg_free_def separator_def)
qed

lemma normal_snoc: "normal r ss \<Longrightarrow> proper n \<Longrightarrow> normal r (ss @ [n])"
proof -
  assume n: "proper n" and "normal r ss"
  then obtain k ns where "ss = replicate k ''..'' @ ns" "\<forall>n \<in> set ns. proper n" "r \<or> k = 0" by (auto simp: normal_def)
  with n show ?thesis unfolding normal_def by (intro exI [of _ k] exI [of _ "ns @ [n]"]) auto
qed

lemma normal_butlast: "normal r ss \<Longrightarrow> normal r (butlast ss)"
proof -
  assume "normal r ss"
  then obtain k ns where s: "ss = replicate k ''..'' @ ns" "\<forall>n \<in> set ns. proper n" "r \<or> k = 0" by (auto simp: normal_def)
  show ?thesis
  proof (cases "ns = []")
    case True
    have "butlast (replicate k x) = replicate (k - 1) x" for x :: string
    proof (cases k)
      case (Suc j)
      then have "replicate k x = replicate j x @ [x]" by (simp add: replicate_append_same)
      then show ?thesis using Suc by simp
    qed simp
    then show ?thesis using s True unfolding normal_def by (intro exI [of _ "k - 1"] exI [of _ "[]"]) auto
  next
    case False
    then show ?thesis using s unfolding normal_def
      by (intro exI [of _ k] exI [of _ "butlast ns"]) (auto simp: butlast_append dest: in_set_butlastD)
  qed
qed

lemma normal_up:
  assumes "normal True ss" "ss = [] \<or> last ss = ''..''" shows "normal True (ss @ [''..''])"
proof -
  obtain k ns where s: "ss = replicate k ''..'' @ ns" "\<forall>n \<in> set ns. proper n" using assms(1) by (auto simp: normal_def)
  have "ns = []" using s assms(2) by (cases ns rule: rev_cases) (auto simp: proper_def)
  with s show ?thesis unfolding normal_def
    by (intro exI [of _ "Suc k"] exI [of _ "[]"]) (simp add: replicate_append_same)
qed

lemma prune_step_normal: "normal r ss \<Longrightarrow> seg_free s \<Longrightarrow> normal r (prune_step r ss s)"
  using normal_butlast normal_snoc [of r ss s] normal_up [of ss]
  by (auto simp: prune_step_def proper_def)

lemma prune_normal: "normal r ss \<Longrightarrow> \<forall>s \<in> set segs. seg_free s \<Longrightarrow> normal r (foldl (prune_step r) ss segs)"
  by (induction segs arbitrary: ss) (auto simp: prune_step_normal)

lemma normal_Nil [simp]: "normal r []"
  by (auto simp: normal_def)

lemma prune_names: "\<forall>n \<in> set ns. proper n \<Longrightarrow> foldl (prune_step r) ss ns = ss @ ns"
  by (induction ns arbitrary: ss) (auto simp: prune_step_def proper_def)

lemma prune_ups: "foldl (prune_step True) (replicate j ''..'') (replicate k ''..'') = replicate (j + k) ''..''"
proof (induction k arbitrary: j)
  case (Suc k)
  have "prune_step True (replicate j ''..'') ''..'' = replicate (Suc j) ''..''"
    by (cases j) (auto simp: prune_step_def replicate_append_same)
  then show ?case using Suc [of "Suc j"] by simp
qed simp

lemma prune_id: "normal r ss \<Longrightarrow> foldl (prune_step r) [] ss = ss"
proof -
  assume "normal r ss"
  then obtain k ns where s: "ss = replicate k ''..'' @ ns" "\<forall>n \<in> set ns. proper n" "r \<or> k = 0" by (auto simp: normal_def)
  then show ?thesis using prune_names [OF s(2), of r] prune_ups [of 0 k] by (cases r) auto
qed

lemma prune_empty: "foldl (prune_step r) ss segs = foldl (prune_step r) ss (filter (\<lambda>s. s \<noteq> []) segs)"
  by (induction segs arbitrary: ss) (auto simp: prune_step_def)

text \<open>The path that is written for normal segments.\<close>

definition render :: "bool \<Rightarrow> bool \<Rightarrow> string list \<Rightarrow> string" where
  "render relative was_directory ss =
     (if ss = [] then (if relative then [] else [separator])
      else (if relative then [] else [separator]) @ path_join ss @ (if was_directory then [separator] else []))"

lemma sanitize_render:
  "path_sanitize p =
     render (\<not> is_absolute p) (trailing_slash p) (foldl (prune_step (\<not> is_absolute p)) [] (path_split p)) \<and>
   normal (\<not> is_absolute p) (foldl (prune_step (\<not> is_absolute p)) [] (path_split p))"
proof -
  let ?ss = "foldl (prune_step (\<not> is_absolute p)) [] (path_split p)"
  have n: "normal (\<not> is_absolute p) ?ss" by (rule prune_normal) (use split_free in auto)
  have j: "?ss \<noteq> [] \<Longrightarrow> path_join ?ss \<noteq> [] \<and> last (path_join ?ss) \<noteq> separator" by (rule join_last [OF normal_names [OF n]])
  then have "?ss \<noteq> [] \<Longrightarrow> path_trim ([separator] @ path_join ?ss) = [separator] @ path_join ?ss"
    "?ss \<noteq> [] \<Longrightarrow> path_trim (path_join ?ss) = path_join ?ss"
    by (intro trim_id; simp)+
  moreover have "path_trim [separator] = []" using trim_slash [of "[]"] by simp
  ultimately show ?thesis using n j
    by (cases "is_absolute p"; cases "?ss = []") (simp_all add: path_sanitize_def Let_def render_def path_directory_def)
qed

lemma render_facts:
  assumes n: "normal r ss" and e: "\<not> (r \<and> ss = [])"
  shows "is_absolute (render r d ss) \<longleftrightarrow> \<not> r" "filter (\<lambda>s. s \<noteq> []) (path_split (render r d ss)) = ss"
    "trailing_slash (render r d ss) \<longleftrightarrow> (d \<or> ss = [])"
proof -
  have ns: "\<forall>s \<in> set ss. seg_free s \<and> s \<noteq> []" by (rule normal_names [OF n])
  have f: "filter (\<lambda>s. s \<noteq> []) ss = ss" using ns by (simp add: filter_id_conv)
  have j: "ss \<noteq> [] \<Longrightarrow> path_join ss \<noteq> [] \<and> last (path_join ss) \<noteq> separator" by (rule join_last [OF ns])
  have g: "getlines (path_join ss) = ss" "ss \<noteq> [] \<Longrightarrow> getlines (path_join ss @ [separator]) = ss"
    using getlines_join [OF ns] by simp_all
  have a: "getlines (separator # p) = [] # getlines p" for p using getlines_cons [of "[]" p] by (simp add: seg_free_def)
  show "trailing_slash (render r d ss) \<longleftrightarrow> (d \<or> ss = [])" using e j by (auto simp: render_def trailing_last)
  show "filter (\<lambda>s. s \<noteq> []) (path_split (render r d ss)) = ss"
    using e f g by (auto simp: render_def path_split_def a)
  show "is_absolute (render r d ss) \<longleftrightarrow> \<not> r"
    using join_first [OF ns] e j by (auto simp: render_def is_absolute_def nth_append)
qed

lemma split_render:
  assumes n: "normal r ss" and e: "\<not> (r \<and> ss = [])"
  shows "path_split (render r d ss) =
           (if ss = [] then (if r then [] else [[], []])
            else (if r then [] else [[]]) @ ss @ (if d then [[]] else []))"
proof -
  have ns: "\<forall>s \<in> set ss. seg_free s \<and> s \<noteq> []" by (rule normal_names [OF n])
  have g: "getlines (path_join ss) = ss" "ss \<noteq> [] \<Longrightarrow> getlines (path_join ss @ [separator]) = ss"
    using getlines_join [OF ns] by simp_all
  have a: "getlines (separator # p) = [] # getlines p" for p using getlines_cons [of "[]" p] by (simp add: seg_free_def)
  show ?thesis using e g render_facts(3) [OF n e, of d] by (auto simp: path_split_def render_def a)
qed

lemma sanitize_normal:
  assumes n: "normal r ss" and e: "\<not> (r \<and> ss = [])"
  shows "path_sanitize (render r d ss) = render r d ss"
proof -
  note f = render_facts [OF n e, of d]
  have "foldl (prune_step r) [] (path_split (render r d ss)) = ss" unfolding prune_empty [of r "[]" "path_split _"] f(2) by (rule prune_id [OF n])
  then have "path_sanitize (render r d ss) = render r (d \<or> ss = []) ss" using sanitize_render [of "render r d ss"] f(1,3) by simp
  then show ?thesis by (simp add: render_def)
qed

section \<open>Where a path leads\<close>

text \<open>The text between the separators, and the walk along it: how many levels above the start it is, and the names below that, the
  innermost first. The parent of the root is the root.\<close>

fun fields :: "string \<Rightarrow> string list" where
  "fields [] = [[]]"
| "fields (c # cs) = (if c = separator then [] # fields cs else (c # hd (fields cs)) # tl (fields cs))"

fun walk :: "bool \<Rightarrow> nat \<times> string list \<Rightarrow> string \<Rightarrow> nat \<times> string list" where
  "walk absolute (k, names) s =
     (if s = [] \<or> s = ''.'' then (k, names)
      else if s = ''..'' then
        (case names of n # ns \<Rightarrow> (k, ns) | [] \<Rightarrow> if absolute then (k, []) else (Suc k, []))
      else (k, s # names))"

definition location :: "string \<Rightarrow> string list" where
  "location p = (case foldl (walk (is_absolute p)) (0, []) (fields p) of (k, names) \<Rightarrow> replicate k ''..'' @ rev names)"

lemma fields_not_Nil [simp]: "fields p \<noteq> []"
  by (cases p) auto

lemma fields_seg: "seg_free s \<Longrightarrow> fields s = [s]"
  by (induction s) (auto simp: seg_free_def)

lemma fields_cons: "seg_free s \<Longrightarrow> fields (s @ separator # p) = s # fields p"
  by (induction s) (auto simp: seg_free_def)

lemma fields_getlines: "fields p = getlines p @ (if p = [] \<or> trailing_slash p then [[]] else [])"
proof (induction p rule: getlines.induct)
  case (2 c cs)
  let ?s = "takeWhile (\<lambda>x. x \<noteq> separator) (c # cs)" and ?d = "dropWhile (\<lambda>x. x \<noteq> separator) (c # cs)"
  have f: "seg_free ?s" by (auto simp: seg_free_def dest: set_takeWhileD)
  have e: "c # cs = ?s @ ?d" by simp
  show ?case
  proof (cases ?d)
    case Nil
    then have "seg_free (c # cs)" using e f by (metis append_Nil2)
    moreover from this have "last (c # cs) \<noteq> separator" using last_in_set [of "c # cs"] by (auto simp: seg_free_def)
    ultimately show ?thesis using fields_seg [of "c # cs"] getlines_last [of "c # cs"] by (simp add: trailing_last)
  next
    case (Cons x q)
    then have x: "x = separator" using hd_dropWhile [of "\<lambda>x. x \<noteq> separator" "c # cs"] by auto
    have s: "c # cs = ?s @ separator # q" using e Cons x by metis
    have "trailing_slash (u @ separator # q) \<longleftrightarrow> q = [] \<or> trailing_slash q" for u by (auto simp: trailing_last)
    from this [of ?s] have "trailing_slash (c # cs) \<longleftrightarrow> q = [] \<or> trailing_slash q" using s by metis
    moreover have "fields (c # cs) = ?s # fields q" using fields_cons [OF f, of q] s by metis
    moreover have "getlines (c # cs) = ?s # getlines q" using Cons by simp
    ultimately show ?thesis using 2 Cons by simp
  qed
qed simp

lemma split_fields: "path_split p = (if p = [] then [] else fields p)"
  by (simp add: path_split_def fields_getlines trailing_slash_def)

lemma prune_walk:
  assumes "\<forall>n \<in> set names. n \<noteq> ''..''" "absolute \<longrightarrow> k = 0"
  shows "foldl (prune_step (\<not> absolute)) (replicate k ''..'' @ rev names) segs =
           (case foldl (walk absolute) (k, names) segs of (k', names') \<Rightarrow> replicate k' ''..'' @ rev names')"
  using assms
proof (induction segs arbitrary: k names)
  case (Cons s segs)
  obtain k' names' where w: "walk absolute (k, names) s = (k', names')" by fastforce
  have "prune_step (\<not> absolute) (replicate k ''..'' @ rev names) s = replicate k' ''..'' @ rev names'"
    using w Cons.prems
    by (auto simp: prune_step_def butlast_append replicate_append_same split: if_splits list.splits)
  moreover have "\<forall>n \<in> set names'. n \<noteq> ''..''" "absolute \<longrightarrow> k' = 0"
    using w Cons.prems by (auto split: if_splits list.splits)
  ultimately show ?case using Cons.IH w by simp
qed simp

lemma prune_location: "foldl (prune_step (\<not> is_absolute p)) [] (path_split p) = location p"
  using prune_walk [of "[]" "is_absolute p" 0 "fields p"]
  by (auto simp: location_def split_fields)

section \<open>Properties\<close>


end
