(* ===== verification/Vfs.thy ===== *)
theory Vfs
  imports Path File_Desc
begin

text \<open>
  The virtual file system, src/kernel/lib/kernel/vfs/VirtualFileSystem.cpp, with the nodes of the memory file system
  (TmpfsNode.cpp), of the device file system (DevFileSystem.cpp) and mount points (MountableNode.cpp). Nodes are shared
  objects: they have numbers, and a directory lists the numbers of its children.
\<close>

section \<open>Nodes\<close>

datatype VFSType = File | Directory

text \<open>
  A device node holds the descriptor its factory makes, if it has a factory. A mountable node has an inner node and possibly
  a mounted one.
\<close>

datatype VFSNode =
    TmpfsDirectoryNode string "nat list"
  | TmpfsFileNode string nat
  | DevFileSystemNode string "nat list"
  | DevVFSNode string "FileDescriptor option"
  | MountableNode nat "nat option"

record vfs =
  v_nodes :: "VFSNode list"
  v_store :: fd_store
  v_rootNode :: nat
  v_supportedFs :: "(string \<times> nat) list"

text \<open>
  The virtual functions of a mountable node call those of the mounted node, or of the inner one. \<open>node_target\<close> is the node
  that answers in the end; a node mounted below itself would never answer.
\<close>

fun node_target :: "nat \<Rightarrow> vfs \<Rightarrow> nat \<Rightarrow> nat result" where
  "node_target 0 v n = Inl (Undefined ''stack overflow'')"
| "node_target (Suc fuel) v n =
     (if length (v_nodes v) \<le> n then Inl (Undefined ''null node'')
      else case v_nodes v ! n of
             MountableNode inner mounted \<Rightarrow> node_target fuel v (case mounted of Some m \<Rightarrow> m | None \<Rightarrow> inner)
           | _ \<Rightarrow> Inr n)"

definition answering :: "vfs \<Rightarrow> nat \<Rightarrow> nat result" where
  "answering v n = node_target (Suc (length (v_nodes v))) v n"

fun node_type :: "VFSNode \<Rightarrow> VFSType" where
  "node_type (TmpfsDirectoryNode _ _) = Directory"
| "node_type (DevFileSystemNode _ _) = Directory"
| "node_type _ = File"

fun node_segment :: "VFSNode \<Rightarrow> string" where
  "node_segment (TmpfsDirectoryNode s _) = s"
| "node_segment (TmpfsFileNode s _) = s"
| "node_segment (DevFileSystemNode s _) = s"
| "node_segment (DevVFSNode s _) = s"
| "node_segment (MountableNode _ _) = []"

fun node_children :: "VFSNode \<Rightarrow> nat list" where
  "node_children (TmpfsDirectoryNode _ ns) = ns"
| "node_children (DevFileSystemNode _ ns) = ns"
| "node_children _ = []"

definition getType :: "vfs \<Rightarrow> nat \<Rightarrow> VFSType result" where
  "getType v n = rbind (answering v n) (\<lambda>m. Inr (node_type (v_nodes v ! m)))"

definition getPathSegment :: "vfs \<Rightarrow> nat \<Rightarrow> string result" where
  "getPathSegment v n = rbind (answering v n) (\<lambda>m. Inr (node_segment (v_nodes v ! m)))"

definition childNodes :: "vfs \<Rightarrow> nat \<Rightarrow> nat list result" where
  "childNodes v n = rbind (answering v n) (\<lambda>m. Inr (node_children (v_nodes v ! m)))"

definition getSize :: "vfs \<Rightarrow> nat \<Rightarrow> nat result" where
  "getSize v n = rbind (answering v n) (\<lambda>m.
     Inr (case v_nodes v ! m of TmpfsFileNode _ d \<Rightarrow> length (fs_vectors (v_store v) ! d) | _ \<Rightarrow> 0))"

text \<open>A mountable node asks its inner node only when nothing is mounted, and only mountable nodes can have a mount.\<close>

fun node_isMounted :: "nat \<Rightarrow> vfs \<Rightarrow> nat \<Rightarrow> bool result" where
  "node_isMounted 0 v n = Inl (Undefined ''stack overflow'')"
| "node_isMounted (Suc fuel) v n =
     (if length (v_nodes v) \<le> n then Inl (Undefined ''null node'')
      else case v_nodes v ! n of
             MountableNode inner mounted \<Rightarrow> (case mounted of Some m \<Rightarrow> Inr True | None \<Rightarrow> node_isMounted fuel v inner)
           | _ \<Rightarrow> Inr False)"

definition isMounted :: "vfs \<Rightarrow> nat \<Rightarrow> bool result" where
  "isMounted v n = node_isMounted (Suc (length (v_nodes v))) v n"

definition mountNode :: "nat \<Rightarrow> nat \<Rightarrow> vfs \<Rightarrow> bool \<times> vfs" where
  "mountNode n node v =
     (case v_nodes v ! n of
        MountableNode inner mounted \<Rightarrow> (True, v\<lparr>v_nodes := (v_nodes v)[n := MountableNode inner (Some node)]\<rparr>)
      | _ \<Rightarrow> (False, v))"

definition new_TmpfsFileNode :: "string \<Rightarrow> vfs \<Rightarrow> VFSNode \<times> vfs" where
  "new_TmpfsFileNode path v =
     (TmpfsFileNode path (length (fs_vectors (v_store v))),
      v\<lparr>v_store := (v_store v)\<lparr>fs_vectors := fs_vectors (v_store v) @ [[]]\<rparr>\<rparr>)"

text \<open>\<open>createMountableNode\<close>: the inner node and the mountable node around it, which is the new node.\<close>

definition createMountableNode :: "VFSNode \<Rightarrow> vfs \<Rightarrow> nat \<times> vfs" where
  "createMountableNode inner v =
     (Suc (length (v_nodes v)), v\<lparr>v_nodes := v_nodes v @ [inner, MountableNode (length (v_nodes v)) None]\<rparr>)"

definition node_createNode :: "VFSType \<Rightarrow> string \<Rightarrow> nat \<Rightarrow> vfs \<Rightarrow> (nat option \<times> vfs) result" where
  "node_createNode type path n v =
     rbind (answering v n) (\<lambda>m.
       case v_nodes v ! m of
         TmpfsDirectoryNode s ns \<Rightarrow>
           let (inner, v1) = (case type of Directory \<Rightarrow> (TmpfsDirectoryNode path [], v) | File \<Rightarrow> new_TmpfsFileNode path v);
               (k, v2) = createMountableNode inner v1
           in Inr (Some k, v2\<lparr>v_nodes := (v_nodes v2)[m := TmpfsDirectoryNode s (ns @ [k])]\<rparr>)
       | _ \<Rightarrow> Inr (None, v))"

definition node_open :: "vfs \<Rightarrow> nat \<Rightarrow> FileDescriptor option result" where
  "node_open v n = rbind (answering v n) (\<lambda>m.
     case v_nodes v ! m of
       TmpfsFileNode _ d \<Rightarrow> Inr (Some (VectorBackedFileDescriptor d 0))
     | DevVFSNode _ fd \<Rightarrow> Inr fd
     | DevFileSystemNode _ _ \<Rightarrow> Inr (Some InvalidFileDescriptor)
     | _ \<Rightarrow> Inr None)"

definition registerDevice :: "nat \<Rightarrow> string \<Rightarrow> FileDescriptor option \<Rightarrow> vfs \<Rightarrow> bool \<times> vfs" where
  "registerDevice n name fd v =
     (case v_nodes v ! n of
        DevFileSystemNode s ns \<Rightarrow>
          if \<exists>k \<in> set ns. node_segment (v_nodes v ! k) = name then (False, v)
          else (True, v\<lparr>v_nodes := (v_nodes v)[n := DevFileSystemNode s (ns @ [length (v_nodes v)])] @ [DevVFSNode name fd]\<rparr>)
      | _ \<Rightarrow> (False, v))"

section \<open>Looking up a path\<close>

datatype child_search = Found nat | Enter nat | NoChild

fun search_children :: "vfs \<Rightarrow> bool \<Rightarrow> string \<Rightarrow> nat list \<Rightarrow> child_search result" where
  "search_children v is_last seg [] = Inr NoChild"
| "search_children v is_last seg (c # cs) =
     rbind (getPathSegment v c) (\<lambda>name.
     rbind (getType v c) (\<lambda>type.
       if is_last \<and> name = seg then Inr (Found c)
       else if name = seg \<and> type = Directory then Inr (Enter c)
       else search_children v is_last seg cs))"

fun lookup_segments :: "vfs \<Rightarrow> bool \<Rightarrow> nat \<Rightarrow> string list \<Rightarrow> nat option result" where
  "lookup_segments v is_first node [] = Inr None"
| "lookup_segments v is_first node (seg # segs) =
     (let is_last = (segs = [])
      in if is_first \<and> seg = [] then lookup_segments v False node segs
         else
           rbind (getPathSegment v node) (\<lambda>name.
             if is_last \<and> seg = name then Inr (Some node)
             else
               rbind (getType v node) (\<lambda>type.
                 if type \<noteq> Directory then Inr None
                 else
                   rbind (childNodes v node) (\<lambda>cs.
                   rbind (search_children v is_last seg cs) (\<lambda>r.
                     case r of
                       Found c \<Rightarrow> Inr (Some c)
                     | Enter c \<Rightarrow> lookup_segments v False c segs
                     | NoChild \<Rightarrow> lookup_segments v False node segs)))))"

definition lookup_from :: "vfs \<Rightarrow> nat \<Rightarrow> string \<Rightarrow> nat option result" where
  "lookup_from v rootNode path =
     (let path1 = path_sanitize (path_trim path)
      in if path1 = [] then Inr (Some rootNode) else lookup_segments v True rootNode (path_split path1))"

text \<open>\<open>cwd\<close> is the working directory of the current process, if there is one.\<close>

definition vfs_lookup :: "nat option \<Rightarrow> vfs \<Rightarrow> string \<Rightarrow> nat option result" where
  "vfs_lookup cwd v path =
     lookup_from v (if is_absolute path then v_rootNode v else case cwd of None \<Rightarrow> v_rootNode v | Some n \<Rightarrow> n) path"

section \<open>Operations\<close>

definition new_vfs :: "fd_store \<Rightarrow> vfs" where
  "new_vfs s = \<lparr>v_nodes = [TmpfsDirectoryNode ''/'' []], v_store = s, v_rootNode = 0, v_supportedFs = []\<rparr>"

definition vfs_createNode :: "nat option \<Rightarrow> string \<Rightarrow> VFSType \<Rightarrow> vfs \<Rightarrow> (nat option \<times> vfs) result" where
  "vfs_createNode cwd nodePath type v =
     rbind (vfs_lookup cwd v (path_sanitize (path_trim nodePath))) (\<lambda>existing.
       if existing \<noteq> None then Inr (None, v)
       else
         let basename = path_filename nodePath
         in if basename = [] then Inr (None, v)
            else
              rbind (vfs_lookup cwd v (path_up (path_sanitize (path_trim nodePath)))) (\<lambda>node.
                case node of
                  None \<Rightarrow> Inr (None, v)
                | Some n \<Rightarrow> node_createNode type basename n v))"

definition vfs_mkdir :: "nat option \<Rightarrow> string \<Rightarrow> vfs \<Rightarrow> (bool \<times> vfs) result" where
  "vfs_mkdir cwd path v = rbind (vfs_createNode cwd path Directory v) (\<lambda>(r, v1). Inr (r \<noteq> None, v1))"

text \<open>Opening: the descriptor, or \<open>None\<close> for a null pointer.\<close>

definition vfs_open :: "nat option \<Rightarrow> string \<Rightarrow> u32 \<Rightarrow> vfs \<Rightarrow> (FileDescriptor option \<times> vfs) result" where
  "vfs_open cwd path flags v =
     rbind (vfs_lookup cwd v path) (\<lambda>node.
       let creat = (flags AND O_CREAT \<noteq> 0)
       in if node \<noteq> None \<and> creat then Inr (None, v)
          else
            rbind (if node = None \<and> creat then vfs_createNode cwd path File v else Inr (node, v)) (\<lambda>(node1, v1).
              let flags1 = (if node = None \<and> creat then flags AND NOT O_CREAT else flags)
              in case node1 of
                   None \<Rightarrow> Inr (None, v1)
                 | Some n \<Rightarrow>
                     rbind (node_open v1 n) (\<lambda>fd.
                       case fd of
                         None \<Rightarrow> Inr (None, v1)
                       | Some f \<Rightarrow>
                           let flags2 = (if flags1 AND O_TRUNC \<noteq> 0 then flags1 AND NOT O_TRUNC else flags1)
                           in Inr (Some (new_AccessControlledFileDescriptor f flags2), v1))))"

text \<open>
  Factories of file systems have numbers; \<open>factory\<close> makes the root node of a new file system, given the source and the name
  of the mount point.
\<close>

definition registerFilesystem :: "string \<Rightarrow> nat \<Rightarrow> vfs \<Rightarrow> bool \<times> vfs" where
  "registerFilesystem fstype factory v =
     (if map_of (v_supportedFs v) fstype \<noteq> None then (False, v)
      else (True, v\<lparr>v_supportedFs := (fstype, factory) # v_supportedFs v\<rparr>))"

definition mountFilesystem ::
  "(nat \<Rightarrow> string \<Rightarrow> string \<Rightarrow> vfs \<Rightarrow> nat option \<times> vfs) \<Rightarrow> nat option \<Rightarrow> string \<Rightarrow> string \<Rightarrow> string \<Rightarrow> vfs \<Rightarrow> (bool \<times> vfs) result" where
  "mountFilesystem factory cwd fstype source destination v =
     rbind (vfs_lookup cwd v destination) (\<lambda>mp.
       case mp of
         None \<Rightarrow> Inr (False, v)
       | Some n \<Rightarrow>
           rbind (isMounted v n) (\<lambda>busy.
             if n = v_rootNode v \<or> busy then Inr (False, v)
             else case map_of (v_supportedFs v) fstype of
                    None \<Rightarrow> Inr (False, v)
                  | Some f \<Rightarrow>
                      (case factory f source (path_filename destination) v of
                         (None, v1) \<Rightarrow> Inr (False, v1)
                       | (Some r, v1) \<Rightarrow> Inr (mountNode n r v1))))"

text \<open>The factory of the device file system.\<close>

definition devfs_factory :: "string \<Rightarrow> string \<Rightarrow> vfs \<Rightarrow> nat option \<times> vfs" where
  "devfs_factory source destName v =
     (Some (length (v_nodes v)), v\<lparr>v_nodes := v_nodes v @ [DevFileSystemNode destName []]\<rparr>)"

text \<open>The driver that registers this file system and mounts it when the kernel starts. The results of the three calls are not used.\<close>

definition vfs_dev_init :: "nat option \<Rightarrow> vfs \<Rightarrow> vfs result" where
  "vfs_dev_init cwd v =
     rbind (vfs_mkdir cwd ''/dev'' (snd (registerFilesystem ''devfs'' 0 v))) (\<lambda>(made, v1).
     rbind (mountFilesystem (\<lambda>_. devfs_factory) cwd ''devfs'' ''none'' ''/dev'' v1) (\<lambda>(mounted, v2). Inr v2))"

end
