(* ===== verification/Vfs_Props.thy ===== *)
theory Vfs_Props
  imports Vfs
begin

text \<open>
  What looking up and creating nodes does: the walk of \<open>lookup\<close> along the segments of a path, the invariant of the tree of
  nodes, and that a node that was created is found under its path.
\<close>

section \<open>Absolute paths in normal form\<close>

definition abs_path :: "string list \<Rightarrow> string" where
  "abs_path ss = [separator] @ path_join ss"

lemma proper_normal: "\<forall>s \<in> set ss. proper s \<Longrightarrow> normal False ss"
  by (auto simp: normal_def)

lemma abs_render: "ss \<noteq> [] \<Longrightarrow> abs_path ss = render False False ss"
  by (simp add: abs_path_def render_def)

lemma abs_path_absolute [simp]: "is_absolute (abs_path ss)"
  by (simp add: is_absolute_def abs_path_def)

lemma abs_path_facts:
  assumes "\<forall>s \<in> set ss. proper s" "ss \<noteq> []"
  shows "path_trim (abs_path ss) = abs_path ss" "path_sanitize (abs_path ss) = abs_path ss" "path_split (abs_path ss) = [] # ss"
proof -
  have n: "normal False ss" by (rule proper_normal [OF assms(1)])
  have f: "\<forall>s \<in> set ss. seg_free s \<and> s \<noteq> []" by (rule normal_names [OF n])
  have l: "path_join ss \<noteq> [] \<and> last (path_join ss) \<noteq> separator" by (rule join_last [OF f assms(2)])
  show "path_trim (abs_path ss) = abs_path ss" by (rule trim_id) (use l in \<open>simp_all add: abs_path_def\<close>)
  show "path_sanitize (abs_path ss) = abs_path ss" unfolding abs_render [OF assms(2)] by (rule sanitize_normal [OF n]) simp
  have "\<not> trailing_slash (abs_path ss)" using l by (simp add: trailing_last abs_path_def)
  moreover have "getlines (separator # path_join ss) = [] # ss"
    using getlines_cons [of "[]" "path_join ss"] getlines_join(1) [OF f] by (simp add: seg_free_def)
  ultimately show "path_split (abs_path ss) = [] # ss" by (simp add: path_split_def abs_path_def)
qed

lemma join_snoc: "ss \<noteq> [] \<Longrightarrow> path_join (ss @ [b]) = path_join ss @ [separator] @ b"
  by (induction ss rule: path_join.induct) simp_all

lemma rfind_none: "c \<notin> set s \<Longrightarrow> rfind c s = None"
  by (induction s) auto

lemma rfind_append: "c \<notin> set s \<Longrightarrow> rfind c (p @ c # s) = Some (length p)"
  by (induction p) (auto simp: rfind_none)

lemma filename_slash: "seg_free b \<Longrightarrow> path_filename (p @ [separator] @ b) = b"
  by (simp add: path_filename_def rfind_append seg_free_def)

lemma abs_path_filename: "seg_free b \<Longrightarrow> path_filename (abs_path (ss @ [b])) = b"
  using filename_slash [of b "[separator] @ path_join ss"] filename_slash [of b "[]"]
  by (cases "ss = []") (simp_all add: abs_path_def join_snoc)

lemma abs_path_up:
  assumes "\<forall>s \<in> set (ss @ [b]). proper s"
  shows "path_up (abs_path (ss @ [b])) = (if ss = [] then [separator] else abs_path ss @ [separator])"
proof -
  let ?p = "abs_path (ss @ [b]) @ [separator] @ ''..''"
  have f: "\<forall>s \<in> set (ss @ [b]). seg_free s \<and> s \<noteq> []" using assms by (auto simp: proper_def)
  have l: "path_join (ss @ [b]) \<noteq> [] \<and> last (path_join (ss @ [b])) \<noteq> separator" by (rule join_last [OF f]) simp
  have a: "path_append (abs_path (ss @ [b])) ''..'' = ?p"
    using l by (simp add: path_append_def trailing_last abs_path_def)
  have p: "?p = abs_path (ss @ [b, ''..''])" using join_snoc [of "ss @ [b]" "''..''"] by (simp add: abs_path_def)
  have dd: "seg_free ''..''" by (simp add: seg_free_def separator_def)
  have f2: "\<forall>s \<in> set (ss @ [b, ''..'']). seg_free s \<and> s \<noteq> []" using f dd by auto
  have "getlines (separator # path_join (ss @ [b, ''..''])) = [] # ss @ [b, ''..'']"
    using getlines_cons [of "[]" "path_join (ss @ [b, ''..''])"] getlines_join(1) [OF f2] by (simp add: seg_free_def)
  moreover have nt: "\<not> trailing_slash ?p" by (simp add: trailing_last separator_def)
  ultimately have sp: "path_split ?p = [] # ss @ [b, ''..'']" unfolding p path_split_def by (simp add: abs_path_def)
  have "foldl (prune_step False) [] ([] # ss @ [b, ''..'']) = ss"
  proof -
    have "foldl (prune_step False) [] (ss @ [b]) = ss @ [b]" using prune_names [OF assms, of False "[]"] by simp
    then have "foldl (prune_step False) [] (ss @ [b, ''..'']) = prune_step False (ss @ [b]) ''..''"
      using foldl_append [of "prune_step False" "[]" "ss @ [b]" "[''..'']"] by simp
    then show ?thesis by (simp add: prune_step_def)
  qed
  moreover have "is_absolute ?p" unfolding p by simp
  ultimately have s: "path_sanitize ?p = abs_path ss"
    using nt sp by (simp add: path_sanitize_def Let_def abs_path_def)
  have ne: "abs_path x \<noteq> []" for x by (simp add: abs_path_def)
  have tr: "path_trim (abs_path ss) = (if ss = [] then [] else abs_path ss)"
    using abs_path_facts(1) [of ss] assms trim_slash [of "[]"] by (simp add: abs_path_def)
  show ?thesis unfolding path_up_def a s using ne tr by (simp add: Let_def path_directory_def)
qed

section \<open>Well-formed trees\<close>

text \<open>Every number belongs to a node, and the node behind a mountable node is not mountable itself.\<close>

fun plain :: "VFSNode \<Rightarrow> bool" where
  "plain (MountableNode _ _) = False"
| "plain _ = True"

definition mount_ok :: "VFSNode list \<Rightarrow> VFSNode \<Rightarrow> bool" where
  "mount_ok ns node = (case node of
     MountableNode i m \<Rightarrow> (i < length ns \<and> plain (ns ! i)) \<and> (case m of None \<Rightarrow> True | Some k \<Rightarrow> k < length ns \<and> plain (ns ! k))
   | _ \<Rightarrow> True)"

definition vfs_wf :: "vfs \<Rightarrow> bool" where
  "vfs_wf v \<longleftrightarrow> v_rootNode v < length (v_nodes v) \<and>
     (\<forall>n < length (v_nodes v). mount_ok (v_nodes v) (v_nodes v ! n) \<and> (\<forall>c \<in> set (node_children (v_nodes v ! n)). c < length (v_nodes v)))"

definition dest :: "vfs \<Rightarrow> nat \<Rightarrow> nat" where
  "dest v n = (case v_nodes v ! n of MountableNode i m \<Rightarrow> (case m of Some k \<Rightarrow> k | None \<Rightarrow> i) | _ \<Rightarrow> n)"

definition seg_of :: "vfs \<Rightarrow> nat \<Rightarrow> string" where
  "seg_of v n = node_segment (v_nodes v ! dest v n)"

definition kids :: "vfs \<Rightarrow> nat \<Rightarrow> nat list" where
  "kids v n = node_children (v_nodes v ! dest v n)"

definition is_dir :: "vfs \<Rightarrow> nat \<Rightarrow> bool" where
  "is_dir v n \<longleftrightarrow> node_type (v_nodes v ! dest v n) = Directory"

lemma dest_plain:
  assumes "vfs_wf v" "n < length (v_nodes v)"
  shows "dest v n < length (v_nodes v) \<and> plain (v_nodes v ! dest v n)"
  using assms unfolding vfs_wf_def mount_ok_def dest_def
  by (cases "v_nodes v ! n") (auto split: option.splits)

lemma answering_dest:
  assumes wf: "vfs_wf v" and n: "n < length (v_nodes v)" shows "answering v n = Inr (dest v n)"
proof -
  have "length (v_nodes v) \<noteq> 0" using n by auto
  then obtain f where f: "length (v_nodes v) = Suc f" by (cases "length (v_nodes v)") auto
  have p: "node_target (Suc g) v m = Inr m" if "plain (v_nodes v ! m)" "m < length (v_nodes v)" for g m
    using that by (cases "v_nodes v ! m") simp_all
  show ?thesis
    using dest_plain [OF wf n] n p [of "dest v n" f] p [of n f] f
    by (cases "v_nodes v ! n") (auto simp: answering_def dest_def split: option.splits)
qed

lemma method_dest:
  assumes "vfs_wf v" "n < length (v_nodes v)"
  shows "getType v n = Inr (if is_dir v n then Directory else File)" "getPathSegment v n = Inr (seg_of v n)"
    "childNodes v n = Inr (kids v n)"
  using answering_dest [OF assms]
  by (auto simp: getType_def getPathSegment_def childNodes_def is_dir_def seg_of_def kids_def intro: VFSType.exhaust)

lemma kids_known: "vfs_wf v \<Longrightarrow> n < length (v_nodes v) \<Longrightarrow> c \<in> set (kids v n) \<Longrightarrow> c < length (v_nodes v)"
  using dest_plain [of v n] unfolding vfs_wf_def kids_def by blast

section \<open>The walk\<close>

lemma search_last:
  assumes wf: "vfs_wf v" and "\<forall>c \<in> set cs. c < length (v_nodes v)"
  shows "search_children v True seg cs = Inr (case find (\<lambda>c. seg_of v c = seg) cs of Some c \<Rightarrow> Found c | None \<Rightarrow> NoChild)"
  using assms(2) by (induction cs) (auto simp: method_dest [OF wf])

lemma search_inner:
  assumes wf: "vfs_wf v" and "\<forall>c \<in> set cs. c < length (v_nodes v)"
  shows "search_children v False seg cs =
    Inr (case find (\<lambda>c. seg_of v c = seg \<and> is_dir v c) cs of Some c \<Rightarrow> Enter c | None \<Rightarrow> NoChild)"
  using assms(2) by (induction cs) (auto simp: method_dest [OF wf])

text \<open>Where the walk is after the segments before the last one; a segment that no directory has is passed over.\<close>

fun descend :: "vfs \<Rightarrow> nat \<Rightarrow> string list \<Rightarrow> nat option" where
  "descend v n [] = Some n"
| "descend v n (s # ss) =
     (if \<not> is_dir v n then None
      else case find (\<lambda>c. seg_of v c = s \<and> is_dir v c) (kids v n) of Some c \<Rightarrow> descend v c ss | None \<Rightarrow> descend v n ss)"

definition last_step :: "vfs \<Rightarrow> nat \<Rightarrow> string \<Rightarrow> nat option" where
  "last_step v n b =
     (if b = seg_of v n then Some n else if \<not> is_dir v n then None else find (\<lambda>c. seg_of v c = b) (kids v n))"

lemma find_known: "find P cs = Some c \<Longrightarrow> c \<in> set cs \<and> P c"
  by (auto simp: find_Some_iff)

lemma descend_known: "vfs_wf v \<Longrightarrow> n < length (v_nodes v) \<Longrightarrow> descend v n ss = Some m \<Longrightarrow> m < length (v_nodes v)"
  by (induction ss arbitrary: n) (auto split: if_splits option.splits dest!: find_known intro: kids_known)

lemma descend_snoc:
  "descend v n (ss @ [s]) = (case descend v n ss of None \<Rightarrow> None | Some m \<Rightarrow> descend v m [s])"
  by (induction ss arbitrary: n) (auto split: option.splits)

lemma lookup_descend:
  assumes wf: "vfs_wf v" and n: "n < length (v_nodes v)"
  shows "lookup_segments v False n (ss @ [b]) =
    Inr (case descend v n ss of None \<Rightarrow> None | Some m \<Rightarrow> last_step v m b)"
  using n
proof (induction ss arbitrary: n)
  case Nil
  have "\<forall>c \<in> set (kids v n). c < length (v_nodes v)" using kids_known [OF wf Nil] by blast
  then show ?case using search_last [OF wf] Nil by (auto simp: method_dest [OF wf] last_step_def Let_def split: option.splits)
next
  case (Cons s ss)
  have k: "\<forall>c \<in> set (kids v n). c < length (v_nodes v)" using kids_known [OF wf Cons.prems] by blast
  show ?case
  proof (cases "find (\<lambda>c. seg_of v c = s \<and> is_dir v c) (kids v n)")
    case None
    then show ?thesis using Cons search_inner [OF wf k] by (auto simp: method_dest [OF wf] Let_def)
  next
    case (Some c)
    then have "c < length (v_nodes v)" using k find_known [OF Some] by blast
    then show ?thesis using Cons Some search_inner [OF wf k] by (auto simp: method_dest [OF wf] Let_def)
  qed
qed

lemma lookup_abs:
  assumes wf: "vfs_wf v" and ss: "\<forall>s \<in> set (ss @ [b]). proper s"
  shows "vfs_lookup cwd v (abs_path (ss @ [b])) =
    Inr (case descend v (v_rootNode v) ss of None \<Rightarrow> None | Some m \<Rightarrow> last_step v m b)"
proof -
  note f = abs_path_facts [OF ss]
  have r: "v_rootNode v < length (v_nodes v)" using wf by (simp add: vfs_wf_def)
  have "abs_path (ss @ [b]) \<noteq> []" by (simp add: abs_path_def)
  then have "vfs_lookup cwd v (abs_path (ss @ [b])) = lookup_segments v True (v_rootNode v) ([] # ss @ [b])"
    using f by (simp add: vfs_lookup_def lookup_from_def Let_def)
  also have "\<dots> = lookup_segments v False (v_rootNode v) (ss @ [b])" by simp
  finally show ?thesis using lookup_descend [OF wf r] by simp
qed

section \<open>Creating a node\<close>

lemma create_effect:
  assumes "vfs_wf v" "n < length (v_nodes v)" "node_createNode ty b n v = Inr (Some k, v')"
  obtains s ns inner where "v_nodes v ! dest v n = TmpfsDirectoryNode s ns" "k = Suc (length (v_nodes v))"
    "inner = TmpfsDirectoryNode b [] \<and> ty = Directory \<or> (\<exists>d. inner = TmpfsFileNode b d) \<and> ty = File"
    "v_nodes v' = (v_nodes v @ [inner, MountableNode (length (v_nodes v)) None])[dest v n := TmpfsDirectoryNode s (ns @ [k])]"
    "v_rootNode v' = v_rootNode v"
proof (cases "v_nodes v ! dest v n")
  case (TmpfsDirectoryNode s ns)
  show thesis
  proof (cases ty)
    case Directory
    then show thesis using that [of s ns "TmpfsDirectoryNode b []"] TmpfsDirectoryNode assms answering_dest [OF assms(1,2)]
      by (auto simp: node_createNode_def createMountableNode_def Let_def)
  next
    case File
    then show thesis using that [of s ns "TmpfsFileNode b (length (fs_vectors (v_store v)))"] TmpfsDirectoryNode assms answering_dest [OF assms(1,2)]
      by (auto simp: node_createNode_def createMountableNode_def new_TmpfsFileNode_def Let_def)
  qed
qed (use assms answering_dest [OF assms(1,2)] in \<open>auto simp: node_createNode_def\<close>)

text \<open>Nodes that were there keep their names and types; only the parent gets a child.\<close>

lemma create_nodes:
  assumes wf: "vfs_wf v" and n: "n < length (v_nodes v)" and c: "node_createNode ty b n v = Inr (Some k, v')"
  shows "k = Suc (length (v_nodes v))" "length (v_nodes v') = Suc (Suc (length (v_nodes v)))" "v_rootNode v' = v_rootNode v"
    "seg_of v' k = b" "is_dir v' k \<longleftrightarrow> ty = Directory" "kids v' k = []" "is_dir v n"
    "\<And>m. m < length (v_nodes v) \<Longrightarrow> seg_of v' m = seg_of v m"
    "\<And>m. m < length (v_nodes v) \<Longrightarrow> is_dir v' m = is_dir v m"
    "\<And>m. m < length (v_nodes v) \<Longrightarrow> kids v' m = kids v m @ (if dest v m = dest v n then [k] else [])"
    "vfs_wf v'" "kids v' (length (v_nodes v)) = []"
proof -
  obtain s ns inner where e: "v_nodes v ! dest v n = TmpfsDirectoryNode s ns" "k = Suc (length (v_nodes v))"
    "inner = TmpfsDirectoryNode b [] \<and> ty = Directory \<or> (\<exists>d. inner = TmpfsFileNode b d) \<and> ty = File"
    "v_nodes v' = (v_nodes v @ [inner, MountableNode (length (v_nodes v)) None])[dest v n := TmpfsDirectoryNode s (ns @ [k])]"
    "v_rootNode v' = v_rootNode v"
    using create_effect [OF assms] by metis
  let ?l = "length (v_nodes v)"
  have d: "dest v n < ?l" using dest_plain [OF wf n] by simp
  have nd: "v_nodes v' ! m = (if m = dest v n then TmpfsDirectoryNode s (ns @ [k]) else if m < ?l then v_nodes v ! m
      else if m = ?l then inner else MountableNode ?l None)" if "m < Suc (Suc ?l)" for m
    using that d unfolding e(4) by (auto simp: nth_append nth_Cons' less_Suc_eq)
  have l': "length (v_nodes v') = Suc (Suc ?l)" unfolding e(4) by simp
  have pl: "plain inner" using e(3) by auto
  have dm: "dest v' m = dest v m" if "m < ?l" for m
    using nd [of m] that e(1) unfolding dest_def by (cases "m = dest v n") (auto simp: dest_def split: VFSNode.splits)
  have dk: "dest v' k = ?l" using nd [of k] d e(2) unfolding dest_def by simp
  have nl: "v_nodes v' ! ?l = inner" using nd [of ?l] d by simp
  have nk: "v_nodes v' ! k = MountableNode ?l None" using nd [of k] d e(2) by simp
  have nm: "v_nodes v' ! dest v m = (if dest v m = dest v n then TmpfsDirectoryNode s (ns @ [k]) else v_nodes v ! dest v m)"
    if "m < ?l" for m using nd [of "dest v m"] dest_plain [OF wf that] by simp
  show "k = Suc ?l" by (rule e(2))
  show "length (v_nodes v') = Suc (Suc ?l)" by (rule l')
  show "v_rootNode v' = v_rootNode v" by (rule e(5))
  show "seg_of v' k = b" "is_dir v' k \<longleftrightarrow> ty = Directory" "kids v' k = []"
    using e(3) unfolding seg_of_def is_dir_def kids_def dk nl by auto
  have "dest v' ?l = ?l" unfolding dest_def nl using pl by (cases inner) simp_all
  then show "kids v' ?l = []" using e(3) nl unfolding kids_def by auto
  show "is_dir v n" using e(1) by (simp add: is_dir_def)
  show "seg_of v' m = seg_of v m" "is_dir v' m = is_dir v m" "kids v' m = kids v m @ (if dest v m = dest v n then [k] else [])"
    if "m < ?l" for m
    using that dm [OF that] nm [OF that] e(1) by (auto simp: seg_of_def is_dir_def kids_def)
  show "vfs_wf v'"
    unfolding vfs_wf_def l'
  proof (intro conjI allI impI ballI)
    show "v_rootNode v' < Suc (Suc ?l)" using wf e(5) by (simp add: vfs_wf_def)
    have plain': "i < Suc (Suc ?l) \<and> plain (v_nodes v' ! i)" if "i < ?l" "plain (v_nodes v ! i)" for i
      using nd [of i] that e(1) by auto
    fix m assume m: "m < Suc (Suc ?l)"
    consider "m = dest v n" | "m < ?l" "m \<noteq> dest v n" | "m = ?l" "m \<noteq> dest v n" | "m = k" using m e(2) d by linarith
    then show "mount_ok (v_nodes v') (v_nodes v' ! m)"
    proof cases
      case 1 then show ?thesis using nd [OF m] by (simp add: mount_ok_def)
    next
      case 2
      then have "mount_ok (v_nodes v) (v_nodes v ! m)" using wf by (simp add: vfs_wf_def)
      then show ?thesis using 2 nd [OF m] plain' l'
        by (cases "v_nodes v ! m") (auto simp: mount_ok_def split: option.splits)
    next
      case 3 then show ?thesis using nl pl by (cases inner) (simp_all add: mount_ok_def)
    next
      case 4 then show ?thesis using nk nl pl l' by (simp add: mount_ok_def)
    qed
    fix c assume c: "c \<in> set (node_children (v_nodes v' ! m))"
    have old: "c < ?l" if "c \<in> set (node_children (v_nodes v ! i))" "i < ?l" for i using wf that by (simp add: vfs_wf_def)
    show "c < Suc (Suc ?l)"
      using c nd [OF m] old [of m] old [of "dest v n"] e d by (auto split: if_splits)
  qed
qed

text \<open>No directory has a child with its own name: such a node is never created, as \<open>lookup\<close> takes the directory for it.\<close>

definition vfs_inv :: "vfs \<Rightarrow> bool" where
  "vfs_inv v \<longleftrightarrow> vfs_wf v \<and> (\<forall>n < length (v_nodes v). \<forall>c \<in> set (kids v n). seg_of v c \<noteq> seg_of v n)"

lemma parent_lookup:
  assumes "\<forall>s \<in> set (ss @ [b]). proper s"
  shows "vfs_lookup cwd v (path_up (abs_path (ss @ [b]))) =
    (if ss = [] then Inr (Some (v_rootNode v)) else vfs_lookup cwd v (abs_path ss))"
proof (cases "ss = []")
  case True
  have "path_trim [separator] = []" using trim_slash [of "[]"] by simp
  moreover have "path_sanitize [] = []" by (simp add: path_sanitize_def is_absolute_def path_split_def trailing_slash_def)
  ultimately show ?thesis using True abs_path_up [OF assms]
    by (simp add: vfs_lookup_def lookup_from_def is_absolute_def)
next
  case False
  have "\<forall>s \<in> set ss. proper s" using assms by simp
  then have "path_trim (abs_path ss @ [separator]) = path_trim (abs_path ss)" by simp
  moreover have "is_absolute (abs_path ss @ [separator])" by (simp add: is_absolute_def abs_path_def)
  ultimately show ?thesis using False abs_path_up [OF assms] by (simp add: vfs_lookup_def lookup_from_def)
qed

text \<open>The directory found for the path of the parent is where the walk along the whole path arrives.\<close>

lemma descend_last_step:
  assumes inv: "vfs_inv v" and n: "n < length (v_nodes v)" and l: "last_step v n s = Some m" "is_dir v m"
  shows "descend v n [s] = Some m"
proof (cases "s = seg_of v n")
  case True
  then have m: "m = n" using l(1) by (simp add: last_step_def)
  have "find (\<lambda>c. seg_of v c = s \<and> is_dir v c) (kids v n) = None"
    using inv n True unfolding vfs_inv_def find_None_iff by blast
  then show ?thesis using m l(2) by simp
next
  case False
  then have f: "find (\<lambda>c. seg_of v c = s) (kids v n) = Some m" "is_dir v n" using l(1) by (auto simp: last_step_def split: if_splits)
  have "find (\<lambda>c. seg_of v c = s \<and> is_dir v c) cs = Some m" if "find (\<lambda>c. seg_of v c = s) cs = Some m" for cs
    using that l(2) by (induction cs) (auto split: if_splits)
  then show ?thesis using f by simp
qed

lemma find_append: "find P (xs @ ys) = (case find P xs of None \<Rightarrow> find P ys | Some x \<Rightarrow> Some x)"
  by (induction xs) auto

lemma descend_empty: "is_dir v k \<Longrightarrow> kids v k = [] \<Longrightarrow> descend v k ss = Some k"
  by (induction ss) auto

lemma descend_append: "descend v n (us @ ss) = (case descend v n us of None \<Rightarrow> None | Some m \<Rightarrow> descend v m ss)"
  by (induction us arbitrary: n) (auto split: option.splits)

text \<open>A directory that a path leads to is where the walk along the path arrives.\<close>

lemma lookup_directory:
  assumes inv: "vfs_inv v" and us: "\<forall>s \<in> set us. proper s"
    and l: "vfs_lookup cwd v (abs_path us) = Inr (Some n)" and t: "getType v n = Inr Directory"
  shows "n < length (v_nodes v) \<and> descend v (v_rootNode v) us = Some n"
proof (cases us rule: rev_cases)
  case Nil
  have "vfs_lookup cwd v (abs_path []) = Inr (Some (v_rootNode v))"
    using trim_slash [of "[]"]
    by (simp add: vfs_lookup_def lookup_from_def abs_path_def is_absolute_def path_sanitize_def path_split_def trailing_slash_def)
  then show ?thesis using Nil l inv by (simp add: vfs_inv_def vfs_wf_def)
next
  case (snoc ts b)
  have wf: "vfs_wf v" and r: "v_rootNode v < length (v_nodes v)" using inv by (simp_all add: vfs_inv_def vfs_wf_def)
  have p: "\<forall>s \<in> set (ts @ [b]). proper s" using us snoc by simp
  obtain m where m: "descend v (v_rootNode v) ts = Some m" "last_step v m b = Some n"
    using l lookup_abs [OF wf p, of cwd] snoc by (auto split: option.splits)
  have mk: "m < length (v_nodes v)" by (rule descend_known [OF wf r m(1)])
  have n: "n < length (v_nodes v)"
    using m(2) mk kids_known [OF wf mk] by (auto simp: last_step_def split: if_splits dest: find_known)
  then have "is_dir v n" using t method_dest(1) [OF wf n] by (simp split: if_splits)
  then show ?thesis using descend_last_step [OF inv mk m(2)] m(1) n snoc by (simp add: descend_snoc)
qed

text \<open>After the creation the walk arrives at the same directory, or at the new node, which it does not leave.\<close>

lemma descend_created:
  assumes wf: "vfs_wf v" and n: "n < length (v_nodes v)" and c: "node_createNode ty b n v = Inr (Some k, v')"
  shows "m < length (v_nodes v) \<Longrightarrow> descend v m ss = Some n \<Longrightarrow> descend v' m ss = Some n \<or> descend v' m ss = Some k"
proof (induction ss arbitrary: m)
  case (Cons s ss)
  note cn = create_nodes [OF assms]
  have dir: "is_dir v m" using Cons.prems(2) by (auto split: if_splits)
  have known: "x < length (v_nodes v)" if "x \<in> set (kids v m)" for x by (rule kids_known [OF wf Cons.prems(1) that])
  have same: "find (\<lambda>c. seg_of v' c = s \<and> is_dir v' c) (kids v m) = find (\<lambda>c. seg_of v c = s \<and> is_dir v c) (kids v m)"
    by (rule find_cong) (use known cn(8,9) in auto)
  let ?old = "find (\<lambda>c. seg_of v c = s \<and> is_dir v c) (kids v m)"
  have new: "find (\<lambda>c. seg_of v' c = s \<and> is_dir v' c) (kids v' m) =
      (case ?old of Some x \<Rightarrow> Some x | None \<Rightarrow> if dest v m = dest v n \<and> b = s \<and> ty = Directory then Some k else None)"
    unfolding cn(10) [OF Cons.prems(1)] find_append same using cn(4,5) by (auto split: option.splits)
  show ?case
  proof (cases ?old)
    case (Some x)
    then have "x < length (v_nodes v)" "descend v x ss = Some n" using find_known [OF Some] known Cons.prems(2) dir by auto
    then show ?thesis using Cons.IH [of x] Some new dir cn(9) [OF Cons.prems(1)] by simp
  next
    case None
    then have st: "descend v m ss = Some n" using Cons.prems(2) dir by simp
    have "descend v' k ss = Some k" if "ty = Directory" using descend_empty [of v' k ss] cn(5,6) that by simp
    then show ?thesis using Cons.IH [OF Cons.prems(1) st] None new dir cn(9) [OF Cons.prems(1)] by auto
  qed
qed simp

lemma created_found:
  assumes inv: "vfs_inv v" and ss: "\<forall>s \<in> set (ss @ [b]). proper s"
    and c: "vfs_createNode cwd (abs_path (ss @ [b])) ty v = Inr (Some k, v')"
  shows "vfs_lookup cwd' v' (abs_path (ss @ [b])) = Inr (Some k) \<and> vfs_inv v' \<and> k < length (v_nodes v') \<and>
    length (v_nodes v) < length (v_nodes v') \<and> seg_of v' k = b \<and> (is_dir v' k \<longleftrightarrow> ty = Directory) \<and>
    (\<forall>m < length (v_nodes v). seg_of v' m = seg_of v m \<and> is_dir v' m = is_dir v m \<and> set (kids v m) \<subseteq> set (kids v' m))"
proof -
  have wf: "vfs_wf v" and r: "v_rootNode v < length (v_nodes v)" using inv by (simp_all add: vfs_inv_def vfs_wf_def)
  note f = abs_path_facts [OF ss]
  have fn: "path_filename (abs_path (ss @ [b])) = b" by (rule abs_path_filename) (use ss in \<open>simp add: proper_def\<close>)
  have ne: "b \<noteq> []" using ss by (simp add: proper_def)
  have none: "vfs_lookup cwd v (abs_path (ss @ [b])) = Inr None"
    using c f by (auto simp: vfs_createNode_def rbind_Inr split: if_splits)
  obtain n where par: "vfs_lookup cwd v (path_up (abs_path (ss @ [b]))) = Inr (Some n)" and cr: "node_createNode ty b n v = Inr (Some k, v')"
    using c f none fn ne by (auto simp: vfs_createNode_def rbind_Inr split: option.splits)
  have n: "n < length (v_nodes v)" and d: "descend v (v_rootNode v) ss = Some n"
  proof -
    have "n < length (v_nodes v) \<and> descend v (v_rootNode v) ss = Some n"
    proof (cases ss rule: rev_cases)
      case Nil
      then show ?thesis using par parent_lookup [OF ss] r by simp
    next
      case (snoc us l)
      have us: "\<forall>s \<in> set (us @ [l]). proper s" using ss snoc by simp
      then obtain m where m: "descend v (v_rootNode v) us = Some m" "last_step v m l = Some n"
        using par parent_lookup [OF ss] lookup_abs [OF wf us, of cwd] snoc by (auto split: option.splits)
      have mk: "m < length (v_nodes v)" by (rule descend_known [OF wf r m(1)])
      have nk: "n < length (v_nodes v)"
        using m(2) mk kids_known [OF wf mk] by (auto simp: last_step_def split: if_splits dest: find_known)
      have "is_dir v n" by (rule create_nodes(7) [OF wf nk cr])
      then show ?thesis using descend_last_step [OF inv mk m(2)] m(1) nk snoc by (simp add: descend_snoc)
    qed
    then show "n < length (v_nodes v)" "descend v (v_rootNode v) ss = Some n" by simp_all
  qed
  note cn = create_nodes [OF wf n cr]
  have "last_step v n b = None" using none lookup_abs [OF wf ss, of cwd] d by simp
  then have b: "b \<noteq> seg_of v n" "find (\<lambda>c. seg_of v c = b) (kids v n) = None"
    using cn(7) by (auto simp: last_step_def split: if_splits)
  have kb: "last_step v' n b = Some k"
  proof -
    have "find (\<lambda>c. seg_of v' c = b) (kids v n) = None"
      using b(2) cn(8) kids_known [OF wf n] by (auto simp: find_None_iff)
    then show ?thesis using b(1) cn(4,7) cn(8,9,10) [OF n] by (simp add: last_step_def find_append)
  qed
  have kk: "last_step v' k b = Some k" using cn(4) by (simp add: last_step_def)
  have "vfs_lookup cwd' v' (abs_path (ss @ [b])) = Inr (Some k)"
    using lookup_abs [OF cn(11) ss, of cwd'] descend_created [OF wf n cr r d] cn(3) kb kk by auto
  moreover have "vfs_inv v'"
    unfolding vfs_inv_def
  proof (intro conjI allI impI ballI)
    show "vfs_wf v'" by (rule cn(11))
    fix m c assume m: "m < length (v_nodes v')" "c \<in> set (kids v' m)"
    show "seg_of v' c \<noteq> seg_of v' m"
    proof (cases "m < length (v_nodes v)")
      case True
      have sm: "dest v m = dest v n \<Longrightarrow> seg_of v m = seg_of v n" by (simp add: seg_of_def)
      have "c \<in> set (kids v m) \<Longrightarrow> seg_of v c \<noteq> seg_of v m" using inv True unfolding vfs_inv_def by blast
      then show ?thesis using m(2) cn(4,8,10) True b(1) sm kids_known [OF wf True, of c] by (auto split: if_splits)
    next
      case False
      have "m \<noteq> length (v_nodes v) \<Longrightarrow> m = k" using False m(1) cn(1,2) by linarith
      then show ?thesis using m(2) cn(6,12) by (cases "m = length (v_nodes v)") auto
    qed
  qed
  ultimately show ?thesis using cn(1,2,4,5,8,9,10) by auto
qed

section \<open>Mounting\<close>

text \<open>A new node that is not mountable, the mounted node of a mount point with the same name, and a child of a directory of devices.\<close>

lemma append_node:
  assumes inv: "vfs_inv v" and x: "plain x" "node_children x = []"
    and v': "v_nodes v' = v_nodes v @ [x]" "v_rootNode v' = v_rootNode v"
  shows "vfs_inv v'" "\<And>m. m < length (v_nodes v) \<Longrightarrow> seg_of v' m = seg_of v m" "seg_of v' (length (v_nodes v)) = node_segment x"
proof -
  let ?l = "length (v_nodes v)"
  have wf: "vfs_wf v" using inv by (simp add: vfs_inv_def)
  have nd: "v_nodes v' ! m = (if m < ?l then v_nodes v ! m else x)" if "m < Suc ?l" for m
    using that by (auto simp: v'(1) nth_append less_Suc_eq)
  have dm: "dest v' m = dest v m" if "m < ?l" for m using nd [of m] that by (simp add: dest_def)
  have dl: "dest v' ?l = ?l" using nd [of ?l] x(1) by (cases x) (simp_all add: dest_def)
  have nm: "v_nodes v' ! dest v m = v_nodes v ! dest v m" if "m < ?l" for m
    using nd [of "dest v m"] dest_plain [OF wf that] by simp
  show sg: "seg_of v' m = seg_of v m" if "m < ?l" for m using dm [OF that] nm [OF that] by (simp add: seg_of_def)
  have kd: "kids v' m = kids v m" if "m < ?l" for m using dm [OF that] nm [OF that] by (simp add: kids_def)
  have kl: "kids v' ?l = []" using nd [of ?l] x(2) by (simp add: kids_def dl)
  show "seg_of v' ?l = node_segment x" using nd [of ?l] by (simp add: seg_of_def dl)
  have ok: "mount_ok (v_nodes v') (v_nodes v ! m)" if "m < ?l" for m
  proof -
    have "mount_ok (v_nodes v) (v_nodes v ! m)" using wf that by (simp add: vfs_wf_def)
    then show ?thesis using nd by (cases "v_nodes v ! m") (auto simp: mount_ok_def v'(1) split: option.splits)
  qed
  have okx: "mount_ok (v_nodes v') x" using x(1) by (cases x) (simp_all add: mount_ok_def)
  have ch: "c < ?l" if "m < ?l" "c \<in> set (node_children (v_nodes v ! m))" for m c using wf that by (simp add: vfs_wf_def)
  have len: "length (v_nodes v') = Suc ?l" using v'(1) by simp
  have "vfs_wf v'"
    unfolding vfs_wf_def len v'(2)
  proof (intro conjI allI impI ballI)
    show "v_rootNode v < Suc ?l" using wf by (simp add: vfs_wf_def)
    fix m assume m: "m < Suc ?l"
    show "mount_ok (v_nodes v') (v_nodes v' ! m)" using nd [OF m] ok [of m] okx by simp
    fix c assume "c \<in> set (node_children (v_nodes v' ! m))"
    then show "c < Suc ?l" using nd [OF m] ch [of m c] x(2) by (auto split: if_splits)
  qed
  moreover have "seg_of v' c \<noteq> seg_of v' m" if "m < Suc ?l" "c \<in> set (kids v' m)" for m c
  proof (cases "m < ?l")
    case True
    then have c: "c \<in> set (kids v m)" using that(2) kd by simp
    then have "c < ?l" by (rule kids_known [OF wf True])
    moreover have "seg_of v c \<noteq> seg_of v m" using inv True c unfolding vfs_inv_def by blast
    ultimately show ?thesis using sg True by simp
  next
    case False
    then have "m = ?l" using that(1) by simp
    then show ?thesis using that(2) kl by simp
  qed
  ultimately show "vfs_inv v'" unfolding vfs_inv_def len by blast
qed

lemma mount_node:
  assumes inv: "vfs_inv v" and n: "n < length (v_nodes v)" "v_nodes v ! n = MountableNode i m0"
    and k: "k < length (v_nodes v)" "plain (v_nodes v ! k)" "seg_of v k = seg_of v n"
    and v': "v_nodes v' = (v_nodes v)[n := MountableNode i (Some k)]" "v_rootNode v' = v_rootNode v"
  shows "vfs_inv v'"
proof -
  let ?l = "length (v_nodes v)"
  have wf: "vfs_wf v" using inv by (simp add: vfs_inv_def)
  have len: "length (v_nodes v') = ?l" using v'(1) by simp
  have nd: "v_nodes v' ! m = (if m = n then MountableNode i (Some k) else v_nodes v ! m)" if "m < ?l" for m
    using that by (auto simp: v'(1) nth_list_update)
  have pl: "m \<noteq> n" if "plain (v_nodes v ! m)" for m using that n(2) by auto
  have dk: "dest v k = k" using k(2) by (cases "v_nodes v ! k") (simp_all add: dest_def)
  have dm: "dest v' m = (if m = n then k else dest v m)" if "m < ?l" for m using nd [OF that] by (simp add: dest_def)
  have nm: "v_nodes v' ! dest v m = v_nodes v ! dest v m" if "m < ?l" for m
    using nd [of "dest v m"] dest_plain [OF wf that] pl by auto
  have sg: "seg_of v' m = seg_of v m" if "m < ?l" for m
    using dm [OF that] nm [OF that] nm [OF k(1)] k(3) dk by (simp add: seg_of_def)
  have kd: "kids v' m = kids v (if m = n then k else m)" if "m < ?l" for m
    using dm [OF that] nm [OF that] nm [OF k(1)] dk by (simp add: kids_def)
  have pp: "plain (v_nodes v' ! m)" if "m < ?l" "plain (v_nodes v ! m)" for m using nd [OF that(1)] pl [OF that(2)] that(2) by simp
  have ok: "mount_ok (v_nodes v') (v_nodes v' ! m)" if m: "m < ?l" for m
  proof -
    have "mount_ok (v_nodes v) (v_nodes v ! m)" using wf m by (simp add: vfs_wf_def)
    then show ?thesis using nd [OF m] n(2) pp k(1,2) len
      by (cases "v_nodes v ! m") (auto simp: mount_ok_def split: option.splits if_splits)
  qed
  have ch: "c < ?l" if "m < ?l" "c \<in> set (node_children (v_nodes v ! m))" for m c using wf that by (simp add: vfs_wf_def)
  have "vfs_wf v'"
    unfolding vfs_wf_def len v'(2)
  proof (intro conjI allI impI ballI)
    show "v_rootNode v < ?l" using wf by (simp add: vfs_wf_def)
    fix m assume m: "m < ?l"
    show "mount_ok (v_nodes v') (v_nodes v' ! m)" by (rule ok [OF m])
    fix c assume "c \<in> set (node_children (v_nodes v' ! m))"
    then show "c < ?l" using nd [OF m] ch [OF m] by (auto split: if_splits)
  qed
  moreover have "seg_of v' c \<noteq> seg_of v' m" if m: "m < ?l" and c: "c \<in> set (kids v' m)" for m c
  proof -
    let ?m = "if m = n then k else m"
    have m': "?m < ?l" using m k(1) by simp
    have c': "c \<in> set (kids v ?m)" using c kd [OF m] by simp
    have "c < ?l" by (rule kids_known [OF wf m' c'])
    moreover have "seg_of v c \<noteq> seg_of v ?m" using inv m' c' unfolding vfs_inv_def by blast
    moreover have "seg_of v ?m = seg_of v m" using k(3) by simp
    ultimately show ?thesis using sg m by simp
  qed
  ultimately show "vfs_inv v'" unfolding vfs_inv_def len by blast
qed

lemma add_device:
  assumes inv: "vfs_inv v" and n: "n < length (v_nodes v)" "v_nodes v ! n = DevFileSystemNode s ns"
    and k: "k < length (v_nodes v)" "seg_of v k \<noteq> s"
    and v': "v_nodes v' = (v_nodes v)[n := DevFileSystemNode s (ns @ [k])]" "v_rootNode v' = v_rootNode v"
  shows "vfs_inv v'"
proof -
  let ?l = "length (v_nodes v)"
  have wf: "vfs_wf v" using inv by (simp add: vfs_inv_def)
  have len: "length (v_nodes v') = ?l" using v'(1) by simp
  have nd: "v_nodes v' ! m = (if m = n then DevFileSystemNode s (ns @ [k]) else v_nodes v ! m)" if "m < ?l" for m
    using that by (auto simp: v'(1) nth_list_update)
  have dm: "dest v' m = dest v m" if "m < ?l" for m using nd [OF that] n(2) by (simp add: dest_def)
  have nm: "v_nodes v' ! dest v m = (if dest v m = n then DevFileSystemNode s (ns @ [k]) else v_nodes v ! dest v m)" if "m < ?l" for m
    using nd [of "dest v m"] dest_plain [OF wf that] by simp
  have sg: "seg_of v' m = seg_of v m" if "m < ?l" for m using dm [OF that] nm [OF that] n(2) by (simp add: seg_of_def)
  have kd: "kids v' m = kids v m @ (if dest v m = n then [k] else [])" if "m < ?l" for m
    using dm [OF that] nm [OF that] n(2) by (simp add: kids_def)
  have sn: "seg_of v m = s" if "dest v m = n" for m using that n(2) by (simp add: seg_of_def)
  have pp: "plain (v_nodes v' ! m)" if "m < ?l" "plain (v_nodes v ! m)" for m using nd [OF that(1)] that(2) by simp
  have ok: "mount_ok (v_nodes v') (v_nodes v' ! m)" if m: "m < ?l" for m
  proof -
    have "mount_ok (v_nodes v) (v_nodes v ! m)" using wf m by (simp add: vfs_wf_def)
    then show ?thesis using nd [OF m] n(2) pp len
      by (cases "v_nodes v ! m") (auto simp: mount_ok_def split: option.splits if_splits)
  qed
  have ch: "c < ?l" if "m < ?l" "c \<in> set (node_children (v_nodes v ! m))" for m c using wf that by (simp add: vfs_wf_def)
  have "vfs_wf v'"
    unfolding vfs_wf_def len v'(2)
  proof (intro conjI allI impI ballI)
    show "v_rootNode v < ?l" using wf by (simp add: vfs_wf_def)
    fix m assume m: "m < ?l"
    show "mount_ok (v_nodes v') (v_nodes v' ! m)" by (rule ok [OF m])
    fix c assume "c \<in> set (node_children (v_nodes v' ! m))"
    then show "c < ?l" using nd [OF m] ch [OF m] k(1) n(2) by (auto split: if_splits)
  qed
  moreover have "seg_of v' c \<noteq> seg_of v' m" if m: "m < ?l" and c: "c \<in> set (kids v' m)" for m c
  proof (cases "c \<in> set (kids v m)")
    case True
    then have "c < ?l" by (rule kids_known [OF wf m])
    moreover have "seg_of v c \<noteq> seg_of v m" using inv m True unfolding vfs_inv_def by blast
    ultimately show ?thesis using sg m by simp
  next
    case False
    then have "c = k" "dest v m = n" using c kd [OF m] by (auto split: if_splits)
    then show ?thesis using sg m k sn by simp
  qed
  ultimately show "vfs_inv v'" unfolding vfs_inv_def len by blast
qed

lemma found_name:
  assumes wf: "vfs_wf v" and ss: "\<forall>s \<in> set (ss @ [b]). proper s" and l: "vfs_lookup cwd v (abs_path (ss @ [b])) = Inr (Some n)"
  shows "n < length (v_nodes v)" "seg_of v n = b"
proof -
  have r: "v_rootNode v < length (v_nodes v)" using wf by (simp add: vfs_wf_def)
  obtain m where m: "descend v (v_rootNode v) ss = Some m" "last_step v m b = Some n"
    using l lookup_abs [OF wf ss, of cwd] by (auto split: option.splits)
  have "m < length (v_nodes v)" by (rule descend_known [OF wf r m(1)])
  then show "n < length (v_nodes v)" "seg_of v n = b"
    using m(2) kids_known [OF wf, of m n] by (auto simp: last_step_def split: if_splits dest: find_known)
qed

lemma mount_inv:
  assumes inv: "vfs_inv v" and ss: "\<forall>s \<in> set (ss @ [b]). proper s"
    and m: "mountFilesystem (\<lambda>_. devfs_factory) cwd fstype source (abs_path (ss @ [b])) v = Inr (r, v')"
  shows "vfs_inv v'"
proof (cases "v' = v")
  case False
  have wf: "vfs_wf v" using inv by (simp add: vfs_inv_def)
  have fn: "path_filename (abs_path (ss @ [b])) = b" by (rule abs_path_filename) (use ss in \<open>simp add: proper_def\<close>)
  let ?l = "length (v_nodes v)" and ?v1 = "v\<lparr>v_nodes := v_nodes v @ [DevFileSystemNode b []]\<rparr>"
  obtain n where n: "vfs_lookup cwd v (abs_path (ss @ [b])) = Inr (Some n)" "(r, v') = mountNode n ?l ?v1"
    using m False fn
    by (auto simp: mountFilesystem_def devfs_factory_def rbind_def split: sum.splits option.splits if_splits)
  note f = found_name [OF wf ss n(1)]
  have x: "plain (DevFileSystemNode b [])" "node_children (DevFileSystemNode b []) = []" by simp_all
  have "v_nodes ?v1 = v_nodes v @ [DevFileSystemNode b []]" "v_rootNode ?v1 = v_rootNode v" by simp_all
  note a = append_node [OF inv x this]
  have nn: "v_nodes ?v1 ! n = v_nodes v ! n" "n < length (v_nodes ?v1)" using f(1) by (simp_all add: nth_append)
  show ?thesis
  proof (cases "v_nodes v ! n")
    case (MountableNode i m0)
    then have v': "v_nodes v' = (v_nodes ?v1)[n := MountableNode i (Some ?l)]" "v_rootNode v' = v_rootNode ?v1"
      using n(2) nn(1) by (simp_all add: mountNode_def)
    show ?thesis
    proof (rule mount_node [OF a(1) nn(2) _ _ _ _ v'])
      show "v_nodes ?v1 ! n = MountableNode i m0" using nn(1) MountableNode by simp
      show "seg_of ?v1 ?l = seg_of ?v1 n" using a(2) [OF f(1)] a(3) f(2) by simp
    qed simp_all
  qed (use n(2) nn(1) a(1) in \<open>simp_all add: mountNode_def\<close>)
qed (use inv in simp)

lemma device_inv:
  assumes inv: "vfs_inv v" and n: "n < length (v_nodes v)" "node_segment (v_nodes v ! n) \<noteq> name"
    and r: "registerDevice n name fd v = (r, v')"
  shows "vfs_inv v'"
proof (cases "v' = v")
  case False
  let ?l = "length (v_nodes v)" and ?v1 = "v\<lparr>v_nodes := v_nodes v @ [DevVFSNode name fd]\<rparr>"
  obtain s ns where d: "v_nodes v ! n = DevFileSystemNode s ns" "v_nodes v' = (v_nodes ?v1)[n := DevFileSystemNode s (ns @ [?l])]"
      "v_rootNode v' = v_rootNode ?v1"
    using r False n(1) by (auto simp: registerDevice_def list_update_append split: VFSNode.splits if_splits)
  have x: "plain (DevVFSNode name fd)" "node_children (DevVFSNode name fd) = []" by simp_all
  have "v_nodes ?v1 = v_nodes v @ [DevVFSNode name fd]" "v_rootNode ?v1 = v_rootNode v" by simp_all
  note a = append_node [OF inv x this]
  show ?thesis
    by (rule add_device [OF a(1) _ _ _ _ d(2,3)]) (use n d(1) a(3) in \<open>auto simp: nth_append\<close>)
qed (use inv in simp)

section \<open>Properties\<close>

text \<open>
  Trees made by creating files and directories and mounting device file systems under absolute paths in normal form, and by
  registering devices, none under the name of the file system itself. The state after the driver of the device file system has run is one of them.
\<close>

inductive vfs_runs :: "vfs \<Rightarrow> bool" where
  boot: "vfs_runs (new_vfs st)"
| create: "vfs_runs v \<Longrightarrow> ss \<noteq> [] \<Longrightarrow> \<forall>s \<in> set ss. proper s \<Longrightarrow> vfs_createNode cwd (abs_path ss) ty v = Inr (r, v') \<Longrightarrow> vfs_runs v'"
| register_fs: "vfs_runs v \<Longrightarrow> registerFilesystem fstype f v = (r, v') \<Longrightarrow> vfs_runs v'"
| mount: "vfs_runs v \<Longrightarrow> ss \<noteq> [] \<Longrightarrow> \<forall>s \<in> set ss. proper s \<Longrightarrow>
    mountFilesystem (\<lambda>_. devfs_factory) cwd fstype source (abs_path ss) v = Inr (r, v') \<Longrightarrow> vfs_runs v'"
| register_device: "vfs_runs v \<Longrightarrow> n < length (v_nodes v) \<Longrightarrow> node_segment (v_nodes v ! n) \<noteq> name \<Longrightarrow>
    registerDevice n name fd v = (r, v') \<Longrightarrow> vfs_runs v'"

lemma createNode_total:
  assumes inv: "vfs_inv v" and ss: "\<forall>s \<in> set (ss @ [b]). proper s"
  shows "\<exists>r v'. vfs_createNode cwd (abs_path (ss @ [b])) ty v = Inr (r, v') \<and> (r = None \<longrightarrow> v' = v)"
proof -
  have wf: "vfs_wf v" and r: "v_rootNode v < length (v_nodes v)" using inv by (simp_all add: vfs_inv_def vfs_wf_def)
  note f = abs_path_facts [OF ss]
  have fn: "path_filename (abs_path (ss @ [b])) = b" by (rule abs_path_filename) (use ss in \<open>simp add: proper_def\<close>)
  have ls: "m < length (v_nodes v) \<Longrightarrow> last_step v m x = Some n \<Longrightarrow> n < length (v_nodes v)" for m x n
    using kids_known [OF wf, of m] by (auto simp: last_step_def split: if_splits dest: find_known)
  have "\<exists>p. vfs_lookup cwd v (path_up (abs_path (ss @ [b]))) = Inr p \<and> (\<forall>n. p = Some n \<longrightarrow> n < length (v_nodes v))"
  proof (cases ss rule: rev_cases)
    case Nil
    then show ?thesis using parent_lookup [OF ss] r by simp
  next
    case (snoc us l)
    then have us: "\<forall>s \<in> set (us @ [l]). proper s" using ss by simp
    show ?thesis
      using parent_lookup [OF ss] lookup_abs [OF wf us, of cwd] descend_known [OF wf r, of us] ls snoc
      by (auto split: option.splits)
  qed
  then obtain p where p: "vfs_lookup cwd v (path_up (abs_path (ss @ [b]))) = Inr p" "\<And>n. p = Some n \<Longrightarrow> n < length (v_nodes v)" by blast
  have "\<exists>r v'. node_createNode ty x n v = Inr (r, v') \<and> (r = None \<longrightarrow> v' = v)" if "n < length (v_nodes v)" for n x
    using answering_dest [OF wf that] by (auto simp: node_createNode_def Let_def split: VFSNode.split prod.split)
  then show ?thesis
    using f fn p lookup_abs [OF wf ss, of cwd] by (auto simp: vfs_createNode_def Let_def split: option.split)
qed

lemma createNode_succeeds:
  assumes inv: "vfs_inv v" and ss: "\<forall>s \<in> set (ss @ [b]). proper s"
    and c: "vfs_createNode cwd (abs_path (ss @ [b])) ty v = Inr (r, v')"
  shows "r \<noteq> None \<longleftrightarrow> vfs_lookup cwd v (abs_path (ss @ [b])) = Inr None \<and>
    (\<exists>n m s ns. vfs_lookup cwd v (abs_path ss) = Inr (Some n) \<and> answering v n = Inr m \<and> v_nodes v ! m = TmpfsDirectoryNode s ns)"
proof -
  have wf: "vfs_wf v" using inv by (simp add: vfs_inv_def)
  note f = abs_path_facts [OF ss]
  have fn: "path_filename (abs_path (ss @ [b])) = b" by (rule abs_path_filename) (use ss in \<open>simp add: proper_def\<close>)
  have ne: "b \<noteq> []" using ss by (simp add: proper_def)
  have root: "vfs_lookup cwd v (abs_path []) = Inr (Some (v_rootNode v))"
    using trim_slash [of "[]"]
    by (simp add: vfs_lookup_def lookup_from_def abs_path_def is_absolute_def path_sanitize_def path_split_def trailing_slash_def)
  have up: "vfs_lookup cwd v (path_up (abs_path (ss @ [b]))) = vfs_lookup cwd v (abs_path ss)"
    using parent_lookup [OF ss] root by simp
  have cr: "vfs_createNode cwd (abs_path (ss @ [b])) ty v =
      rbind (vfs_lookup cwd v (abs_path (ss @ [b]))) (\<lambda>existing. if existing \<noteq> None then Inr (None, v) else
        rbind (vfs_lookup cwd v (abs_path ss)) (\<lambda>node. case node of None \<Rightarrow> Inr (None, v) | Some n \<Rightarrow> node_createNode ty b n v))"
    unfolding vfs_createNode_def Let_def f(1) [simplified] f(2) [simplified] fn up using ne by (simp only: if_False)
  have nc: "(x \<noteq> None) = (\<exists>m s ns. answering v n = Inr m \<and> v_nodes v ! m = TmpfsDirectoryNode s ns)"
    if "node_createNode ty b n v = Inr (x, y)" for n x y
    using that
    by (auto simp: node_createNode_def rbind_def split: sum.splits VFSNode.splits prod.splits)
  show ?thesis
    using c nc unfolding cr by (auto simp: rbind_def split: sum.splits if_splits option.splits)
qed

lemma vfs_runs_inv: "vfs_runs v \<Longrightarrow> vfs_inv v"
proof (induction rule: vfs_runs.induct)
  case (boot st)
  show ?case by (simp add: new_vfs_def vfs_inv_def vfs_wf_def mount_ok_def kids_def dest_def)
next
  case (create v ss cwd ty r v')
  then obtain us b where ss: "ss = us @ [b]" by (cases ss rule: rev_cases) auto
  show ?case
  proof (cases r)
    case None
    then show ?thesis using create createNode_total [OF create.IH, of us b cwd ty] ss by auto
  next
    case (Some k)
    then show ?thesis using created_found [OF create.IH, of us b cwd ty k v'] create ss by simp
  qed
next
  case (register_fs v fstype f r v')
  then show ?case
    by (auto simp: registerFilesystem_def vfs_inv_def vfs_wf_def kids_def seg_of_def dest_def split: if_splits)
next
  case (mount v ss cwd fstype source r v')
  then obtain us b where "ss = us @ [b]" by (cases ss rule: rev_cases) auto
  then show ?case using mount_inv [OF mount.IH, of us b cwd fstype source r v'] mount by simp
next
  case (register_device v n name fd r v')
  then show ?case using device_inv by blast
qed

text \<open>The tree when the driver of the device file system has run.\<close>

definition empty_store :: fd_store where
  "empty_store = \<lparr>fs_mem = \<lambda>_. 0, fs_vectors = [], fs_base = \<lambda>_. 0x80200000, fs_pipes = []\<rparr>"

definition dev_vfs :: vfs where
  "dev_vfs = \<lparr>v_nodes = [TmpfsDirectoryNode ''/'' [2], TmpfsDirectoryNode ''dev'' [], MountableNode 1 (Some 3), DevFileSystemNode ''dev'' []],
     v_store = empty_store, v_rootNode = 0, v_supportedFs = [(''devfs'', 0)]\<rparr>"

lemma names_proper: "proper ''dev''" "proper ''home''" "proper ''nowhere''"
  by (simp_all add: proper_def seg_free_def separator_def)

lemma dev_path: "''/dev'' = abs_path [''dev'']"
  by (simp add: abs_path_def separator_def)

text \<open>What creating a node below the root comes to when there is no node of that name.\<close>

lemma create_below_root:
  assumes wf: "vfs_wf v" and b: "proper b" and r: "last_step v (v_rootNode v) b = None"
  shows "vfs_createNode cwd (abs_path [b]) ty v = node_createNode ty b (v_rootNode v) v"
proof -
  have p: "\<forall>s \<in> set ([] @ [b]). proper s" using b by simp
  have "vfs_lookup cwd v (abs_path [b]) = Inr None" using lookup_abs [OF wf p, of cwd] r by simp
  moreover have "vfs_lookup cwd v (path_up (abs_path [b])) = Inr (Some (v_rootNode v))" using parent_lookup [OF p] by simp
  moreover have "path_filename (abs_path [b]) = b" using abs_path_filename [of b "[]"] b by (simp add: proper_def)
  ultimately show ?thesis using abs_path_facts [of "[b]"] b by (simp add: vfs_createNode_def proper_def)
qed

lemmas tree_defs = last_step_def seg_of_def dest_def is_dir_def kids_def answering_def

lemma dev_vfs_boots: "vfs_dev_init None (new_vfs empty_store) = Inr dev_vfs \<and> vfs_runs dev_vfs"
proof -
  let ?v0 = "snd (registerFilesystem ''devfs'' 0 (new_vfs empty_store))"
  let ?v1 = "dev_vfs\<lparr>v_nodes := [TmpfsDirectoryNode ''/'' [2], TmpfsDirectoryNode ''dev'' [], MountableNode 1 None]\<rparr>"
  have r0: "vfs_runs ?v0" by (rule vfs_runs.register_fs [OF vfs_runs.boot]) (rule prod.collapse [symmetric])
  have wf0: "vfs_wf ?v0" using vfs_runs_inv [OF r0] by (simp add: vfs_inv_def)
  have c: "vfs_createNode None (abs_path [''dev'']) Directory ?v0 = Inr (Some 2, ?v1)"
    by (subst create_below_root [OF wf0 names_proper(1)])
      (simp_all add: registerFilesystem_def new_vfs_def tree_defs node_createNode_def createMountableNode_def dev_vfs_def)
  have r1: "vfs_runs ?v1" by (rule vfs_runs.create [OF r0 _ _ c]) (use names_proper in simp_all)
  have wf1: "vfs_wf ?v1" using vfs_runs_inv [OF r1] by (simp add: vfs_inv_def)
  have l: "vfs_lookup None ?v1 (abs_path [''dev'']) = Inr (Some 2)"
    using lookup_abs [OF wf1, of "[]" "''dev''" None] names_proper by (simp add: tree_defs dev_vfs_def)
  have fn: "path_filename (abs_path [''dev'']) = ''dev''"
    using abs_path_filename [of "''dev''" "[]"] names_proper by (simp add: proper_def)
  have m: "mountFilesystem (\<lambda>_. devfs_factory) None ''devfs'' ''none'' (abs_path [''dev'']) ?v1 = Inr (True, dev_vfs)"
    using l fn by (simp add: mountFilesystem_def isMounted_def devfs_factory_def mountNode_def dev_vfs_def)
  have "vfs_runs dev_vfs" by (rule vfs_runs.mount [OF r1 _ _ m]) (use names_proper in simp_all)
  then show ?thesis using c m by (simp add: vfs_dev_init_def vfs_mkdir_def dev_path)
qed

lemma dev_vfs_wf: "vfs_wf dev_vfs"
  using vfs_runs_inv dev_vfs_boots by (simp add: vfs_inv_def)

text \<open>C35: in a tree as described above, creating a file or directory under an absolute path in normal form never faults. It succeeds exactly
  when the path leads nowhere and the path of its directory leads to a directory of the memory file system. Then the new node has
  the last segment of the path as its name and the type asked for, looking the path up gives that
  node, and every node that was there keeps its name, its type and its children; otherwise nothing changes.\<close>

theorem vfs_create_lookup:
  assumes "vfs_runs v" "ss \<noteq> []" "\<forall>s \<in> set ss. proper s"
  shows "\<exists>r v'. vfs_createNode cwd (abs_path ss) ty v = Inr (r, v') \<and>
    (r \<noteq> None \<longleftrightarrow> vfs_lookup cwd v (abs_path ss) = Inr None \<and>
       (\<exists>n m s ns. vfs_lookup cwd v (abs_path (butlast ss)) = Inr (Some n) \<and> answering v n = Inr m \<and>
          v_nodes v ! m = TmpfsDirectoryNode s ns)) \<and>
    (case r of
       None \<Rightarrow> v' = v
     | Some k \<Rightarrow> vfs_lookup cwd v' (abs_path ss) = Inr (Some k) \<and> getPathSegment v' k = Inr (last ss) \<and> getType v' k = Inr ty \<and>
         (\<forall>m < length (v_nodes v). getPathSegment v' m = getPathSegment v m \<and> getType v' m = getType v m \<and>
            set (kids v m) \<subseteq> set (kids v' m)))"
proof -
  obtain us b where ss: "ss = us @ [b]" using assms(2) by (cases ss rule: rev_cases) auto
  have p: "\<forall>s \<in> set (us @ [b]). proper s" using assms(3) ss by simp
  have inv: "vfs_inv v" by (rule vfs_runs_inv [OF assms(1)])
  obtain r v' where c: "vfs_createNode cwd (abs_path (us @ [b])) ty v = Inr (r, v')" "r = None \<longrightarrow> v' = v"
    using createNode_total [OF inv p] by blast
  note ok = createNode_succeeds [OF inv p c(1)]
  have "case r of
       None \<Rightarrow> v' = v
     | Some k \<Rightarrow> vfs_lookup cwd v' (abs_path ss) = Inr (Some k) \<and> getPathSegment v' k = Inr (last ss) \<and> getType v' k = Inr ty \<and>
         (\<forall>m < length (v_nodes v). getPathSegment v' m = getPathSegment v m \<and> getType v' m = getType v m \<and>
            set (kids v m) \<subseteq> set (kids v' m))"
  proof (cases r)
    case None
    then show ?thesis using c by simp
  next
    case (Some k)
    then have c1: "vfs_createNode cwd (abs_path (us @ [b])) ty v = Inr (Some k, v')" using c(1) by simp
    note F = created_found [OF inv p c1, of cwd]
    have wf: "vfs_wf v" "vfs_wf v'" using inv F by (simp_all add: vfs_inv_def)
    have ty: "(if is_dir v' k then Directory else File) = ty" using F by (cases ty) auto
    show ?thesis using F Some ss ty method_dest [OF wf(1)] method_dest [OF wf(2)] by auto
  qed
  with c(1) ok show ?thesis unfolding ss by (intro exI [of _ r] exI [of _ v']) simp
qed

lemma vfs_create_lookup_witness:
  "\<exists>k v'. vfs_createNode None (abs_path [''home'']) Directory dev_vfs = Inr (Some k, v') \<and>
     vfs_lookup None v' (abs_path [''home'']) = Inr (Some k) \<and> getPathSegment v' k = Inr ''home'' \<and> getType v' k = Inr Directory \<and>
     (\<forall>m < length (v_nodes dev_vfs). getPathSegment v' m = getPathSegment dev_vfs m \<and>
        getType v' m = getType dev_vfs m \<and> set (kids dev_vfs m) \<subseteq> set (kids v' m))"
proof -
  have none: "vfs_lookup None dev_vfs (abs_path [''home'']) = Inr None"
    using lookup_abs [OF dev_vfs_wf, of "[]" "''home''" None] names_proper by (simp add: tree_defs dev_vfs_def)
  have root: "vfs_lookup None dev_vfs (abs_path []) = Inr (Some 0)"
    using trim_slash [of "[]"]
    by (simp add: vfs_lookup_def lookup_from_def abs_path_def is_absolute_def path_sanitize_def path_split_def trailing_slash_def dev_vfs_def)
  have "answering dev_vfs 0 = Inr 0" "v_nodes dev_vfs ! 0 = TmpfsDirectoryNode ''/'' [2]" by (simp_all add: answering_def dev_vfs_def)
  moreover have p: "\<forall>s \<in> set [''home'']. proper s" using names_proper by simp
  ultimately show ?thesis
    using vfs_create_lookup [OF conjunct2 [OF dev_vfs_boots] _ p, of None Directory] none root
    by (auto split: option.splits)
qed

text \<open>A directory on the way that does not exist is passed over. When the absolute path \<open>us\<close> leads to a directory that has no
  directory of the name \<open>a\<close>, looking up a path that goes on with \<open>a\<close> and then \<open>ss\<close> gives what the path without \<open>a\<close> gives, instead of
  nothing.\<close>

theorem vfs_lookup_skips_missing:
  assumes "vfs_runs v" "proper a" "ss \<noteq> []" "\<forall>s \<in> set (us @ ss). proper s"
    and "vfs_lookup cwd v (abs_path us) = Inr (Some n)" "getType v n = Inr Directory" "childNodes v n = Inr cs"
    and "\<forall>c \<in> set cs. \<not> (getPathSegment v c = Inr a \<and> getType v c = Inr Directory)"
  shows "vfs_lookup cwd v (abs_path (us @ a # ss)) = vfs_lookup cwd v (abs_path (us @ ss))"
proof -
  have inv: "vfs_inv v" by (rule vfs_runs_inv [OF assms(1)])
  then have wf: "vfs_wf v" by (simp add: vfs_inv_def)
  then have r: "v_rootNode v < length (v_nodes v)" by (simp add: vfs_wf_def)
  obtain ts b where ss: "ss = ts @ [b]" using assms(3) by (cases ss rule: rev_cases) auto
  have n: "n < length (v_nodes v)" and d: "descend v (v_rootNode v) us = Some n"
    using lookup_directory [OF inv _ assms(5,6)] assms(4) by simp_all
  have dir: "is_dir v n" and cs: "cs = kids v n" using method_dest(1,3) [OF wf n] assms(6,7) by (simp_all split: if_splits)
  have "find (\<lambda>c. seg_of v c = a \<and> is_dir v c) (kids v n) = None"
    using assms(8) method_dest(1,2) [OF wf kids_known [OF wf n]] unfolding cs by (auto simp: find_None_iff)
  then have "descend v (v_rootNode v) (us @ a # ts) = descend v (v_rootNode v) (us @ ts)"
    using d dir by (simp add: descend_append)
  then show ?thesis
    using lookup_abs [OF wf, of "us @ ts" b cwd] lookup_abs [OF wf, of "us @ a # ts" b cwd] assms(2,4) ss by simp
qed

definition home_vfs :: vfs where
  "home_vfs = dev_vfs\<lparr>v_nodes := [TmpfsDirectoryNode ''/'' [2, 5], TmpfsDirectoryNode ''dev'' [], MountableNode 1 (Some 3),
     DevFileSystemNode ''dev'' [], TmpfsDirectoryNode ''home'' [], MountableNode 4 None]\<rparr>"

lemma home_runs: "vfs_runs home_vfs"
proof (rule vfs_runs.create [OF conjunct2 [OF dev_vfs_boots]])
  show "vfs_createNode None (abs_path [''home'']) Directory dev_vfs = Inr (Some 5, home_vfs)"
    by (subst create_below_root [OF dev_vfs_wf names_proper(2)])
      (simp_all add: dev_vfs_def tree_defs node_createNode_def createMountableNode_def home_vfs_def)
qed (use names_proper in simp_all)

lemma vfs_lookup_skips_missing_witness:
  "vfs_lookup None home_vfs (abs_path ([''home''] @ ''nowhere'' # [''home''])) = vfs_lookup None home_vfs (abs_path ([''home''] @ [''home'']))"
proof (rule vfs_lookup_skips_missing [OF home_runs])
  have "vfs_wf home_vfs" using vfs_runs_inv [OF home_runs] by (simp add: vfs_inv_def)
  then show "vfs_lookup None home_vfs (abs_path [''home'']) = Inr (Some 5)"
    using lookup_abs [of home_vfs "[]" "''home''" None] names_proper by (simp add: tree_defs home_vfs_def dev_vfs_def)
  show "childNodes home_vfs 5 = Inr []" "getType home_vfs 5 = Inr Directory"
    by (simp_all add: childNodes_def getType_def answering_def home_vfs_def)
qed (use names_proper in simp_all)

end
