(* ===== verification/Nbuf.thy ===== *)
theory Nbuf
  imports Tcp_Socket Basic_Queue
begin

text \<open>
  Network buffers, src/kernel/lib/network/nbuf.h. The data of a buffer is the list of all bytes of its allocation, so that
  its length is \<open>buffer_capacity\<close>; a pointer into it is its offset. A buffer lies in one half of the address
  space, where the comparison of \<open>pointer_is_in_range\<close> is the one of offsets.
\<close>

section \<open>Bytes\<close>

definition bytes_at :: "nat \<Rightarrow> nat \<Rightarrow> u8 list \<Rightarrow> u8 list" where
  "bytes_at off n d = take n (drop off d)"

definition put_bytes :: "nat \<Rightarrow> u8 list \<Rightarrow> u8 list \<Rightarrow> u8 list" where
  "put_bytes off bs d = take off d @ bs @ drop (off + length bs) d"

definition get16 :: "nat \<Rightarrow> u8 list \<Rightarrow> u16" where
  "get16 off d = be16 (d ! off) (d ! (off + 1))"

definition get32 :: "nat \<Rightarrow> u8 list \<Rightarrow> u32" where
  "get32 off d = be32 (d ! off) (d ! (off + 1)) (d ! (off + 2)) (d ! (off + 3))"

lemma length_put_bytes [simp]: "off + length bs \<le> length d \<Longrightarrow> length (put_bytes off bs d) = length d"
  by (simp add: put_bytes_def)

lemma nth_put_bytes:
  "off + length bs \<le> length d \<Longrightarrow>
     put_bytes off bs d ! i = (if off \<le> i \<and> i < off + length bs then bs ! (i - off) else d ! i)"
  by (auto simp: put_bytes_def nth_append)

lemma length_bytes_at [simp]: "length (bytes_at off n d) = min n (length d - off)"
  by (simp add: bytes_at_def)

lemma nth_bytes_at [simp]: "i < n \<Longrightarrow> off + n \<le> length d \<Longrightarrow> bytes_at off n d ! i = d ! (off + i)"
  by (simp add: bytes_at_def)

lemma bytes_at_put_same: "off + length bs \<le> length d \<Longrightarrow> n = length bs \<Longrightarrow> bytes_at off n (put_bytes off bs d) = bs"
  by (simp add: bytes_at_def put_bytes_def)

lemma bytes_at_put_apart:
  assumes "o2 + length bs \<le> length d" "off + n \<le> length d" "off + n \<le> o2 \<or> o2 + length bs \<le> off"
  shows "bytes_at off n (put_bytes o2 bs d) = bytes_at off n d"
  using assms by (intro nth_equalityI) (auto simp: nth_put_bytes)

lemma put_put_same:
  assumes "off + length bs \<le> length d" "length cs = length bs"
  shows "put_bytes off bs (put_bytes off cs d) = put_bytes off bs d"
  using assms by (intro nth_equalityI) (auto simp: nth_put_bytes)

lemma put_put_apart:
  assumes "off + length bs \<le> length d" "o2 + length cs \<le> length d" "off + length bs \<le> o2 \<or> o2 + length cs \<le> off"
  shows "put_bytes off bs (put_bytes o2 cs d) = put_bytes o2 cs (put_bytes off bs d)"
  using assms by (intro nth_equalityI) (auto simp: nth_put_bytes)

lemma length_bytes16 [simp]: "length (bytes16 v) = 2"
  by (simp add: bytes16_def)

lemma length_bytes32 [simp]: "length (bytes32 v) = 4"
  by (simp add: bytes32_def)

text \<open>Bytes that follow do not matter.\<close>

lemma get_append:
  "off + 2 \<le> length d \<Longrightarrow> get16 off (d @ e) = get16 off d"
  "off + 4 \<le> length d \<Longrightarrow> get32 off (d @ e) = get32 off d"
  by (simp_all add: get16_def get32_def nth_append)

lemma put_bytes_append: "off + length bs \<le> length d \<Longrightarrow> put_bytes off bs (d @ e) = put_bytes off bs d @ e"
  by (simp add: put_bytes_def)

lemma bytes_at_append: "off + n \<le> length d \<Longrightarrow> bytes_at off n (d @ e) = bytes_at off n d"
  by (simp add: bytes_at_def)

section \<open>Buffers\<close>

record NetworkBuffer =
  nb_data :: "u8 list"
  nb_size :: nat
  nb_device :: string
  nb_l2 :: "nat option"
  nb_l3_proto :: u16
  nb_l3 :: "nat option"
  nb_l4_proto :: u16
  nb_l4 :: "nat option"

definition nbuf_capacity :: "NetworkBuffer \<Rightarrow> nat" where
  "nbuf_capacity nb = length (nb_data nb)"

abbreviation out_of_range :: fault where "out_of_range \<equiv> Assertion ''pointer_is_in_range''"
abbreviation out_of_bounds :: fault where "out_of_bounds \<equiv> Undefined ''access outside of a buffer''"

definition in_buffer :: "nat \<Rightarrow> nat \<Rightarrow> NetworkBuffer \<Rightarrow> bool" where
  "in_buffer off n nb \<longleftrightarrow> off + n \<le> length (nb_data nb)"

text \<open>The difference is one of unsigned numbers: past the end of the data it is large.\<close>

definition nbuf_size_from :: "NetworkBuffer \<Rightarrow> nat \<Rightarrow> u32 result" where
  "nbuf_size_from nb pos =
     rassert (pos < nbuf_capacity nb) out_of_range (Inr (of_nat (nb_size nb) - of_nat pos))"

definition nbuf_set_device :: "string \<Rightarrow> NetworkBuffer \<Rightarrow> NetworkBuffer" where
  "nbuf_set_device deviceName nb = nb\<lparr>nb_device := deviceName\<rparr>"

definition nbuf_set_l2 :: "nat \<Rightarrow> NetworkBuffer \<Rightarrow> NetworkBuffer result" where
  "nbuf_set_l2 off nb = rassert (off < nbuf_capacity nb) out_of_range (Inr (nb\<lparr>nb_l2 := Some off\<rparr>))"

definition nbuf_set_l3 :: "nat \<Rightarrow> u16 \<Rightarrow> NetworkBuffer \<Rightarrow> NetworkBuffer result" where
  "nbuf_set_l3 off proto nb =
     rassert (off < nbuf_capacity nb) out_of_range (Inr (nb\<lparr>nb_l3 := Some off, nb_l3_proto := proto\<rparr>))"

definition nbuf_set_l4 :: "nat \<Rightarrow> u16 \<Rightarrow> NetworkBuffer \<Rightarrow> NetworkBuffer result" where
  "nbuf_set_l4 off proto nb =
     rassert (off < nbuf_capacity nb) out_of_range (Inr (nb\<lparr>nb_l4 := Some off, nb_l4_proto := proto\<rparr>))"

definition nbuf_set_size :: "nat \<Rightarrow> NetworkBuffer \<Rightarrow> NetworkBuffer result" where
  "nbuf_set_size n nb = rassert (n \<le> nbuf_capacity nb) (Assertion ''size <= capacity'') (Inr (nb\<lparr>nb_size := n\<rparr>))"

definition nbuf_offset :: "NetworkBuffer \<Rightarrow> nat \<Rightarrow> nat result" where
  "nbuf_offset nb pos = rassert (pos < nbuf_capacity nb) out_of_range (Inr pos)"

text \<open>The header casts of ethernet.h, arp.h, ip.h, icmp.h, udp.h and tcp.h.\<close>

definition ETH_P_ARP :: u16 where "ETH_P_ARP = 0x0806"
definition ETH_P_IPv4 :: u16 where "ETH_P_IPv4 = 0x0800"
definition IPPROTO_ICMP :: u8 where "IPPROTO_ICMP = 1"
definition IPPROTO_UDP :: u8 where "IPPROTO_UDP = 17"

definition ethernet_hdr :: "NetworkBuffer \<Rightarrow> nat result" where
  "ethernet_hdr nb = (case nb_l2 nb of None \<Rightarrow> Inl (Assertion ''l2_offset'') | Some off \<Rightarrow> Inr off)"

definition l3_hdr :: "u16 \<Rightarrow> NetworkBuffer \<Rightarrow> nat result" where
  "l3_hdr proto nb =
     rassert (nb_l3_proto nb = proto) (Assertion ''l3_proto'')
       (case nb_l3 nb of None \<Rightarrow> Inl (Assertion ''l3_offset'') | Some off \<Rightarrow> Inr off)"

definition l4_hdr :: "u8 \<Rightarrow> NetworkBuffer \<Rightarrow> nat result" where
  "l4_hdr proto nb =
     rassert (nb_l4_proto nb = ucast proto) (Assertion ''l4_proto'')
       (case nb_l4 nb of None \<Rightarrow> Inl (Assertion ''l4_offset'') | Some off \<Rightarrow> Inr off)"

definition arp_hdr :: "NetworkBuffer \<Rightarrow> nat result" where "arp_hdr = l3_hdr ETH_P_ARP"
definition ip_hdr :: "NetworkBuffer \<Rightarrow> nat result" where "ip_hdr = l3_hdr ETH_P_IPv4"
definition icmp_v4_hdr :: "NetworkBuffer \<Rightarrow> nat result" where "icmp_v4_hdr = l4_hdr IPPROTO_ICMP"
definition udp_hdr :: "NetworkBuffer \<Rightarrow> nat result" where "udp_hdr = l4_hdr IPPROTO_UDP"
definition tcp_hdr :: "NetworkBuffer \<Rightarrow> nat result" where "tcp_hdr = l4_hdr IPPROTO_TCP"

end
