(* ===== verification/Net.thy ===== *)
theory Net
  imports Nbuf "HOL-Library.AList"
begin

text \<open>
  The state of the network stack, the store of network buffers (nbuf.c) and the Ethernet layer
  (ethernet/ethernet.cpp). Buffers are named by numbers; a freed buffer is not in the store, and touching or
  freeing it again is a fault of its own.
\<close>

section \<open>State\<close>

type_synonym mac = "u8 list"

record EthernetDevice =
  ed_name :: string
  ed_phy :: string
  ed_mac :: mac

datatype eth_handler = Arp_handler | Ip_handler

record ArpCacheEntry =
  ae_mac :: mac
  ae_ip :: u32
  ae_device :: string
  ae_timeout_seconds :: int
  ae_is_static :: bool

record interface_t =
  if_device :: string
  if_address :: u32
  if_netmask :: u32

text \<open>
  A route points into the vector of interfaces. The pointer is the number of times the vector has been moved in
  memory when it was taken, and an index.
\<close>

record route_t =
  rt_dest_addr :: u32
  rt_gateway_addr :: u32
  rt_netmask :: u32
  rt_iface :: "nat \<times> nat"

text \<open>
  A pending address resolution of the timer: the buffer of its context, and the context: the address, the
  rounds left, and the argument of the callback (a buffer, and the packet it points to).
\<close>

record resolve =
  rs_nbuf :: nat
  rs_ipAddress :: u32
  rs_rounds :: int
  rs_ctx :: "nat \<times> nat"

record UdpFileDescriptor =
  us_sourcePort :: u16
  us_dstAddress :: SocketAddress
  us_rxQueue :: "nat basic_queue"

record net =
  n_bufs :: "nat \<rightharpoonup> NetworkBuffer"
  n_next :: nat
  n_rxBuffers :: "nat list"
  n_handlers :: "(u16 \<times> eth_handler) list"
  n_devices :: "EthernetDevice list"
  n_devIndex :: nat
  n_rx :: "nat basic_queue"
  n_tx :: "nat basic_queue"
  n_wire :: "(string \<times> u8 list) list"
  n_arp :: "u32 \<rightharpoonup> ArpCacheEntry"
  n_interfaces :: "interface_t list"
  n_if_capacity :: nat
  n_if_moved :: nat
  n_rtable :: "route_t list"
  n_gId :: u16
  n_resolving :: "resolve list"
  n_rawSockets :: "(nat \<times> nat basic_queue) list"
  n_udp :: "(nat \<times> UdpFileDescriptor) list"
  n_ports :: "u16 \<rightharpoonup> nat"
  n_inSegments :: "nat basic_queue"

text \<open>
  What the memory pools answer: whether the n-th allocation gets a control structure and a data buffer, what
  is in the buffer (it is not cleared), and whether a table has room for a new key.
\<close>

record net_env =
  ne_nbuf :: "nat \<Rightarrow> bool"
  ne_data :: "nat \<Rightarrow> bool"
  ne_fill :: "nat \<Rightarrow> nat \<Rightarrow> u8"
  ne_table :: "u32 \<Rightarrow> bool"

abbreviation freed :: fault where "freed \<equiv> Undefined ''freed network buffer''"

section \<open>The store of buffers\<close>

definition nbuf_alloc_aligned :: "net_env \<Rightarrow> nat \<Rightarrow> nat \<Rightarrow> net \<Rightarrow> nat option \<times> net" where
  "nbuf_alloc_aligned env n alignment s =
     (if n = 0 then (None, s)
      else let i = n_next s; s1 = s\<lparr>n_next := Suc i\<rparr> in
           if \<not> ne_nbuf env i then (None, s1)
           else if \<not> ne_data env i then (None, s1)
           else (Some i, s1\<lparr>n_bufs := (n_bufs s1)(i \<mapsto>
                   \<lparr>nb_data = map (ne_fill env i) [0..<n], nb_size = n, nb_device = [], nb_l2 = None,
                    nb_l3_proto = 0, nb_l3 = None, nb_l4_proto = 0, nb_l4 = None\<rparr>)\<rparr>))"

definition nbuf_alloc :: "net_env \<Rightarrow> nat \<Rightarrow> net \<Rightarrow> nat option \<times> net" where
  "nbuf_alloc env n s = nbuf_alloc_aligned env n 0 s"

definition nbuf_at :: "nat \<Rightarrow> net \<Rightarrow> NetworkBuffer result" where
  "nbuf_at i s = (case n_bufs s i of None \<Rightarrow> Inl freed | Some nb \<Rightarrow> Inr nb)"

definition nbuf_store :: "nat \<Rightarrow> NetworkBuffer \<Rightarrow> net \<Rightarrow> net" where
  "nbuf_store i nb s = s\<lparr>n_bufs := (n_bufs s)(i \<mapsto> nb)\<rparr>"

definition nbuf_free :: "nat \<Rightarrow> net \<Rightarrow> net result" where
  "nbuf_free i s = rbind (nbuf_at i s) (\<lambda>nb. Inr (s\<lparr>n_bufs := (n_bufs s)(i := None)\<rparr>))"

text \<open>A clone does not look whether its allocation succeeded.\<close>

definition clone_l2 :: "NetworkBuffer \<Rightarrow> NetworkBuffer \<Rightarrow> NetworkBuffer result" where
  "clone_l2 nb c = (case nb_l2 nb of None \<Rightarrow> Inr c | Some p \<Rightarrow> rbind (nbuf_offset nb p) (\<lambda>off. nbuf_set_l2 off c))"

definition clone_l3 :: "NetworkBuffer \<Rightarrow> NetworkBuffer \<Rightarrow> NetworkBuffer result" where
  "clone_l3 nb c =
     (case nb_l3 nb of None \<Rightarrow> Inr c | Some p \<Rightarrow> rbind (nbuf_offset nb p) (\<lambda>off. nbuf_set_l3 off (nb_l3_proto nb) c))"

definition clone_l4 :: "NetworkBuffer \<Rightarrow> NetworkBuffer \<Rightarrow> NetworkBuffer result" where
  "clone_l4 nb c =
     (case nb_l4 nb of None \<Rightarrow> Inr c | Some p \<Rightarrow> rbind (nbuf_offset nb p) (\<lambda>off. nbuf_set_l4 off (nb_l4_proto nb) c))"

definition nbuf_clone :: "net_env \<Rightarrow> nat \<Rightarrow> net \<Rightarrow> (nat \<times> net) result" where
  "nbuf_clone env i s =
     rbind (nbuf_at i s) (\<lambda>nb.
       case nbuf_alloc env (nb_size nb) s of
         (None, s1) \<Rightarrow> Inl (Undefined ''NULL network buffer'')
       | (Some j, s1) \<Rightarrow>
           rbind (nbuf_at j s1) (\<lambda>c.
           rbind (nbuf_set_size (nb_size nb)
                    (nbuf_set_device (nb_device nb) (c\<lparr>nb_data := put_bytes 0 (take (nb_size nb) (nb_data nb)) (nb_data c)\<rparr>))) (\<lambda>c.
           rbind (clone_l2 nb c) (\<lambda>c. rbind (clone_l3 nb c) (\<lambda>c. rbind (clone_l4 nb c) (\<lambda>c.
             Inr (j, nbuf_store j c s1)))))))"

definition nbuf_clone_offset_nometadata :: "net_env \<Rightarrow> nat \<Rightarrow> nat \<Rightarrow> net \<Rightarrow> (nat option \<times> net) result" where
  "nbuf_clone_offset_nometadata env i startOffset s =
     rbind (nbuf_at i s) (\<lambda>nb.
       if startOffset \<ge> nb_size nb then Inr (None, s)
       else
         rbind (nbuf_size_from nb startOffset) (\<lambda>n.
           case nbuf_alloc env (unat n) s of
             (None, s1) \<Rightarrow> Inl (Undefined ''NULL network buffer'')
           | (Some j, s1) \<Rightarrow>
               rbind (nbuf_at j s1) (\<lambda>c.
               rbind (nbuf_set_size (unat n) (c\<lparr>nb_data := put_bytes 0 (bytes_at startOffset (unat n) (nb_data nb)) (nb_data c)\<rparr>)) (\<lambda>c.
                 Inr (Some j, nbuf_store j c s1)))))"

section \<open>The Ethernet layer\<close>

definition find_handler :: "u16 \<Rightarrow> net \<Rightarrow> eth_handler option" where
  "find_handler ether_type s = map_option snd (find (\<lambda>h. fst h = ether_type) (n_handlers s))"

definition find_device :: "string \<Rightarrow> net \<Rightarrow> EthernetDevice option" where
  "find_device name s = find (\<lambda>d. name = ed_name d) (n_devices s)"

definition find_device_by_phy :: "string \<Rightarrow> net \<Rightarrow> EthernetDevice option" where
  "find_device_by_phy name s = find (\<lambda>d. name = ed_phy d) (n_devices s)"

definition ethernet_register_handler :: "u16 \<Rightarrow> eth_handler \<Rightarrow> net \<Rightarrow> int \<times> net" where
  "ethernet_register_handler ether_type h s =
     (if find_handler ether_type s \<noteq> None then (0, s) else (1, s\<lparr>n_handlers := n_handlers s @ [(ether_type, h)]\<rparr>))"

text \<open>\<open>%d\<close> of the index of a device.\<close>

fun decimal :: "nat \<Rightarrow> string" where
  "decimal n = (if n < 10 then [] else decimal (n div 10)) @ [char_of (48 + n mod 10)]"

declare decimal.simps [simp del]

definition ethernet_register_device :: "string \<Rightarrow> mac \<Rightarrow> net \<Rightarrow> int \<times> net" where
  "ethernet_register_device phyName mac s =
     (if find_device_by_phy phyName s \<noteq> None then (0, s)
      else (1, s\<lparr>n_devIndex := Suc (n_devIndex s),
                 n_devices := n_devices s @
                   [\<lparr>ed_name = ''eth'' @ decimal (n_devIndex s), ed_phy = phyName, ed_mac = take 6 mac\<rparr>]\<rparr>))"

definition ethernet_device_hwaddr :: "string \<Rightarrow> net \<Rightarrow> mac option" where
  "ethernet_device_hwaddr devName s = map_option ed_mac (find_device devName s)"

definition ethernet_alloc_nbuf :: "net_env \<Rightarrow> string \<Rightarrow> u16 \<Rightarrow> nat \<Rightarrow> net \<Rightarrow> (nat option \<times> net) result" where
  "ethernet_alloc_nbuf env device proto n s =
     (case nbuf_alloc env (14 + n) s of
        (None, s1) \<Rightarrow> Inr (None, s1)
      | (Some i, s1) \<Rightarrow>
          rbind (nbuf_at i s1) (\<lambda>nb.
          rbind (nbuf_set_l2 0 (nbuf_set_device device nb)) (\<lambda>nb.
          rbind (nbuf_set_l3 14 proto nb) (\<lambda>nb.
          rbind (nbuf_set_size (nbuf_capacity nb) nb) (\<lambda>nb.
            Inr (Some i, nbuf_store i (nb\<lparr>nb_data := put_bytes 12 (bytes16 proto) (nb_data nb)\<rparr>) s1))))))"

definition ethernet_send_packet :: "nat \<Rightarrow> mac \<Rightarrow> net \<Rightarrow> (int \<times> net) result" where
  "ethernet_send_packet i dst s =
     rbind (nbuf_at i s) (\<lambda>nb.
     rbind (ethernet_hdr nb) (\<lambda>h.
     rassert (in_buffer h 14 nb) out_of_bounds
       (let s1 = nbuf_store i (nb\<lparr>nb_data := put_bytes h (take 6 dst) (nb_data nb)\<rparr>) s
        in case q_push (\<lambda>q. q) False i (n_tx s1) of
             (True, q) \<Rightarrow> Inr (1, s1\<lparr>n_tx := q\<rparr>)
           | (False, q) \<Rightarrow> rbind (nbuf_free i s1) (\<lambda>s2. Inr (0, s2)))))"

text \<open>
  One round of the transmitting thread. \<open>xmit\<close> says which frames the device puts on its wire for the one it is given: the
  frame itself, as a rule. When its descriptor stays in use for too long the driver gives the frame up and there are none. When the
  device does not finish in time the buffer is freed while it still reads it, and the frame can have any content.
\<close>

definition ethernet_tx_round :: "(u8 list \<Rightarrow> u8 list list) \<Rightarrow> net \<Rightarrow> net result" where
  "ethernet_tx_round xmit s =
     (case q_pop (\<lambda>q. q) False (n_tx s) of
        (None, q) \<Rightarrow> Inr s
      | (Some i, q) \<Rightarrow>
          let s1 = s\<lparr>n_tx := q\<rparr> in
          rbind (nbuf_at i s1) (\<lambda>nb.
            case find_device (nb_device nb) s1 of
              None \<Rightarrow> nbuf_free i s1
            | Some dev \<Rightarrow>
                rbind (ethernet_hdr nb) (\<lambda>h.
                rassert (in_buffer h 14 nb) out_of_bounds
                  (let d = put_bytes (h + 6) (take 6 (ed_mac dev)) (nb_data nb) in
                   rassert (get16 (h + 12) d = nb_l3_proto nb) (Assertion ''header type'')
                     (nbuf_free i (s1\<lparr>n_wire := n_wire s1 @ map (Pair (ed_phy dev)) (xmit (take (nb_size nb) d))\<rparr>))))))"

definition ethernet_tx_main :: "net \<Rightarrow> net result" where
  "ethernet_tx_main s = ethernet_tx_round (\<lambda>frame. [frame]) s"

definition ethernet_absorb_packet :: "nat \<Rightarrow> string \<Rightarrow> net \<Rightarrow> net result" where
  "ethernet_absorb_packet i phyName s =
     rbind (nbuf_at i s) (\<lambda>nb.
     rbind (nbuf_set_l2 0 (nbuf_set_device phyName nb)) (\<lambda>nb.
       let s1 = nbuf_store i nb s in
       case q_push (\<lambda>q. q) False i (n_rx s1) of
         (True, q) \<Rightarrow> Inr (s1\<lparr>n_rx := q\<rparr>)
       | (False, q) \<Rightarrow> nbuf_free i s1))"

text \<open>
  The receive ring of the PCnet driver. The buffer of descriptor \<open>k\<close> received \<open>frame\<close>;
  \<open>ok\<close> is a status without errors and an address that could be translated back. Frames of less than 60 or more than 1548 bytes are dropped. The
  descriptor gets a new buffer in every case; its old one is out of the ring from the start.
\<close>

definition PacketSize :: nat where "PacketSize = 1548"

fun setupRxRing :: "net_env \<Rightarrow> nat \<Rightarrow> net \<Rightarrow> net result" where
  "setupRxRing env 0 s = Inr s"
| "setupRxRing env (Suc n) s =
     (case nbuf_alloc_aligned env PacketSize 16 s of
        (None, s1) \<Rightarrow> Inl (Assertion ''buf'')
      | (Some i, s1) \<Rightarrow> setupRxRing env n (s1\<lparr>n_rxBuffers := n_rxBuffers s1 @ [i]\<rparr>))"

definition pass_up :: "string \<Rightarrow> nat \<Rightarrow> u8 list \<Rightarrow> net \<Rightarrow> net result" where
  "pass_up phyName i frame s =
     rbind (nbuf_at i s) (\<lambda>nb.
     rbind (nbuf_set_size (length frame) (nb\<lparr>nb_data := put_bytes 0 frame (nb_data nb)\<rparr>)) (\<lambda>nb.
       ethernet_absorb_packet i phyName (nbuf_store i nb s)))"

definition drainRxRing :: "net_env \<Rightarrow> string \<Rightarrow> nat \<Rightarrow> bool \<Rightarrow> u8 list \<Rightarrow> net \<Rightarrow> net result" where
  "drainRxRing env phyName k ok frame s =
     rassert (k < length (n_rxBuffers s)) out_of_bounds
       (let i = n_rxBuffers s ! k; s0 = s\<lparr>n_rxBuffers := take k (n_rxBuffers s) @ drop (Suc k) (n_rxBuffers s)\<rparr> in
        rbind (if \<not> ok then Inr s0
               else if length frame > PacketSize \<or> length frame < 60 then Inr s0
               else pass_up phyName i frame s0) (\<lambda>s1.
          case nbuf_alloc_aligned env PacketSize 16 s1 of
            (None, s2) \<Rightarrow> Inl (Assertion ''newbuf'')
          | (Some j, s2) \<Rightarrow> Inr (s2\<lparr>n_rxBuffers := take k (n_rxBuffers s2) @ j # drop k (n_rxBuffers s2)\<rparr>)))"

end
