(* ===== verification/Arp.thy ===== *)
theory Arp
  imports Net
begin

text \<open>
  Routes (route.cpp), interfaces (interface.cpp) and the address resolution protocol (arp/arp.cpp). The cache is
  the map that the hash map of the kernel implements: the code stores a key only after it looked for it.
\<close>

section \<open>Cache\<close>

definition arp_set_entry :: "net_env \<Rightarrow> string \<Rightarrow> mac \<Rightarrow> u32 \<Rightarrow> net \<Rightarrow> net" where
  "arp_set_entry env devName macAddress ipAddress s =
     (case n_arp s ipAddress of
        Some e \<Rightarrow>
          if ae_is_static e then s
          else s\<lparr>n_arp := (n_arp s)(ipAddress \<mapsto>
                 e\<lparr>ae_timeout_seconds := 300, ae_device := take 15 devName, ae_mac := take 6 macAddress\<rparr>)\<rparr>
      | None \<Rightarrow>
          if ne_table env ipAddress then
            s\<lparr>n_arp := (n_arp s)(ipAddress \<mapsto>
               \<lparr>ae_mac = take 6 macAddress, ae_ip = ipAddress, ae_device = take 15 devName,
                ae_timeout_seconds = 300, ae_is_static = False\<rparr>)\<rparr>
          else s)"

definition arp_delete_entry :: "u32 \<Rightarrow> net \<Rightarrow> int \<times> net" where
  "arp_delete_entry ipAddress s =
     (if n_arp s ipAddress = None then 0 else 1, s\<lparr>n_arp := (n_arp s)(ipAddress := None)\<rparr>)"

definition arp_set_static :: "u32 \<Rightarrow> net \<Rightarrow> int \<times> net" where
  "arp_set_static ipAddress s =
     (case n_arp s ipAddress of
        None \<Rightarrow> (-1, s)
      | Some e \<Rightarrow> (0, s\<lparr>n_arp := (n_arp s)(ipAddress \<mapsto> e\<lparr>ae_is_static := True\<rparr>)\<rparr>))"

definition arp_get_hwaddr :: "u32 \<Rightarrow> net \<Rightarrow> mac option" where
  "arp_get_hwaddr ipAddress s = map_option ae_mac (n_arp s ipAddress)"

text \<open>The timer of every second, on one entry and on the cache.\<close>

definition entry_timeout :: "ArpCacheEntry \<Rightarrow> ArpCacheEntry option" where
  "entry_timeout e =
     (if ae_is_static e then Some e
      else let e1 = e\<lparr>ae_timeout_seconds := ae_timeout_seconds e - 1\<rparr> in
           if 0 \<ge> ae_timeout_seconds e1 then None else Some e1)"

definition arp_timeout_callback :: "net \<Rightarrow> net" where
  "arp_timeout_callback s = s\<lparr>n_arp := (\<lambda>ip. Option.bind (n_arp s ip) entry_timeout)\<rparr>"

section \<open>Routes and interfaces\<close>

definition is_ip_on_same_network :: "u32 \<Rightarrow> u32 \<Rightarrow> u32 \<Rightarrow> bool" where
  "is_ip_on_same_network ip1 ip2 netmask = (ip1 AND netmask = ip2 AND netmask)"

definition ip_route_lookup :: "u32 \<Rightarrow> net \<Rightarrow> route_t option" where
  "ip_route_lookup destinationAddr s =
     find (\<lambda>r. is_ip_on_same_network (rt_dest_addr r) destinationAddr (rt_netmask r)) (n_rtable s)"

definition ip_route_add :: "u32 \<Rightarrow> u32 \<Rightarrow> u32 \<Rightarrow> nat \<times> nat \<Rightarrow> net \<Rightarrow> net" where
  "ip_route_add destinationAddr netmask gateway iface s =
     s\<lparr>n_rtable := n_rtable s @
        [\<lparr>rt_dest_addr = destinationAddr, rt_gateway_addr = gateway, rt_netmask = netmask, rt_iface = iface\<rparr>]\<rparr>"

text \<open>What a route points to, as long as the vector has not been moved since.\<close>

definition route_iface :: "route_t \<Rightarrow> net \<Rightarrow> interface_t result" where
  "route_iface r s =
     rassert (fst (rt_iface r) = n_if_moved s \<and> snd (rt_iface r) < length (n_interfaces s))
       (Undefined ''pointer into a moved vector'') (Inr (n_interfaces s ! snd (rt_iface r)))"

definition find_interface :: "string \<Rightarrow> net \<Rightarrow> interface_t option" where
  "find_interface device s = find (\<lambda>i. device = if_device i) (n_interfaces s)"

definition interface_get :: "string \<Rightarrow> net \<Rightarrow> interface_t option" where
  "interface_get device s = find_interface device s"

text \<open>\<open>push_back\<close>: a full vector moves to twice its room.\<close>

definition interfaces_push_back :: "interface_t \<Rightarrow> net \<Rightarrow> net" where
  "interfaces_push_back i s =
     (let s1 = (if length (n_interfaces s) = n_if_capacity s
                then s\<lparr>n_if_capacity := max 1 (2 * n_if_capacity s), n_if_moved := Suc (n_if_moved s)\<rparr> else s)
      in s1\<lparr>n_interfaces := n_interfaces s1 @ [i]\<rparr>)"

definition interface_add :: "net_env \<Rightarrow> string \<Rightarrow> u32 \<Rightarrow> u32 \<Rightarrow> net \<Rightarrow> int \<times> net" where
  "interface_add env device ip netmask s =
     (if find_interface device s \<noteq> None then (-1, s)
      else
        let deviceMac = (case ethernet_device_hwaddr device s of None \<Rightarrow> replicate 6 0 | Some m \<Rightarrow> m);
            s1 = interfaces_push_back \<lparr>if_device = take 15 device, if_address = ip, if_netmask = netmask\<rparr> s;
            s2 = ip_route_add (ip AND netmask) netmask 0 (n_if_moved s1, length (n_interfaces s1) - 1) s1;
            s3 = arp_set_entry env device deviceMac ip s2
        in (0, snd (arp_set_static ip s3)))"

section \<open>Requests and replies\<close>

definition ARP_HW_ETHERNET :: u16 where "ARP_HW_ETHERNET = 1"
definition ARP_OP_REQUEST :: u16 where "ARP_OP_REQUEST = 1"
definition ARP_OP_RESPONSE :: u16 where "ARP_OP_RESPONSE = 2"

text \<open>The structure \<open>arp_t\<close> of 28 bytes.\<close>

record arp_t =
  ar_hardware_type :: u16
  ar_protocol_type :: u16
  ar_hardware_length :: u8
  ar_protocol_length :: u8
  ar_operation :: u16
  ar_sender_mac :: mac
  ar_sender_ip :: u32
  ar_target_mac :: mac
  ar_target_ip :: u32

definition arp_bytes :: "arp_t \<Rightarrow> u8 list" where
  "arp_bytes a =
     bytes16 (ar_hardware_type a) @ bytes16 (ar_protocol_type a) @ [ar_hardware_length a, ar_protocol_length a] @
     bytes16 (ar_operation a) @ ar_sender_mac a @ bytes32 (ar_sender_ip a) @ ar_target_mac a @ bytes32 (ar_target_ip a)"

definition arp_read :: "nat \<Rightarrow> u8 list \<Rightarrow> arp_t" where
  "arp_read h d =
     \<lparr>ar_hardware_type = get16 h d, ar_protocol_type = get16 (h + 2) d,
      ar_hardware_length = d ! (h + 4), ar_protocol_length = d ! (h + 5), ar_operation = get16 (h + 6) d,
      ar_sender_mac = bytes_at (h + 8) 6 d, ar_sender_ip = get32 (h + 14) d,
      ar_target_mac = bytes_at (h + 18) 6 d, ar_target_ip = get32 (h + 24) d\<rparr>"

definition arp_is_valid :: "arp_t \<Rightarrow> bool" where
  "arp_is_valid a =
     (if ARP_HW_ETHERNET \<noteq> ar_hardware_type a then False
      else if ETH_P_IPv4 \<noteq> ar_protocol_type a then False
      else if 6 \<noteq> ar_hardware_length a then False
      else if 4 \<noteq> ar_protocol_length a then False
      else if ARP_OP_REQUEST \<noteq> ar_operation a \<and> ARP_OP_RESPONSE \<noteq> ar_operation a then False
      else True)"

definition arp_handle_response :: "net_env \<Rightarrow> arp_t \<Rightarrow> string \<Rightarrow> net \<Rightarrow> (bool \<times> net) result" where
  "arp_handle_response env a inputDevice s =
     Inr (True, arp_set_entry env inputDevice (ar_sender_mac a) (ar_sender_ip a) s)"

text \<open>Filling the ARP structure of a fresh buffer.\<close>

definition put_arp :: "nat \<Rightarrow> arp_t \<Rightarrow> net \<Rightarrow> net result" where
  "put_arp i a s =
     rbind (nbuf_at i s) (\<lambda>nb.
     rbind (arp_hdr nb) (\<lambda>h.
     rassert (in_buffer h 28 nb) out_of_bounds
       (Inr (nbuf_store i (nb\<lparr>nb_data := put_bytes h (arp_bytes a) (nb_data nb)\<rparr>) s))))"

definition arp_handle_request :: "net_env \<Rightarrow> arp_t \<Rightarrow> string \<Rightarrow> net \<Rightarrow> (bool \<times> net) result" where
  "arp_handle_request env a inputDevice s =
     (case n_arp s (ar_target_ip a) of
        None \<Rightarrow> Inr (True, s)
      | Some e \<Rightarrow>
          rbind (ethernet_alloc_nbuf env inputDevice ETH_P_ARP 28 s) (\<lambda>(r, s1).
            case r of
              None \<Rightarrow> Inr (True, s1)
            | Some i \<Rightarrow>
                rbind (put_arp i
                  \<lparr>ar_hardware_type = ARP_HW_ETHERNET, ar_protocol_type = ETH_P_IPv4, ar_hardware_length = 6,
                   ar_protocol_length = 4, ar_operation = ARP_OP_RESPONSE, ar_sender_mac = ae_mac e,
                   ar_sender_ip = ae_ip e, ar_target_mac = ar_sender_mac a, ar_target_ip = ar_sender_ip a\<rparr> s1) (\<lambda>s2.
                rbind (ethernet_send_packet i (ar_sender_mac a) s2) (\<lambda>(_, s3).
                  Inr (False, s3)))))"

definition broadcastMac :: mac where "broadcastMac = replicate 6 0xff"

definition arp_send_request :: "net_env \<Rightarrow> u32 \<Rightarrow> net \<Rightarrow> (int \<times> net) result" where
  "arp_send_request env ipAddress s =
     (case ip_route_lookup ipAddress s of
        None \<Rightarrow> Inr (-1, s)
      | Some route \<Rightarrow>
          rbind (route_iface route s) (\<lambda>iface.
            case ethernet_device_hwaddr (if_device iface) s of
              None \<Rightarrow> Inr (-1, s)
            | Some deviceMac \<Rightarrow>
                rbind (ethernet_alloc_nbuf env (if_device iface) ETH_P_ARP 28 s) (\<lambda>(r, s1).
                  case r of
                    None \<Rightarrow> Inr (-1, s1)
                  | Some i \<Rightarrow>
                      rbind (put_arp i
                        \<lparr>ar_hardware_type = ARP_HW_ETHERNET, ar_protocol_type = ETH_P_IPv4, ar_hardware_length = 6,
                         ar_protocol_length = 4, ar_operation = ARP_OP_REQUEST, ar_sender_mac = deviceMac,
                         ar_sender_ip = if_address iface, ar_target_mac = replicate 6 0, ar_target_ip = ipAddress\<rparr> s1) (\<lambda>s2.
                      rbind (ethernet_send_packet i broadcastMac s2) (\<lambda>(_, s3).
                        Inr (0, s3))))))"

text \<open>The handler of ARP frames; it owns the buffer.\<close>

definition arp_handler :: "net_env \<Rightarrow> nat \<Rightarrow> net \<Rightarrow> net result" where
  "arp_handler env i s =
     rbind (nbuf_at i s) (\<lambda>nb.
     rbind (arp_hdr nb) (\<lambda>h.
     rbind (nbuf_size_from nb h) (\<lambda>n.
       if n < 28 then nbuf_free i s
       else
         rassert (in_buffer h 28 nb) out_of_bounds
           (let a = arp_read h (nb_data nb) in
            if \<not> arp_is_valid a then nbuf_free i s
            else
              rbind (if ar_operation a = ARP_OP_REQUEST then arp_handle_request env a (nb_device nb) s
                     else arp_handle_response env a (nb_device nb) s) (\<lambda>(should_free, s1).
                if should_free then nbuf_free i s1 else Inr s1)))))"

section \<open>Resolution\<close>

text \<open>
  \<open>cb\<close> is the callback, which gets its context and whether the address was found. The allocation for the
  context of the timer has the 16 bytes of \<open>ArpResolveInternalContext\<close>.
\<close>

definition arp_resolve ::
  "(nat \<times> nat \<Rightarrow> bool \<Rightarrow> net \<Rightarrow> net result) \<Rightarrow> net_env \<Rightarrow> u32 \<Rightarrow> nat \<times> nat \<Rightarrow> net \<Rightarrow> (int \<times> net) result" where
  "arp_resolve cb env ipAddress ctx s =
     (if arp_get_hwaddr ipAddress s \<noteq> None then rbind (cb ctx True s) (\<lambda>s1. Inr (0, s1))
      else
        case nbuf_alloc env 16 s of
          (None, s1) \<Rightarrow> Inr (-1, s1)
        | (Some n, s1) \<Rightarrow>
            rbind (arp_send_request env ipAddress s1) (\<lambda>(r, s2).
              if r \<noteq> 0 then rbind (nbuf_free n s2) (\<lambda>s3. Inr (-1, s3))
              else Inr (0, s2\<lparr>n_resolving := n_resolving s2 @
                     [\<lparr>rs_nbuf = n, rs_ipAddress = ipAddress, rs_rounds = 10, rs_ctx = ctx\<rparr>]\<rparr>)))"

text \<open>The timer callback of a resolution; the result is what is left of it for the next round.\<close>

definition arp_resolve_callback ::
  "(nat \<times> nat \<Rightarrow> bool \<Rightarrow> net \<Rightarrow> net result) \<Rightarrow> net_env \<Rightarrow> resolve \<Rightarrow> net \<Rightarrow> (resolve option \<times> net) result" where
  "arp_resolve_callback cb env r s =
     rbind (nbuf_at (rs_nbuf r) s) (\<lambda>_.
       if arp_get_hwaddr (rs_ipAddress r) s \<noteq> None then
         rbind (cb (rs_ctx r) True s) (\<lambda>s1. rbind (nbuf_free (rs_nbuf r) s1) (\<lambda>s2. Inr (None, s2)))
       else
         let r1 = r\<lparr>rs_rounds := rs_rounds r - 1\<rparr> in
         if 0 \<ge> rs_rounds r1 then
           rbind (cb (rs_ctx r) False s) (\<lambda>s1. rbind (nbuf_free (rs_nbuf r) s1) (\<lambda>s2. Inr (None, s2)))
         else if rs_rounds r1 mod 2 = 0 then
           rbind (arp_send_request env (rs_ipAddress r) s) (\<lambda>(_, s1). Inr (Some r1, s1))
         else Inr (Some r1, s))"

end
