(* ===== verification/Ip.thy ===== *)
theory Ip
  imports Arp
begin

text \<open>
  IPv4 (ip/ip.cpp, ip/ip_raw.cpp), ICMP (icmp/icmp.cpp), UDP (udp/udp.cpp, udp/udp_socket.cpp), the entry of TCP
  segments (tcp/tcp_in_task.cpp) and the receiving thread of the Ethernet layer, in the order in which they call each
  other. Whoever is given a buffer owns it: queues it, hands it on, or frees it.
\<close>

section \<open>Sending IP packets\<close>

definition ip_data_length :: "nat \<Rightarrow> u8 list \<Rightarrow> u16" where
  "ip_data_length h d = get16 (h + 2) d - ucast (d ! h AND 0xf) * 4"

definition nextId :: "net \<Rightarrow> u16 \<times> net" where
  "nextId s = (n_gId s, s\<lparr>n_gId := n_gId s + 1\<rparr>)"

text \<open>Version 4, five words of header, and the fields that are not zero.\<close>

definition ip_header :: "u8 \<Rightarrow> u8 \<Rightarrow> u16 \<Rightarrow> u16 \<Rightarrow> u32 \<Rightarrow> u32 \<Rightarrow> u8 list" where
  "ip_header ttl proto len ident saddr daddr =
     [0x45, 0] @ bytes16 len @ bytes16 ident @ [0, 0, ttl, proto, 0, 0] @ bytes32 saddr @ bytes32 daddr"

definition ip_alloc_nbuf :: "net_env \<Rightarrow> u32 \<Rightarrow> u8 \<Rightarrow> u8 \<Rightarrow> u16 \<Rightarrow> net \<Rightarrow> (nat option \<times> net) result" where
  "ip_alloc_nbuf env dst ttl proto n s =
     (case ip_route_lookup dst s of
        None \<Rightarrow> Inr (None, s)
      | Some route \<Rightarrow>
          rbind (route_iface route s) (\<lambda>iface.
          rbind (ethernet_alloc_nbuf env (if_device iface) ETH_P_IPv4 (20 + unat n) s) (\<lambda>(r, s1).
            case r of
              None \<Rightarrow> Inr (None, s1)
            | Some i \<Rightarrow>
                rbind (nbuf_at i s1) (\<lambda>nb.
                rbind (ip_hdr nb) (\<lambda>h.
                rassert (in_buffer h 20 nb) out_of_bounds
                  (case nextId s1 of (ident, s2) \<Rightarrow>
                     let hdr = ip_header ttl proto (20 + n) ident (if_address iface) dst in
                     rbind (nbuf_set_l4 (h + 20) (ucast proto) (nb\<lparr>nb_data := put_bytes h hdr (nb_data nb)\<rparr>)) (\<lambda>nb.
                       Inr (Some i, nbuf_store i nb s2))))))))"

text \<open>The callback of the resolution: \<open>c\<close> is the buffer of its context, \<open>p\<close> the packet.\<close>

definition arp_resolve_cb :: "nat \<times> nat \<Rightarrow> bool \<Rightarrow> net \<Rightarrow> net result" where
  "arp_resolve_cb ctx found s =
     (case ctx of (c, p) \<Rightarrow>
        rbind (nbuf_at c s) (\<lambda>_.
        rbind (nbuf_at p s) (\<lambda>nb.
        rbind (ip_hdr nb) (\<lambda>h.
        rbind (if \<not> found then nbuf_free p s
               else
                 rassert (in_buffer h 20 nb) out_of_bounds
                   (case arp_get_hwaddr (get32 (h + 16) (nb_data nb)) s of
                      None \<Rightarrow> nbuf_free p s
                    | Some m \<Rightarrow> rbind (ethernet_send_packet p m s) (\<lambda>(_, s1). Inr s1))) (\<lambda>s1.
          nbuf_free c s1)))))"

text \<open>The header checksum, over \<open>ihl\<close> words with the checksum field zero.\<close>

definition ip_checksum :: "nat \<Rightarrow> u8 list \<Rightarrow> u16" where
  "ip_checksum h d = checksum (bytes_at h (unat (d ! h AND 0xf) * 4) (put_bytes (h + 10) (bytes16 0) d)) 0"

definition ip_output :: "net_env \<Rightarrow> nat \<Rightarrow> net \<Rightarrow> (int \<times> net) result" where
  "ip_output env i s =
     rbind (nbuf_at i s) (\<lambda>nb.
     rbind (ip_hdr nb) (\<lambda>h.
     rassert (in_buffer h 20 nb \<and> in_buffer h (unat (nb_data nb ! h AND 0xf) * 4) nb) out_of_bounds
       (let d = put_bytes (h + 10) (bytes16 (ip_checksum h (nb_data nb))) (nb_data nb);
            s1 = nbuf_store i (nb\<lparr>nb_data := d\<rparr>) s
        in case nbuf_alloc env 4 s1 of
             (None, s2) \<Rightarrow> rbind (nbuf_free i s2) (\<lambda>s3. Inr (-1, s3))
           | (Some c, s2) \<Rightarrow>
               rbind (arp_resolve arp_resolve_cb env (get32 (h + 16) d) (c, i) s2) (\<lambda>(r, s3).
                 if r \<noteq> 0 then rbind (nbuf_free i s3) (\<lambda>s4. rbind (nbuf_free c s4) (\<lambda>s5. Inr (-1, s5)))
                 else Inr (0, s3)))))"

text \<open>
  The timer of the \<open>k\<close>-th pending resolution fires. It is out of the list while its callback runs, and
  back in its place when the callback asks for another round.
\<close>

definition resolve_timer :: "net_env \<Rightarrow> nat \<Rightarrow> net \<Rightarrow> net result" where
  "resolve_timer env k s =
     (if k < length (n_resolving s) then
        rbind (arp_resolve_callback arp_resolve_cb env (n_resolving s ! k)
                 (s\<lparr>n_resolving := take k (n_resolving s) @ drop (Suc k) (n_resolving s)\<rparr>)) (\<lambda>(r, s1).
          case r of
            None \<Rightarrow> Inr s1
          | Some r1 \<Rightarrow> Inr (s1\<lparr>n_resolving := take k (n_resolving s1) @ r1 # drop k (n_resolving s1)\<rparr>))
      else Inr s)"

section \<open>ICMP\<close>

definition icmp_reject :: "net_env \<Rightarrow> u8 \<Rightarrow> u8 \<Rightarrow> nat \<Rightarrow> net \<Rightarrow> (int \<times> net) result" where
  "icmp_reject env icmp_type icmp_code i s =
     rbind (nbuf_at i s) (\<lambda>echo.
     rbind (ip_hdr echo) (\<lambda>h.
     rbind (nbuf_size_from echo h) (\<lambda>echoPacketSize.
     rassert (in_buffer h 20 echo \<and> in_buffer h (unat echoPacketSize) echo) out_of_bounds
       (let packetSize = (4 + 4 + ucast echoPacketSize :: u16) in
        rbind (ip_alloc_nbuf env (get32 (h + 12) (nb_data echo)) 64 IPPROTO_ICMP packetSize s) (\<lambda>(r, s1).
          case r of
            None \<Rightarrow> Inr (-1, s1)
          | Some j \<Rightarrow>
              rbind (nbuf_at j s1) (\<lambda>nb.
              rbind (icmp_v4_hdr nb) (\<lambda>p.
              rassert (in_buffer p (8 + unat echoPacketSize) nb \<and> in_buffer p (unat packetSize) nb) out_of_bounds
                (let d = put_bytes p ([icmp_type, icmp_code, 0, 0, 0, 0, 0, 0] @
                           bytes_at h (unat echoPacketSize) (nb_data echo)) (nb_data nb);
                     d2 = put_bytes (p + 2) (bytes16 (checksum (bytes_at p (unat packetSize) d) 0)) d
                 in ip_output env j (nbuf_store j (nb\<lparr>nb_data := d2\<rparr>) s1)))))))))"

text \<open>The echo request is turned into its reply in place.\<close>

definition echo_reply :: "nat \<Rightarrow> nat \<Rightarrow> nat \<Rightarrow> nat \<Rightarrow> u8 list \<Rightarrow> u8 list" where
  "echo_reply e h p n d =
     (let d1 = put_bytes e (bytes_at (e + 6) 6 d @ bytes_at e 6 d) d;
          d2 = put_bytes (h + 12) (bytes32 (get32 (h + 16) d1) @ bytes32 (get32 (h + 12) d1)) d1;
          d3 = put_bytes p [0] (put_bytes (p + 2) (bytes16 0) d2)
      in put_bytes (p + 2) (bytes16 (checksum (bytes_at p n d3) 0)) d3)"

definition icmpv4_reply :: "net_env \<Rightarrow> nat \<Rightarrow> net \<Rightarrow> net result" where
  "icmpv4_reply env i s =
     rbind (nbuf_at i s) (\<lambda>nb.
     rbind (ethernet_hdr nb) (\<lambda>e.
     rbind (ip_hdr nb) (\<lambda>h.
     rbind (icmp_v4_hdr nb) (\<lambda>p.
     rbind (nbuf_size_from nb p) (\<lambda>n.
     rassert (in_buffer e 14 nb \<and> in_buffer h 20 nb \<and> in_buffer p 4 nb \<and> in_buffer p (unat n) nb) out_of_bounds
       (rbind (ip_output env i (nbuf_store i (nb\<lparr>nb_data := echo_reply e h p (unat n) (nb_data nb)\<rparr>) s)) (\<lambda>(_, s1).
          Inr s1))))))) "

definition ICMP_V4_ECHO :: u8 where "ICMP_V4_ECHO = 8"

definition icmp_input :: "net_env \<Rightarrow> nat \<Rightarrow> net \<Rightarrow> (int \<times> net) result" where
  "icmp_input env i s =
     rbind (nbuf_at i s) (\<lambda>nb.
     rbind (icmp_v4_hdr nb) (\<lambda>p.
     rbind (nbuf_size_from nb p) (\<lambda>n.
       if n < 4 then rbind (nbuf_free i s) (\<lambda>s1. Inr (-1, s1))
       else
         rassert (in_buffer p 4 nb) out_of_bounds
           (rbind (if nb_data nb ! p = ICMP_V4_ECHO then icmpv4_reply env i s else nbuf_free i s) (\<lambda>s1. Inr (0, s1))))))"

section \<open>UDP\<close>

definition udp_data_length :: "nat \<Rightarrow> u8 list \<Rightarrow> u16" where
  "udp_data_length u d = get16 (u + 4) d - 8"

definition udp_checksum :: "nat \<Rightarrow> nat \<Rightarrow> u8 list \<Rightarrow> u16" where
  "udp_checksum h u d =
     tcp_udp_checksum (get32 (h + 12) d) (get32 (h + 16) d) IPPROTO_UDP
       (drop u (put_bytes (u + 6) (bytes16 0) d)) (get16 (u + 4) d)"

definition udp_validate_packet :: "NetworkBuffer \<Rightarrow> nat \<Rightarrow> bool result" where
  "udp_validate_packet nb u =
     rbind (nbuf_size_from nb u) (\<lambda>n.
       if n < 8 then Inr False
       else
         rbind (nbuf_size_from nb (u + 8)) (\<lambda>m.
         rassert (in_buffer u 8 nb) out_of_bounds
           (if m < ucast (udp_data_length u (nb_data nb)) then Inr False
            else
              rbind (ip_hdr nb) (\<lambda>h.
              rassert (in_buffer h 20 nb \<and> in_buffer u (unat (get16 (u + 4) (nb_data nb))) nb) out_of_bounds
                (Inr (get16 (u + 6) (nb_data nb) = udp_checksum h u (nb_data nb)))))))"

definition udp_alloc_nbuf :: "net_env \<Rightarrow> u32 \<Rightarrow> u16 \<Rightarrow> u16 \<Rightarrow> net \<Rightarrow> (nat option \<times> net) result" where
  "udp_alloc_nbuf env destinationIp destinationPort n s =
     rbind (ip_alloc_nbuf env destinationIp 64 IPPROTO_UDP (8 + n) s) (\<lambda>(r, s1).
       case r of
         None \<Rightarrow> Inr (None, s1)
       | Some i \<Rightarrow>
           rbind (nbuf_at i s1) (\<lambda>nb.
           rbind (udp_hdr nb) (\<lambda>u.
           rassert (in_buffer u 8 nb) out_of_bounds
             (Inr (Some i, nbuf_store i (nb\<lparr>nb_data :=
                put_bytes u (bytes16 0 @ bytes16 destinationPort @ bytes16 (8 + n) @ bytes16 0) (nb_data nb)\<rparr>) s1)))))"

definition udp_output :: "net_env \<Rightarrow> nat \<Rightarrow> net \<Rightarrow> (int \<times> net) result" where
  "udp_output env i s =
     rbind (nbuf_at i s) (\<lambda>nb.
     rbind (udp_hdr nb) (\<lambda>u.
     rbind (ip_hdr nb) (\<lambda>h.
     rassert (in_buffer h 20 nb \<and> in_buffer u 8 nb \<and> in_buffer u (unat (get16 (u + 4) (nb_data nb))) nb) out_of_bounds
       (ip_output env i (nbuf_store i
          (nb\<lparr>nb_data := put_bytes (u + 6) (bytes16 (udp_checksum h u (nb_data nb))) (nb_data nb)\<rparr>) s)))))"

definition getUdpDescriptorByPort :: "u16 \<Rightarrow> net \<Rightarrow> nat option" where
  "getUdpDescriptorByPort port s = n_ports s port"

definition udp_store :: "nat \<Rightarrow> UdpFileDescriptor \<Rightarrow> net \<Rightarrow> net" where
  "udp_store k fd s = s\<lparr>n_udp := AList.update k fd (n_udp s)\<rparr>"

definition udp_at :: "nat \<Rightarrow> net \<Rightarrow> UdpFileDescriptor result" where
  "udp_at k s = (case map_of (n_udp s) k of None \<Rightarrow> Inl (Undefined ''deleted UDP descriptor'') | Some fd \<Rightarrow> Inr fd)"

text \<open>Nobody looks whether the queue of the descriptor took the packet.\<close>

definition udp_input :: "net_env \<Rightarrow> nat \<Rightarrow> net \<Rightarrow> (int \<times> net) result" where
  "udp_input env i s =
     rbind (nbuf_at i s) (\<lambda>nb.
     rbind (udp_hdr nb) (\<lambda>u.
     rbind (udp_validate_packet nb u) (\<lambda>valid.
       if \<not> valid then rbind (nbuf_free i s) (\<lambda>s1. Inr (-1, s1))
       else
         case getUdpDescriptorByPort (get16 (u + 2) (nb_data nb)) s of
           None \<Rightarrow>
             rbind (icmp_reject env 3 3 i s) (\<lambda>(_, s1). rbind (nbuf_free i s1) (\<lambda>s2. Inr (-1, s2)))
         | Some k \<Rightarrow>
             rbind (udp_at k s) (\<lambda>fd.
               Inr (0, udp_store k (fd\<lparr>us_rxQueue := snd (q_push (\<lambda>q. q) False i (us_rxQueue fd))\<rparr>) s)))))"

subsection \<open>Descriptors\<close>

definition RX_QUEUE_SIZE :: nat where "RX_QUEUE_SIZE = 32"

definition new_UdpFileDescriptor :: UdpFileDescriptor where
  "new_UdpFileDescriptor = \<lparr>us_sourcePort = 0, us_dstAddress = no_addr, us_rxQueue = new_queue RX_QUEUE_SIZE\<rparr>"

text \<open>\<open>rnd\<close> is \<open>rand () % UINT16_MAX\<close>.\<close>

definition udp_bind :: "net_env \<Rightarrow> u16 \<Rightarrow> nat \<Rightarrow> SocketAddress \<Rightarrow> net \<Rightarrow> (int \<times> net) result" where
  "udp_bind env rnd k addr s =
     rbind (udp_at k s) (\<lambda>fd.
       if sa_address addr \<noteq> 0 then Inr (-1, s)
       else
         let port = (if sa_port addr = 0 then rnd else sa_port addr) in
         if n_ports s port \<noteq> None then Inr (-1, s)
         else
           let s1 = (if ne_table env (ucast port) then s\<lparr>n_ports := (n_ports s)(port \<mapsto> k)\<rparr> else s)
           in Inr (0, udp_store k (fd\<lparr>us_sourcePort := port\<rparr>) s1))"

definition udp_connect :: "nat \<Rightarrow> SocketAddress \<Rightarrow> net \<Rightarrow> (int \<times> net) result" where
  "udp_connect k addr s =
     rbind (udp_at k s) (\<lambda>fd.
       if sa_address addr = 0 \<or> sa_port addr = 0 then Inr (-1, s)
       else Inr (0, udp_store k (fd\<lparr>us_dstAddress := addr\<rparr>) s))"

text \<open>
  A datagram of a descriptor: its payload cut to \<open>n\<close> bytes and the sender. Without one the call waits: \<open>None\<close>.
  \<open>udp_recvfrom_copy\<close> is the call from the point where it has taken the buffer. \<open>pop\<close> tests the queue before it takes the lock;
  \<open>udp_recvfrom_locked\<close> is what it then does under the lock, where the queue may have become empty.
\<close>

definition udp_recvfrom_copy :: "nat \<Rightarrow> nat \<Rightarrow> net \<Rightarrow> ((u8 list \<times> SocketAddress) option \<times> net) result" where
  "udp_recvfrom_copy n i s1 =
     rbind (nbuf_at i s1) (\<lambda>nb.
     rbind (udp_hdr nb) (\<lambda>u.
     rbind (ip_hdr nb) (\<lambda>h.
       let m = min (unat (udp_data_length u (nb_data nb))) n in
       rassert (in_buffer h 20 nb \<and> in_buffer u (8 + m) nb) out_of_bounds
         (rbind (nbuf_free i s1) (\<lambda>s2.
            Inr (Some (bytes_at (u + 8) m (nb_data nb),
                       \<lparr>sa_address = get32 (h + 12) (nb_data nb), sa_port = get16 u (nb_data nb)\<rparr>), s2))))))"

definition udp_recvfrom_locked :: "nat \<Rightarrow> net \<Rightarrow> (nat \<times> net) result" where
  "udp_recvfrom_locked k s =
     rbind (udp_at k s) (\<lambda>fd.
       case q_data (us_rxQueue fd) of
         [] \<Rightarrow> Inl (Undefined ''front of an empty vector'')
       | i # is \<Rightarrow> Inr (i, udp_store k (fd\<lparr>us_rxQueue := (us_rxQueue fd)\<lparr>q_data := is\<rparr>\<rparr>) s))"

definition udp_recvfrom :: "nat \<Rightarrow> nat \<Rightarrow> net \<Rightarrow> ((u8 list \<times> SocketAddress) option \<times> net) result" where
  "udp_recvfrom k n s =
     rbind (udp_at k s) (\<lambda>fd.
       case q_pop (\<lambda>q. q) False (us_rxQueue fd) of
         (None, q) \<Rightarrow> Inr (None, s)
       | (Some i, q) \<Rightarrow> udp_recvfrom_copy n i (udp_store k (fd\<lparr>us_rxQueue := q\<rparr>) s))"

text \<open>\<open>buffer\<close> holds the \<open>size\<close> bytes to send; the length handed to \<open>udp_alloc_nbuf\<close> is cut to 16 bits.\<close>

definition udp_sendto :: "net_env \<Rightarrow> u16 \<Rightarrow> nat \<Rightarrow> u8 list \<Rightarrow> SocketAddress \<Rightarrow> net \<Rightarrow> (int \<times> net) result" where
  "udp_sendto env rnd k buffer address s =
     (if sa_address address = 0 \<or> sa_port address = 0 then Inr (-1, s)
      else
        rbind (udp_alloc_nbuf env (sa_address address) (sa_port address) (of_nat (length buffer)) s) (\<lambda>(r, s1).
          case r of
            None \<Rightarrow> Inr (-1, s1)
          | Some i \<Rightarrow>
              rbind (udp_at k s1) (\<lambda>fd.
              rbind (if us_sourcePort fd = 0 then udp_bind env rnd k no_addr s1 else Inr (0, s1)) (\<lambda>(b, s2).
                if b = -1 then rbind (nbuf_free i s2) (\<lambda>s3. Inr (-1, s3))
                else
                  rbind (udp_at k s2) (\<lambda>fd2.
                  rbind (nbuf_at i s2) (\<lambda>nb.
                  rbind (udp_hdr nb) (\<lambda>u.
                  rassert (in_buffer u (8 + length buffer) nb) out_of_bounds
                    (let d = put_bytes (u + 8) buffer (put_bytes u (bytes16 (us_sourcePort fd2)) (nb_data nb)) in
                     rbind (udp_output env i (nbuf_store i (nb\<lparr>nb_data := d\<rparr>) s2)) (\<lambda>(r2, s3).
                       Inr (if r2 \<noteq> 0 then -1 else int (length buffer), s3))))))))))"

definition udp_write :: "net_env \<Rightarrow> u16 \<Rightarrow> nat \<Rightarrow> u8 list \<Rightarrow> net \<Rightarrow> (int \<times> net) result" where
  "udp_write env rnd k buffer s = rbind (udp_at k s) (\<lambda>fd. udp_sendto env rnd k buffer (us_dstAddress fd) s)"

fun free_all :: "nat list \<Rightarrow> net \<Rightarrow> net result" where
  "free_all [] s = Inr s"
| "free_all (i # is) s = rbind (nbuf_free i s) (free_all is)"

definition udp_close :: "nat \<Rightarrow> net \<Rightarrow> net result" where
  "udp_close k s =
     rbind (udp_at k s) (\<lambda>fd.
       let s1 = (if us_sourcePort fd \<noteq> 0 then s\<lparr>n_ports := (n_ports s)(us_sourcePort fd := None)\<rparr> else s);
           fd1 = (if us_sourcePort fd \<noteq> 0 then fd\<lparr>us_sourcePort := 0, us_dstAddress := no_addr\<rparr> else fd)
       in free_all (q_data (us_rxQueue fd)) (udp_store k (fd1\<lparr>us_rxQueue := (us_rxQueue fd)\<lparr>q_data := []\<rparr>\<rparr>) s1))"

definition new_udp :: "nat \<Rightarrow> net \<Rightarrow> net" where
  "new_udp k s = udp_store k new_UdpFileDescriptor s"

text \<open>The destructor closes the descriptor; what the table of ports still says of it stays there.\<close>

definition delete_udp :: "nat \<Rightarrow> net \<Rightarrow> net result" where
  "delete_udp k s = rbind (udp_close k s) (\<lambda>s1. Inr (s1\<lparr>n_udp := filter (\<lambda>d. fst d \<noteq> k) (n_udp s1)\<rparr>))"

definition udp_poll :: "nat \<Rightarrow> net \<Rightarrow> (bool \<times> bool) result" where
  "udp_poll k s = rbind (udp_at k s) (\<lambda>fd. Inr (\<not> q_empty (us_rxQueue fd), True))"

section \<open>Raw sockets\<close>

definition new_RawIpFileDescriptor :: "nat \<Rightarrow> net \<Rightarrow> net" where
  "new_RawIpFileDescriptor k s = s\<lparr>n_rawSockets := n_rawSockets s @ [(k, new_queue RX_QUEUE_SIZE)]\<rparr>"

definition delete_RawIpFileDescriptor :: "nat \<Rightarrow> net \<Rightarrow> net" where
  "delete_RawIpFileDescriptor k s = s\<lparr>n_rawSockets := filter (\<lambda>r. fst r \<noteq> k) (n_rawSockets s)\<rparr>"

definition raw_set :: "nat \<Rightarrow> nat basic_queue \<Rightarrow> net \<Rightarrow> net" where
  "raw_set k q s = s\<lparr>n_rawSockets := AList.update k q (n_rawSockets s)\<rparr>"

definition raw_read :: "nat \<Rightarrow> nat \<Rightarrow> net \<Rightarrow> (u8 list option \<times> net) result" where
  "raw_read k n s =
     (case map_of (n_rawSockets s) k of
        None \<Rightarrow> Inl (Undefined ''deleted raw descriptor'')
      | Some q \<Rightarrow>
          (case q_pop (\<lambda>q. q) False q of
             (None, q1) \<Rightarrow> Inr (None, s)
           | (Some i, q1) \<Rightarrow>
               let s1 = raw_set k q1 s in
               rbind (nbuf_at i s1) (\<lambda>nb.
               rbind (ip_hdr nb) (\<lambda>h.
               rbind (nbuf_size_from nb h) (\<lambda>m.
                 let c = min (unat m) n in
                 rassert (in_buffer h c nb) out_of_bounds
                   (rbind (nbuf_free i s1) (\<lambda>s2. Inr (Some (bytes_at h c (nb_data nb)), s2))))))))"

definition raw_close :: "nat \<Rightarrow> net \<Rightarrow> net result" where
  "raw_close k s =
     (case map_of (n_rawSockets s) k of
        None \<Rightarrow> Inl (Undefined ''deleted raw descriptor'')
      | Some q \<Rightarrow> free_all (q_data q) (raw_set k (q\<lparr>q_data := []\<rparr>) s))"

section \<open>Receiving\<close>

text \<open>A copy for every raw socket; nobody looks whether its queue took it.\<close>

fun push_raw :: "net_env \<Rightarrow> nat \<Rightarrow> nat list \<Rightarrow> net \<Rightarrow> net result" where
  "push_raw env i [] s = Inr s"
| "push_raw env i (k # ks) s =
     rbind (nbuf_clone env i s) (\<lambda>(c, s1).
       case map_of (n_rawSockets s1) k of
         None \<Rightarrow> push_raw env i ks s1
       | Some q \<Rightarrow> push_raw env i ks (raw_set k (snd (q_push (\<lambda>q. q) False c q)) s1))"

text \<open>
  TCP as far as buffers go: segments for its input task, a segment that a session sends (allocated, filled and
  handed to IP), and the round of the input task, which always frees the buffer.
\<close>

definition tcp_input_nbuf :: "nat \<Rightarrow> net \<Rightarrow> (int \<times> net) result" where
  "tcp_input_nbuf i s =
     rbind (nbuf_at i s) (\<lambda>nb.
     rbind (tcp_hdr nb) (\<lambda>t.
     rbind (ip_hdr nb) (\<lambda>h.
     rbind (nbuf_size_from nb t) (\<lambda>n.
     rassert (in_buffer h 20 nb) out_of_bounds
       (let d = nb_data nb;
            pkt = (get32 (h + 12) d, get32 (h + 16) d, ip_data_length h d, bytes_at t (unat n) d) in
        if \<not> tcp_validate_packet pkt then rbind (nbuf_free i s) (\<lambda>s1. Inr (-1, s1))
        else case q_push (\<lambda>q. q) False i (n_inSegments s) of
               (False, q) \<Rightarrow> rbind (nbuf_free i s) (\<lambda>s1. Inr (-1, s1))
             | (True, q) \<Rightarrow> Inr (0, s\<lparr>n_inSegments := q\<rparr>))))))"

definition tcp_send_nbuf :: "net_env \<Rightarrow> u32 \<Rightarrow> tcp_t \<Rightarrow> net \<Rightarrow> (bool \<times> net) result" where
  "tcp_send_nbuf env dst tcp s =
     rbind (ip_alloc_nbuf env dst 64 IPPROTO_TCP (of_nat (length (tcp_bytes tcp))) s) (\<lambda>(r, s1).
       case r of
         None \<Rightarrow> Inr (False, s1)
       | Some i \<Rightarrow>
           rbind (nbuf_at i s1) (\<lambda>nb.
           rbind (tcp_hdr nb) (\<lambda>t.
           rassert (in_buffer t (length (tcp_bytes tcp)) nb) out_of_bounds
             (rbind (ip_output env i (nbuf_store i (nb\<lparr>nb_data := put_bytes t (tcp_bytes tcp) (nb_data nb)\<rparr>) s1)) (\<lambda>(c, s2).
                Inr (c = 0, s2))))))"

definition tcp_in_main_nbuf :: "net \<Rightarrow> net result" where
  "tcp_in_main_nbuf s =
     (case q_pop (\<lambda>q. q) False (n_inSegments s) of
        (None, q) \<Rightarrow> Inr s
      | (Some i, q) \<Rightarrow> nbuf_free i (s\<lparr>n_inSegments := q\<rparr>))"

text \<open>\<open>IP_FLAGS\<close> shifts the 16-bit field by 5, not by 13.\<close>

definition ip_is_valid :: "nat \<Rightarrow> u8 list \<Rightarrow> bool" where
  "ip_is_valid h d =
     (if 5 > d ! h AND 0xf then False
      else if drop_bit 5 (get16 (h + 6) d) AND 1 \<noteq> 0 then False
      else if get16 (h + 10) d \<noteq> ip_checksum h d then False
      else True)"

definition ip_hint_arp_cache :: "net_env \<Rightarrow> NetworkBuffer \<Rightarrow> net \<Rightarrow> net result" where
  "ip_hint_arp_cache env nb s =
     rbind (ethernet_hdr nb) (\<lambda>e.
     rbind (ip_hdr nb) (\<lambda>h.
     rassert (in_buffer e 14 nb \<and> in_buffer h 20 nb) out_of_bounds
       (Inr (arp_set_entry env (nb_device nb) (bytes_at (e + 6) 6 (nb_data nb)) (get32 (h + 12) (nb_data nb)) s))))"

definition ip_deliver :: "net_env \<Rightarrow> u8 \<Rightarrow> nat \<Rightarrow> net \<Rightarrow> (int \<times> net) result" where
  "ip_deliver env proto i s =
     (if proto = IPPROTO_ICMP then rbind (icmp_input env i s) (\<lambda>(_, s1). Inr (0, s1))
      else if proto = IPPROTO_TCP then rbind (tcp_input_nbuf i s) (\<lambda>(_, s1). Inr (0, s1))
      else if proto = IPPROTO_UDP then rbind (udp_input env i s) (\<lambda>(_, s1). Inr (0, s1))
      else rbind (nbuf_free i s) (\<lambda>s1. Inr (-1, s1)))"

definition ip_input :: "net_env \<Rightarrow> nat \<Rightarrow> net \<Rightarrow> (int \<times> net) result" where
  "ip_input env i s =
     rbind (nbuf_at i s) (\<lambda>nb.
     rbind (ip_hdr nb) (\<lambda>h.
     rbind (nbuf_size_from nb h) (\<lambda>n.
       if n < 20 then rbind (nbuf_free i s) (\<lambda>s1. Inr (-1, s1))
       else
         rassert (in_buffer h 20 nb) out_of_bounds
           (let d = nb_data nb in
            if 4 \<noteq> drop_bit 4 (d ! h) then rbind (nbuf_free i s) (\<lambda>s1. Inr (-1, s1))
            else
              rassert (in_buffer h (unat (d ! h AND 0xf) * 4) nb) out_of_bounds
                (if \<not> ip_is_valid h d then rbind (nbuf_free i s) (\<lambda>s1. Inr (-1, s1))
                 else
                   rbind (nbuf_set_l4 (h + 20) (ucast (d ! (h + 9))) nb) (\<lambda>nb1.
                   rbind (ip_hint_arp_cache env nb1 (nbuf_store i nb1 s)) (\<lambda>s1.
                   rbind (push_raw env i (map fst (n_rawSockets s1)) s1) (\<lambda>s2.
                     case interface_get (nb_device nb1) s2 of
                       None \<Rightarrow> rbind (nbuf_free i s2) (\<lambda>s3. Inr (-1, s3))
                     | Some iface \<Rightarrow>
                         if \<not> is_ip_on_same_network (get32 (h + 12) d) (if_address iface) (if_netmask iface)
                         then rbind (nbuf_free i s2) (\<lambda>s3. Inr (-1, s3))
                         else ip_deliver env (d ! (h + 9)) i s2))))))))"

definition ip_handler :: "net_env \<Rightarrow> nat \<Rightarrow> net \<Rightarrow> net result" where
  "ip_handler env i s = rbind (ip_input env i s) (\<lambda>(_, s1). Inr s1)"

text \<open>One round of the receiving thread of the Ethernet layer.\<close>

definition call_handler :: "eth_handler \<Rightarrow> net_env \<Rightarrow> nat \<Rightarrow> net \<Rightarrow> net result" where
  "call_handler h = (case h of Arp_handler \<Rightarrow> arp_handler | Ip_handler \<Rightarrow> ip_handler)"

definition ethernet_rx_main :: "net_env \<Rightarrow> net \<Rightarrow> net result" where
  "ethernet_rx_main env s =
     (case q_pop (\<lambda>q. q) False (n_rx s) of
        (None, q) \<Rightarrow> Inr s
      | (Some i, q) \<Rightarrow>
          let s1 = s\<lparr>n_rx := q\<rparr> in
          rbind (nbuf_at i s1) (\<lambda>nb.
          rbind (ethernet_hdr nb) (\<lambda>e.
          rassert (in_buffer e 14 nb) out_of_bounds
            (case find_handler (get16 (e + 12) (nb_data nb)) s1 of
               None \<Rightarrow> nbuf_free i s1
             | Some handler \<Rightarrow>
                 (case find_device_by_phy (nb_device nb) s1 of
                    None \<Rightarrow> Inl (Assertion ''ethernetDevice != nullptr'')
                  | Some dev \<Rightarrow>
                      if nb_data nb ! e AND 1 = 0 \<and> bytes_at e 6 (nb_data nb) \<noteq> ed_mac dev then nbuf_free i s1
                      else
                        rbind (nbuf_set_l3 (e + 14) (get16 (e + 12) (nb_data nb)) (nbuf_set_device (ed_name dev) nb)) (\<lambda>nb1.
                          call_handler handler env i (nbuf_store i nb1 s1)))))))"

end
