(* ===== verification/Net_Owner.thy ===== *)
theory Net_Owner
  imports Ip "HOL-Library.Multiset"
begin

text \<open>
  Who owns which network buffer. Every queue, ring and pending timer holds buffers; a function that is given one
  holds it too until it hands it on. The rules below follow this through the code: no buffer has two owners and an
  owned buffer is not freed.
\<close>

section \<open>Runs that do not touch freed buffers\<close>

definition safe :: "('a \<Rightarrow> bool) \<Rightarrow> 'a result \<Rightarrow> bool" where
  "safe Q m \<longleftrightarrow> (case m of Inl e \<Rightarrow> e \<noteq> freed | Inr y \<Rightarrow> Q y)"

lemma safe_simps [simp]: "safe Q (Inr y) = Q y" "safe Q (Inl e) = (e \<noteq> freed)"
  by (simp_all add: safe_def)

lemma safe_bind: "safe P m \<Longrightarrow> (\<And>x. P x \<Longrightarrow> safe Q (f x)) \<Longrightarrow> safe Q (rbind m f)"
  by (cases m) simp_all

lemma safe_rassert: "e \<noteq> freed \<Longrightarrow> (b \<Longrightarrow> safe Q m) \<Longrightarrow> safe Q (rassert b e m)"
  by (simp add: rassert_def)

lemma safe_mono: "safe P m \<Longrightarrow> (\<And>x. P x \<Longrightarrow> Q x) \<Longrightarrow> safe Q m"
  by (cases m) simp_all

section \<open>Owners\<close>

definition res_bufs :: "resolve \<Rightarrow> nat list" where
  "res_bufs r = [rs_nbuf r, fst (rs_ctx r), snd (rs_ctx r)]"

definition owned :: "net \<Rightarrow> nat list" where
  "owned s =
     n_rxBuffers s @ q_data (n_rx s) @ q_data (n_tx s) @ concat (map res_bufs (n_resolving s)) @
     concat (map (\<lambda>r. q_data (snd r)) (n_rawSockets s)) @
     concat (map (\<lambda>d. q_data (us_rxQueue (snd d))) (n_udp s)) @ q_data (n_inSegments s)"

text \<open>
  \<open>own F s\<close>: the buffers in the multiset \<open>F\<close>, which the running code holds, and the owned ones
  are all different and alive; new numbers are fresh; a table has one entry per descriptor.
\<close>

definition own :: "nat multiset \<Rightarrow> net \<Rightarrow> bool" where
  "own F s \<longleftrightarrow>
     (\<forall>i. count (mset (owned s) + F) i \<le> (if n_bufs s i = None then 0 else 1)) \<and>
     (\<forall>i\<ge>n_next s. n_bufs s i = None) \<and>
     distinct (map fst (n_rawSockets s)) \<and> distinct (map fst (n_udp s))"

lemma own_count: "own F s \<Longrightarrow> count (mset (owned s) + F) i \<le> (if n_bufs s i = None then 0 else 1)"
  unfolding own_def by blast

lemma own_fresh: "own F s \<Longrightarrow> n_next s \<le> i \<Longrightarrow> n_bufs s i = None"
  unfolding own_def by blast

lemma own_keys: "own F s \<Longrightarrow> distinct (map fst (n_rawSockets s)) \<and> distinct (map fst (n_udp s))"
  unfolding own_def by blast

lemma ownI:
  assumes "\<And>i. count (mset (owned s) + F) i \<le> (if n_bufs s i = None then 0 else 1)"
    "\<And>i. n_next s \<le> i \<Longrightarrow> n_bufs s i = None"
    "distinct (map fst (n_rawSockets s)) \<and> distinct (map fst (n_udp s))"
  shows "own F s"
  using assms unfolding own_def by blast

lemma own_alive:
  assumes "own F s" "i \<in># F" obtains nb where "n_bufs s i = Some nb"
proof (cases "n_bufs s i")
  case None
  then have "count (mset (owned s) + F) i = 0" using own_count [OF assms(1), of i] by simp
  then show ?thesis using assms(2) by (simp add: not_in_iff [symmetric])
qed (use that in blast)

text \<open>Changes that touch neither buffers nor owners, or drop owners.\<close>

lemma own_weaken:
  assumes "own F s" "n_bufs s' = n_bufs s" "n_next s' = n_next s" "mset (owned s') + G \<subseteq># mset (owned s) + F"
    "distinct (map fst (n_rawSockets s'))" "distinct (map fst (n_udp s'))"
  shows "own G s'"
proof (rule ownI)
  fix i
  have "count (mset (owned s') + G) i \<le> count (mset (owned s) + F) i" using assms(4) by (rule mset_subset_eq_count)
  also have "\<dots> \<le> (if n_bufs s i = None then 0 else 1)" by (rule own_count [OF assms(1)])
  finally show "count (mset (owned s') + G) i \<le> (if n_bufs s' i = None then 0 else 1)" by (simp only: assms(2))
  show "n_bufs s' i = None" if "n_next s' \<le> i" using own_fresh [OF assms(1)] that by (simp add: assms(2,3))
qed (use assms in blast)

lemma own_move:
  assumes "own F s" "n_bufs s' = n_bufs s" "n_next s' = n_next s" "mset (owned s') + G \<subseteq># mset (owned s) + F"
    "map fst (n_rawSockets s') = map fst (n_rawSockets s)" "map fst (n_udp s') = map fst (n_udp s)"
  shows "own G s'"
  using own_weaken [OF assms(1-4)] own_keys [OF assms(1)] assms(5,6) by simp

section \<open>Rules for the store\<close>

lemma safe_at: "own F s \<Longrightarrow> i \<in># F \<Longrightarrow> (\<And>nb. n_bufs s i = Some nb \<Longrightarrow> Q nb) \<Longrightarrow> safe Q (nbuf_at i s)"
  by (erule (1) own_alive) (simp add: nbuf_at_def)

lemma owned_store [simp]: "owned (nbuf_store i nb s) = owned s"
  by (simp add: owned_def nbuf_store_def)

lemma own_store:
  assumes "own F s" "i \<in># F" shows "own F (nbuf_store i nb s)"
proof -
  obtain nb0 where nb0: "n_bufs s i = Some nb0" using own_alive [OF assms] .
  have b: "n_bufs (nbuf_store i nb s) j = None \<longleftrightarrow> n_bufs s j = None" for j using nb0 by (simp add: nbuf_store_def)
  show ?thesis
  proof (rule ownI)
    fix j show "count (mset (owned (nbuf_store i nb s)) + F) j \<le> (if n_bufs (nbuf_store i nb s) j = None then 0 else 1)"
      unfolding b owned_store by (rule own_count [OF assms(1)])
    show "n_bufs (nbuf_store i nb s) j = None" if "n_next (nbuf_store i nb s) \<le> j"
      using own_fresh [OF assms(1)] that unfolding b by (simp add: nbuf_store_def)
  qed (use own_keys [OF assms(1)] in \<open>simp add: nbuf_store_def\<close>)
qed

lemma safe_free:
  assumes "own (add_mset i F) s" "\<And>s'. own F s' \<Longrightarrow> Q s'"
  shows "safe Q (nbuf_free i s)"
proof -
  let ?s = "s\<lparr>n_bufs := (n_bufs s)(i := None)\<rparr>"
  have o: "owned ?s = owned s" by (simp add: owned_def)
  have "own F ?s"
  proof (rule ownI)
    fix j show "count (mset (owned ?s) + F) j \<le> (if n_bufs ?s j = None then 0 else 1)"
      using own_count [OF assms(1), of j] unfolding o by (auto split: if_splits)
    show "n_bufs ?s j = None" if "n_next ?s \<le> j" using own_fresh [OF assms(1)] that by simp
  qed (use own_keys [OF assms(1)] in simp)
  moreover obtain nb where "n_bufs s i = Some nb" using own_alive [OF assms(1), of i] by auto
  ultimately show ?thesis using assms(2) by (simp add: nbuf_free_def nbuf_at_def)
qed

lemma own_alloc_aligned:
  assumes "own F s" "nbuf_alloc_aligned env n a s = (r, s')"
  shows "own (case r of None \<Rightarrow> F | Some i \<Rightarrow> add_mset i F) s'"
proof (cases r)
  case None
  then have "s' = s \<or> s' = s\<lparr>n_next := Suc (n_next s)\<rparr>"
    using assms(2) by (auto simp: nbuf_alloc_aligned_def Let_def split: if_splits)
  then have "own F s'" using assms(1) by (elim disjE) (auto simp: own_def owned_def)
  then show ?thesis using None by simp
next
  case (Some i)
  obtain nb where s': "i = n_next s" "s' = s\<lparr>n_next := Suc i, n_bufs := (n_bufs s)(i \<mapsto> nb)\<rparr>"
    using assms(2) Some by (auto simp: nbuf_alloc_aligned_def Let_def split: if_splits)
  have o: "owned s' = owned s" by (simp add: owned_def s')
  have none: "n_bufs s i = None" using own_fresh [OF assms(1)] s'(1) by simp
  have "own (add_mset i F) s'"
  proof (rule ownI)
    fix j show "count (mset (owned s') + add_mset i F) j \<le> (if n_bufs s' j = None then 0 else 1)"
      using own_count [OF assms(1), of j] none unfolding o by (cases "j = i") (auto simp: s'(2))
    show "n_bufs s' j = None" if "n_next s' \<le> j" using own_fresh [OF assms(1), of j] that s' by simp
  qed (use own_keys [OF assms(1)] s' in simp)
  then show ?thesis using Some by simp
qed

lemma own_alloc: "own F s \<Longrightarrow> nbuf_alloc env n s = (r, s') \<Longrightarrow> own (case r of None \<Rightarrow> F | Some i \<Rightarrow> add_mset i F) s'"
  unfolding nbuf_alloc_def by (rule own_alloc_aligned)

section \<open>Rules for the code around it\<close>

lemma safe_bind_at:
  "own F s \<Longrightarrow> i \<in># F \<Longrightarrow> (\<And>nb. n_bufs s i = Some nb \<Longrightarrow> safe Q (f nb)) \<Longrightarrow> safe Q (rbind (nbuf_at i s) f)"
  by (erule (1) own_alive) (simp add: nbuf_at_def)

lemma safe_bind_pure: "m \<noteq> Inl freed \<Longrightarrow> (\<And>x. m = Inr x \<Longrightarrow> safe Q (f x)) \<Longrightarrow> safe Q (rbind m f)"
  by (cases m) simp_all

lemma nbuf_ops_pure [simp]:
  "nbuf_size_from nb p \<noteq> Inl freed" "nbuf_set_l2 p nb \<noteq> Inl freed" "nbuf_set_l3 p x nb \<noteq> Inl freed"
  "nbuf_set_l4 p x nb \<noteq> Inl freed" "nbuf_set_size n nb \<noteq> Inl freed" "nbuf_offset nb p \<noteq> Inl freed"
  "ethernet_hdr nb \<noteq> Inl freed" "l3_hdr x nb \<noteq> Inl freed" "l4_hdr y nb \<noteq> Inl freed"
  by (auto simp: nbuf_size_from_def nbuf_set_l2_def nbuf_set_l3_def nbuf_set_l4_def nbuf_set_size_def nbuf_offset_def
      ethernet_hdr_def l3_hdr_def l4_hdr_def rassert_def split: option.splits)

lemma hdr_pure [simp]:
  "arp_hdr nb \<noteq> Inl freed" "ip_hdr nb \<noteq> Inl freed" "icmp_v4_hdr nb \<noteq> Inl freed" "udp_hdr nb \<noteq> Inl freed"
  "tcp_hdr nb \<noteq> Inl freed"
  by (simp_all add: arp_hdr_def ip_hdr_def icmp_v4_hdr_def udp_hdr_def tcp_hdr_def)

lemma own_fields [simp]:
  "own F (s\<lparr>n_arp := a\<rparr>) = own F s" "own F (s\<lparr>n_wire := w\<rparr>) = own F s" "own F (s\<lparr>n_gId := g\<rparr>) = own F s"
  "own F (s\<lparr>n_interfaces := x\<rparr>) = own F s" "own F (s\<lparr>n_if_capacity := c\<rparr>) = own F s"
  "own F (s\<lparr>n_if_moved := c\<rparr>) = own F s" "own F (s\<lparr>n_rtable := r\<rparr>) = own F s" "own F (s\<lparr>n_ports := p\<rparr>) = own F s"
  "own F (s\<lparr>n_handlers := h\<rparr>) = own F s" "own F (s\<lparr>n_devices := d\<rparr>) = own F s" "own F (s\<lparr>n_devIndex := c\<rparr>) = own F s"
  by (simp_all add: own_def owned_def)

lemma own_drop: "own (add_mset i F) s \<Longrightarrow> own F s"
  by (erule own_move) simp_all

text \<open>Queues.\<close>

lemma own_push_tx: "own (add_mset i F) s \<Longrightarrow> q_push w False i (n_tx s) = (True, q) \<Longrightarrow> own F (s\<lparr>n_tx := q\<rparr>)"
  by (erule own_move) (auto simp: q_push_nowait owned_def split: if_splits)

lemma own_push_rx: "own (add_mset i F) s \<Longrightarrow> q_push w False i (n_rx s) = (True, q) \<Longrightarrow> own F (s\<lparr>n_rx := q\<rparr>)"
  by (erule own_move) (auto simp: q_push_nowait owned_def split: if_splits)

lemma own_push_segment:
  "own (add_mset i F) s \<Longrightarrow> q_push w False i (n_inSegments s) = (True, q) \<Longrightarrow> own F (s\<lparr>n_inSegments := q\<rparr>)"
  by (erule own_move) (auto simp: q_push_nowait owned_def split: if_splits)

lemma own_pop_tx: "own F s \<Longrightarrow> q_pop w False (n_tx s) = (Some i, q) \<Longrightarrow> own (add_mset i F) (s\<lparr>n_tx := q\<rparr>)"
  by (erule own_move) (auto simp: q_pop_nowait owned_def split: list.splits)

lemma own_pop_rx: "own F s \<Longrightarrow> q_pop w False (n_rx s) = (Some i, q) \<Longrightarrow> own (add_mset i F) (s\<lparr>n_rx := q\<rparr>)"
  by (erule own_move) (auto simp: q_pop_nowait owned_def split: list.splits)

lemma own_pop_segment:
  "own F s \<Longrightarrow> q_pop w False (n_inSegments s) = (Some i, q) \<Longrightarrow> own (add_mset i F) (s\<lparr>n_inSegments := q\<rparr>)"
  by (erule own_move) (auto simp: q_pop_nowait owned_def split: list.splits)

end
