(* ===== verification/Net_Safe.thy ===== *)
theory Net_Safe
  imports Net_Owner
begin

text \<open>
  Every function of the network stack follows the ownership of buffers: given the buffers it is entitled to, it
  touches no freed buffer and leaves every buffer with at most one owner.
\<close>

lemmas safe_intros = safe_bind_at safe_bind_pure safe_rassert

abbreviation own_opt :: "nat multiset \<Rightarrow> nat option \<Rightarrow> net \<Rightarrow> bool" where
  "own_opt F r s \<equiv> own (case r of None \<Rightarrow> F | Some i \<Rightarrow> add_mset i F) s"

lemma safe_free_ret: "own (add_mset i F) s \<Longrightarrow> safe (\<lambda>(r, s'). own F s') (rbind (nbuf_free i s) (\<lambda>s2. Inr (c, s2)))"
  by (rule safe_bind [OF safe_free [where Q = "own F"]]) auto

section \<open>Ethernet\<close>

lemma safe_send:
  assumes o: "own (add_mset i F) s"
  shows "safe (\<lambda>(r, s'). own F s') (ethernet_send_packet i dst s)"
proof -
  have st: "own (add_mset i F) (nbuf_store i nb s)" for nb using o by (rule own_store) simp
  show ?thesis
    unfolding ethernet_send_packet_def
    by (rule safe_bind_at [OF o], simp, rule safe_bind_pure, simp, rule safe_rassert, simp)
      (auto simp: Let_def split: prod.splits bool.splits intro: own_push_tx [OF st] safe_free_ret [OF st])
qed

lemma safe_tx:
  assumes "own F s" shows "safe (own F) (ethernet_tx_round xmit s)"
proof (cases "q_pop (\<lambda>q. q) False (n_tx s)")
  case (Pair r q)
  show ?thesis
  proof (cases r)
    case None then show ?thesis using assms Pair by (simp add: ethernet_tx_round_def)
  next
    case (Some i)
    have o: "own (add_mset i F) (s\<lparr>n_tx := q\<rparr>)" using own_pop_tx [OF assms] Pair Some by simp
    then have w: "own (add_mset i F) (s\<lparr>n_tx := q, n_wire := w\<rparr>)" for w using own_fields(2) by metis
    show ?thesis unfolding ethernet_tx_round_def Pair Some
      by (simp add: Let_def, rule safe_bind_at [OF o])
        (auto intro!: safe_bind_pure safe_rassert safe_free [OF o] safe_free [OF w]
          simp: Let_def split: option.splits)
  qed
qed

lemma safe_absorb:
  assumes o: "own (add_mset i F) s"
  shows "safe (own F) (ethernet_absorb_packet i phy s)"
proof -
  have st: "own (add_mset i F) (nbuf_store i nb s)" for nb using o by (rule own_store) simp
  show ?thesis
    unfolding ethernet_absorb_packet_def
    by (rule safe_bind_at [OF o]; auto intro!: safe_bind_pure simp: Let_def split: prod.splits bool.splits)
      (auto intro: own_push_rx [OF st] safe_free [OF st])
qed

lemma safe_ethernet_alloc:
  assumes "own F s"
  shows "safe (\<lambda>(r, s'). own_opt F r s') (ethernet_alloc_nbuf env dev proto n s)"
proof (cases "nbuf_alloc env (14 + n) s")
  case (Pair r s1)
  note o = own_alloc [OF assms Pair]
  show ?thesis
  proof (cases r)
    case None then show ?thesis using o Pair by (simp add: ethernet_alloc_nbuf_def)
  next
    case (Some i)
    then have o1: "own (add_mset i F) s1" using o by simp
    then show ?thesis unfolding ethernet_alloc_nbuf_def Pair Some
      by (simp, intro safe_bind_at [OF o1]) (auto intro!: safe_bind_pure own_store [OF o1])
  qed
qed

section \<open>ARP\<close>

lemma own_arp_set_entry [simp]: "own F (arp_set_entry env dev m ip s) = own F s"
  by (simp add: arp_set_entry_def split: option.splits)

lemma own_arp_static [simp]: "own F (snd (arp_set_static ip s)) = own F s"
  by (simp add: arp_set_static_def split: option.splits)

lemma own_interface_add [simp]: "own F (snd (interface_add env dev ip m s)) = own F s"
  by (simp add: interface_add_def interfaces_push_back_def ip_route_add_def Let_def)

lemma own_timeout [simp]: "own F (arp_timeout_callback s) = own F s"
  by (simp add: arp_timeout_callback_def)

lemma safe_put_arp: "own F s \<Longrightarrow> i \<in># F \<Longrightarrow> safe (own F) (put_arp i a s)"
  unfolding put_arp_def by (intro safe_intros) (auto intro: own_store)

lemma safe_arp_fill:
  assumes o: "own (add_mset i F) s"
  shows "safe (\<lambda>(r, s'). own F s') (rbind (put_arp i a s) (\<lambda>s2. rbind (ethernet_send_packet i m s2) (\<lambda>(_, s3). Inr (c, s3))))"
  by (rule safe_bind [OF safe_put_arp [OF o]], simp, rule safe_bind, erule safe_send) auto

lemma safe_arp_request:
  assumes "own F s" shows "safe (\<lambda>(r, s'). own F s') (arp_handle_request env a dev s)"
proof (cases "n_arp s (ar_target_ip a)")
  case None then show ?thesis using assms by (simp add: arp_handle_request_def)
next
  case (Some e)
  show ?thesis unfolding arp_handle_request_def Some
    by (simp, rule safe_bind [OF safe_ethernet_alloc [OF assms]])
      (auto split: option.splits intro: safe_arp_fill)
qed

lemma pure_route [simp]: "route_iface r s \<noteq> Inl freed"
  by (simp add: route_iface_def rassert_def)

lemma safe_arp_send:
  assumes "own F s" shows "safe (\<lambda>(r, s'). own F s') (arp_send_request env ip s)"
  unfolding arp_send_request_def
  by (auto split: option.splits simp: assms intro!: safe_bind_pure safe_bind [OF safe_ethernet_alloc [OF assms]]
      safe_arp_fill)

lemma safe_arp_handler:
  assumes o: "own (add_mset i F) s" shows "safe (own F) (arp_handler env i s)"
proof -
  have fr: "safe (own F) (nbuf_free i t)" if "own (add_mset i F) t" for t using that by (rule safe_free)
  have fin: "safe (own F) (rbind m (\<lambda>(should_free, s1). if should_free then nbuf_free i s1 else Inr s1))"
    if "safe (\<lambda>(r, s'). own (add_mset i F) s') m" for m
    by (rule safe_bind [OF that]) (auto simp: fr dest: own_drop)
  have req: "safe (\<lambda>(r, s'). own (add_mset i F) s') (arp_handle_request env a dev s)" for a dev using o by (rule safe_arp_request)
  have resp: "safe (\<lambda>(r, s'). own (add_mset i F) s') (arp_handle_response env a dev s)" for a dev
    using o by (simp add: arp_handle_response_def)
  show ?thesis
    unfolding arp_handler_def Let_def
    by (rule safe_bind_at [OF o], simp, rule safe_bind_pure, simp, rule safe_bind_pure, simp)
      (auto simp: fr o intro!: safe_rassert fin req resp)
qed

section \<open>Resolution\<close>

lemma safe_resolve_cb:
  assumes o: "own (add_mset p (add_mset c F)) s"
  shows "safe (own F) (arp_resolve_cb (c, p) found s)"
proof -
  have fp: "safe (own (add_mset c F)) (nbuf_free p s)" using o by (rule safe_free)
  have snd: "safe (own (add_mset c F)) (rbind (ethernet_send_packet p m s) (\<lambda>(_, s1). Inr s1))" for m
    by (rule safe_bind [OF safe_send [OF o]]) auto
  have fin: "safe (own F) (rbind m (nbuf_free c))" if "safe (own (add_mset c F)) m" for m
    by (rule safe_bind [OF that], erule safe_free)
  show ?thesis
    unfolding arp_resolve_cb_def split
    by (rule safe_bind_at [OF o], simp, rule safe_bind_at [OF o], simp, rule safe_bind_pure, simp, rule fin)
      (auto simp: fp intro!: safe_rassert snd split: option.splits)
qed

lemma own_resolving:
  "own (add_mset n (add_mset p (add_mset c F))) s \<Longrightarrow>
     own F (s\<lparr>n_resolving := n_resolving s @ [\<lparr>rs_nbuf = n, rs_ipAddress = ip, rs_rounds = r, rs_ctx = (c, p)\<rparr>]\<rparr>)"
  by (erule own_move) (auto simp: owned_def res_bufs_def)

lemma safe_resolve:
  assumes o: "own (add_mset p (add_mset c F)) s"
  shows "safe (\<lambda>(r, s'). own (if r = 0 then F else add_mset p (add_mset c F)) s') (arp_resolve arp_resolve_cb env ip (c, p) s)"
proof (cases "arp_get_hwaddr ip s")
  case None
  obtain r s1 where al: "nbuf_alloc env 16 s = (r, s1)" by fastforce
  note o1 = own_alloc [OF o al]
  show ?thesis
  proof (cases r)
    case None then show ?thesis using o1 \<open>arp_get_hwaddr ip s = None\<close> al by (simp add: arp_resolve_def)
  next
    case (Some n)
    then have o2: "own (add_mset n (add_mset p (add_mset c F))) s1" using o1 by simp
    have fr: "safe (\<lambda>(r, s'). own (if r = 0 then F else add_mset p (add_mset c F)) s')
        (rbind (nbuf_free n t) (\<lambda>s3. Inr (-1::int, s3)))" if "own (add_mset n (add_mset p (add_mset c F))) t" for t
      by (rule safe_bind [OF safe_free [OF that, where Q = "own (add_mset p (add_mset c F))"]]) auto
    show ?thesis
      using \<open>arp_get_hwaddr ip s = None\<close> al Some unfolding arp_resolve_def
      by (simp, intro safe_bind [OF safe_arp_send [OF o2]]) (auto intro: fr own_resolving)
  qed
next
  case (Some m)
  have "safe (\<lambda>(r, s'). own (if r = 0 then F else add_mset p (add_mset c F)) s')
      (rbind (arp_resolve_cb (c, p) True s) (\<lambda>s1. Inr (0::int, s1)))"
    by (rule safe_bind [OF safe_resolve_cb [OF o]]) simp
  then show ?thesis using Some by (simp add: arp_resolve_def)
qed

lemma safe_resolve_callback:
  assumes o: "own (F + mset (res_bufs r)) s"
  shows "safe (\<lambda>(r', s'). case r' of None \<Rightarrow> own F s' | Some r1 \<Rightarrow> own (F + mset (res_bufs r1)) s')
           (arp_resolve_callback arp_resolve_cb env r s)"
proof -
  obtain c p where c: "rs_ctx r = (c, p)" by fastforce
  let ?n = "rs_nbuf r"
  have o1: "own (add_mset p (add_mset c (add_mset ?n F))) s"
    using o by (simp add: res_bufs_def c add_mset_commute)
  have fin: "safe (\<lambda>(r', s'). case r' of None \<Rightarrow> own F s' | Some r1 \<Rightarrow> own (F + mset (res_bufs r1)) s')
      (rbind (arp_resolve_cb (c, p) b s) (\<lambda>s1. rbind (nbuf_free ?n s1) (\<lambda>s2. Inr (None, s2))))" for b
    by (rule safe_bind [OF safe_resolve_cb [OF o1]], rule safe_bind [OF safe_free [where Q = "own F"]]) auto
  show ?thesis
    unfolding arp_resolve_callback_def c Let_def
    by (rule safe_bind_at [OF o])
      (auto simp: res_bufs_def c fin o [unfolded res_bufs_def c, simplified]
        intro!: safe_bind [OF safe_arp_send [OF o]])
qed

lemma own_take_resolve:
  assumes "own F s" "k < length (n_resolving s)"
  shows "own (F + mset (res_bufs (n_resolving s ! k))) (s\<lparr>n_resolving := take k (n_resolving s) @ drop (Suc k) (n_resolving s)\<rparr>)"
proof (rule own_move [OF assms(1)])
  have "concat (map res_bufs (n_resolving s)) =
      concat (map res_bufs (take k (n_resolving s))) @ res_bufs (n_resolving s ! k) @
      concat (map res_bufs (drop (Suc k) (n_resolving s)))"
    by (subst id_take_nth_drop [OF assms(2)]) simp
  then show "mset (owned (s\<lparr>n_resolving := take k (n_resolving s) @ drop (Suc k) (n_resolving s)\<rparr>)) +
      (F + mset (res_bufs (n_resolving s ! k))) \<subseteq># mset (owned s) + F"
    by (simp add: owned_def ac_simps)
qed simp_all

lemma own_put_resolve:
  assumes "own (F + mset (res_bufs r)) s"
  shows "own F (s\<lparr>n_resolving := take k (n_resolving s) @ r # drop k (n_resolving s)\<rparr>)"
proof (rule own_move [OF assms])
  have "mset (concat (map res_bufs (n_resolving s))) =
      mset (concat (map res_bufs (take k (n_resolving s)))) + mset (concat (map res_bufs (drop k (n_resolving s))))"
    by (metis append_take_drop_id concat_append map_append mset_append)
  then show "mset (owned (s\<lparr>n_resolving := take k (n_resolving s) @ r # drop k (n_resolving s)\<rparr>)) + F
      \<subseteq># mset (owned s) + (F + mset (res_bufs r))"
    by (simp add: owned_def ac_simps)
qed simp_all

lemma safe_resolve_timer: "own F s \<Longrightarrow> safe (own F) (resolve_timer env k s)"
  unfolding resolve_timer_def
  by (auto split: if_splits option.splits intro: own_put_resolve
      intro!: safe_bind [OF safe_resolve_callback [OF own_take_resolve]])

section \<open>IP and ICMP\<close>

lemma own_nextId: "nextId s = (x, s') \<Longrightarrow> own F s' = own F s"
  by (auto simp: nextId_def)

lemma safe_ip_alloc:
  assumes "own F s" shows "safe (\<lambda>(r, s'). own_opt F r s') (ip_alloc_nbuf env dst ttl proto n s)"
proof -
  have hdr: "safe (\<lambda>(r, s'). own_opt F r s') (rbind (nbuf_at i t) (\<lambda>nb. rbind (ip_hdr nb) (\<lambda>h.
      rassert (in_buffer h 20 nb) out_of_bounds (case nextId t of (ident, s2) \<Rightarrow>
        rbind (nbuf_set_l4 (h + 20) (ucast proto) (nb\<lparr>nb_data := put_bytes h (f ident) (nb_data nb)\<rparr>)) (\<lambda>nb.
          Inr (Some i, nbuf_store i nb s2))))))" if t: "own (add_mset i F) t" for i t f
    by (rule safe_bind_at [OF t], simp, rule safe_bind_pure, simp, rule safe_rassert)
      (auto split: prod.splits intro!: safe_bind_pure own_store simp: own_nextId t)
  show ?thesis
    unfolding ip_alloc_nbuf_def Let_def
    by (auto split: option.splits simp: assms intro!: safe_bind_pure safe_bind [OF safe_ethernet_alloc [OF assms]] hdr)
qed

lemma safe_ip_output:
  assumes o: "own (add_mset i F) s" shows "safe (\<lambda>(r, s'). own F s') (ip_output env i s)"
proof -
  have fr2: "safe (\<lambda>(r, s'). own F s') (rbind (nbuf_free i t) (\<lambda>s4. rbind (nbuf_free c s4) (\<lambda>s5. Inr (-1::int, s5))))"
    if "own (add_mset i (add_mset c F)) t" for c t
    by (rule safe_bind [OF safe_free [OF that, where Q = "own (add_mset c F)"]]) (auto intro: safe_free_ret)
  have res: "safe (\<lambda>(r, s'). own F s') (rbind (arp_resolve arp_resolve_cb env ip (c, i) t) (\<lambda>(r, s3).
      if r \<noteq> 0 then rbind (nbuf_free i s3) (\<lambda>s4. rbind (nbuf_free c s4) (\<lambda>s5. Inr (-1::int, s5))) else Inr (0, s3)))"
    if "own (add_mset i (add_mset c F)) t" for ip c t
    by (rule safe_bind [OF safe_resolve [OF that]]) (auto intro: fr2 split: if_splits)
  have al: "own_opt (add_mset i F) r t" if "nbuf_alloc env 4 (nbuf_store i nb s) = (r, t)" for r t nb
    by (rule own_alloc [OF own_store [OF o] that]) simp
  show ?thesis
    unfolding ip_output_def Let_def
    by (rule safe_bind_at [OF o], simp, rule safe_bind_pure, simp, rule safe_rassert, simp)
      (auto split: prod.splits option.splits dest!: al intro!: safe_free_ret res simp: add_mset_commute)
qed

lemma safe_icmp_reject:
  assumes o: "own F s" and i: "i \<in># F"
  shows "safe (\<lambda>(r, s'). own F s') (icmp_reject env ty co i s)"
proof -
  have fill: "safe (\<lambda>(r, s'). own F s') (rbind (nbuf_at j t) (\<lambda>nb. rbind (icmp_v4_hdr nb) (\<lambda>p.
      rassert (b p nb) out_of_bounds (ip_output env j (nbuf_store j (nb\<lparr>nb_data := g p nb\<rparr>) t)))))"
    if t: "own (add_mset j F) t" for j t b g
    by (rule safe_bind_at [OF t], simp, rule safe_bind_pure, simp, rule safe_rassert)
      (auto intro!: safe_ip_output own_store t)
  show ?thesis
    unfolding icmp_reject_def Let_def
    by (rule safe_bind_at [OF o i], rule safe_bind_pure, simp, rule safe_bind_pure, simp, rule safe_rassert, simp,
        rule safe_bind [OF safe_ip_alloc [OF o]]) (auto split: option.splits intro!: fill)
qed

lemma safe_icmp_reply:
  assumes o: "own (add_mset i F) s" shows "safe (own F) (icmpv4_reply env i s)"
proof -
  have out: "safe (own F) (rbind (ip_output env i (nbuf_store i nb s)) (\<lambda>(_, s1). Inr s1))" for nb
    by (rule safe_bind [OF safe_ip_output [OF own_store [OF o]]]) auto
  show ?thesis
    unfolding icmpv4_reply_def
    by (rule safe_bind_at [OF o], simp) (auto intro!: safe_bind_pure [OF nbuf_ops_pure(1)] safe_bind_pure [OF nbuf_ops_pure(7)]
        safe_bind_pure [OF hdr_pure(2)] safe_bind_pure [OF hdr_pure(3)] safe_rassert out)
qed

lemma safe_icmp_input:
  assumes o: "own (add_mset i F) s" shows "safe (\<lambda>(r, s'). own F s') (icmp_input env i s)"
proof -
  have fin: "safe (\<lambda>(r, s'). own F s') (rbind m (\<lambda>s1. Inr (0::int, s1)))" if "safe (own F) m" for m
    by (rule safe_bind [OF that]) simp
  show ?thesis
    unfolding icmp_input_def
    by (rule safe_bind_at [OF o], simp, rule safe_bind_pure, simp, rule safe_bind_pure, simp)
      (auto intro!: safe_rassert fin safe_free_ret [OF o] safe_free [OF o] safe_icmp_reply [OF o])
qed

section \<open>Descriptors\<close>

text \<open>The buffers of a table of descriptors, when one descriptor changes.\<close>

lemma mset_update:
  "distinct (map fst xs) \<Longrightarrow> map_of xs k = Some v \<Longrightarrow>
     mset (concat (map (\<lambda>d. f (snd d)) (AList.update k v' xs))) + mset (f v) =
     mset (concat (map (\<lambda>d. f (snd d)) xs)) + mset (f v')"
proof (induction xs)
  case (Cons x xs)
  show ?case
  proof (cases "fst x = k")
    case True then show ?thesis using Cons.prems by (cases x) (simp add: ac_simps)
  next
    case False
    then have "mset (concat (map (\<lambda>d. f (snd d)) (AList.update k v' xs))) + mset (f v) =
        mset (concat (map (\<lambda>d. f (snd d)) xs)) + mset (f v')" using Cons by (cases x) simp
    then show ?thesis using False by (cases x) (simp add: ac_simps)
  qed
qed simp

lemma mset_update_new:
  "map_of xs k = None \<Longrightarrow>
     mset (concat (map (\<lambda>d. f (snd d)) (AList.update k v xs))) = mset (concat (map (\<lambda>d. f (snd d)) xs)) + mset (f v)"
  by (induction xs) (auto simp: ac_simps split: if_splits)

lemma subset_swap:
  fixes A B U V W F G :: "'a multiset"
  assumes "A + V = B + W" "W + G \<subseteq># V + F" shows "A + G \<subseteq># B + F"
proof (rule mset_subset_eqI)
  fix x
  have "count A x + count V x = count B x + count W x" using assms(1) by (metis count_union)
  moreover have "count W x + count G x \<le> count V x + count F x" using mset_subset_eq_count [OF assms(2), of x] by simp
  ultimately show "count (A + G) x \<le> count (B + F) x" by simp
qed

lemma own_udp:
  assumes o: "own F s" and fd: "map_of (n_udp s) k = Some fd"
    and q: "mset (q_data (us_rxQueue fd')) + G \<subseteq># mset (q_data (us_rxQueue fd)) + F"
  shows "own G (udp_store k fd' s)"
proof (rule own_weaken [OF o])
  have "mset (owned (udp_store k fd' s)) + mset (q_data (us_rxQueue fd)) = mset (owned s) + mset (q_data (us_rxQueue fd'))"
    using mset_update [OF conjunct2 [OF own_keys [OF o]] fd, of "\<lambda>fd. q_data (us_rxQueue fd)" fd']
    by (simp add: owned_def udp_store_def ac_simps)
  then show "mset (owned (udp_store k fd' s)) + G \<subseteq># mset (owned s) + F" using q by (rule subset_swap)
  show "distinct (map fst (n_udp (udp_store k fd' s)))" using own_keys [OF o] by (simp add: udp_store_def distinct_update)
qed (use own_keys [OF o] in \<open>simp_all add: udp_store_def\<close>)

lemma own_udp_same:
  "own F s \<Longrightarrow> map_of (n_udp s) k = Some fd \<Longrightarrow> us_rxQueue fd' = us_rxQueue fd \<Longrightarrow> own F (udp_store k fd' s)"
  by (erule (1) own_udp) simp

lemma own_raw:
  assumes o: "own F s" and fd: "map_of (n_rawSockets s) k = Some q"
    and q: "mset (q_data q') + G \<subseteq># mset (q_data q) + F"
  shows "own G (raw_set k q' s)"
proof (rule own_weaken [OF o])
  have "mset (owned (raw_set k q' s)) + mset (q_data q) = mset (owned s) + mset (q_data q')"
    using mset_update [OF conjunct1 [OF own_keys [OF o]] fd, of q_data q'] by (simp add: owned_def raw_set_def ac_simps)
  then show "mset (owned (raw_set k q' s)) + G \<subseteq># mset (owned s) + F" using q by (rule subset_swap)
  show "distinct (map fst (n_rawSockets (raw_set k q' s)))" using own_keys [OF o] by (simp add: raw_set_def distinct_update)
qed (use own_keys [OF o] in \<open>simp_all add: raw_set_def\<close>)

lemma own_new_udp: assumes o: "own F s" shows "own F (new_udp k s)"
proof (cases "map_of (n_udp s) k")
  case None
  show ?thesis unfolding new_udp_def
  proof (rule own_weaken [OF o])
    have "mset (owned (udp_store k new_UdpFileDescriptor s)) = mset (owned s)"
      using mset_update_new [OF None, of "\<lambda>fd. q_data (us_rxQueue fd)" new_UdpFileDescriptor]
      by (simp add: owned_def udp_store_def new_UdpFileDescriptor_def new_queue_def)
    then show "mset (owned (udp_store k new_UdpFileDescriptor s)) + F \<subseteq># mset (owned s) + F" by simp
    show "distinct (map fst (n_udp (udp_store k new_UdpFileDescriptor s)))"
      using own_keys [OF o] by (simp add: udp_store_def distinct_update)
  qed (use own_keys [OF o] in \<open>simp_all add: udp_store_def\<close>)
next
  case (Some fd)
  then show ?thesis unfolding new_udp_def
    by (rule own_udp [OF o]) (simp add: new_UdpFileDescriptor_def new_queue_def)
qed

lemma safe_free_all: "own (F + mset is) s \<Longrightarrow> safe (own F) (free_all is s)"
proof (induction "is" arbitrary: s)
  case (Cons i js)
  have "own (add_mset i (F + mset js)) s" using Cons.prems by simp
  then show ?case by (simp, intro safe_bind [OF safe_free [where Q = "own (F + mset js)"]]) (auto intro: Cons.IH)
qed simp

end
