(* ===== verification/Net_Run.thy ===== *)
theory Net_Run
  imports Net_Safe
begin

text \<open>
  Runs of the network stack: frames arrive, the threads of the Ethernet layer and of TCP take their rounds, timers
  fire and processes use their sockets, in any order.
\<close>

section \<open>UDP\<close>

lemma pure_udp_at [simp]: "udp_at k s \<noteq> Inl freed"
  by (simp add: udp_at_def split: option.splits)

lemma udp_at_Inr: "udp_at k s = Inr fd \<Longrightarrow> map_of (n_udp s) k = Some fd"
  by (simp add: udp_at_def split: option.splits)

lemma pure_udp_validate [simp]: "udp_validate_packet nb u \<noteq> Inl freed"
proof -
  have "safe (\<lambda>_. True) (udp_validate_packet nb u)"
    unfolding udp_validate_packet_def by (auto intro!: safe_bind_pure safe_rassert)
  then show ?thesis by (auto simp: safe_def split: sum.splits)
qed

lemma own_udp_push:
  assumes o: "own (add_mset i F) s" and fd: "map_of (n_udp s) k = Some fd"
  shows "own F (udp_store k (fd\<lparr>us_rxQueue := snd (q_push (\<lambda>q. q) False i (us_rxQueue fd))\<rparr>) s)"
  by (rule own_udp [OF o fd]) (simp add: q_push_nowait)

lemma safe_udp_input:
  assumes o: "own (add_mset i F) s" shows "safe (\<lambda>(r, s'). own F s') (udp_input env i s)"
proof -
  have rej: "safe (\<lambda>(r, s'). own F s')
      (rbind (icmp_reject env 3 3 i s) (\<lambda>(_, s1). rbind (nbuf_free i s1) (\<lambda>s2. Inr (-1::int, s2))))"
    by (rule safe_bind [OF safe_icmp_reject [OF o]]) (auto intro: safe_free_ret)
  have push: "safe (\<lambda>(r, s'). own F s') (rbind (udp_at k s) (\<lambda>fd.
      Inr (0::int, udp_store k (fd\<lparr>us_rxQueue := snd (q_push (\<lambda>q. q) False i (us_rxQueue fd))\<rparr>) s)))" for k
    by (rule safe_bind_pure) (auto intro: own_udp_push [OF o] dest: udp_at_Inr)
  show ?thesis
    unfolding udp_input_def
    by (rule safe_bind_at [OF o], simp, rule safe_bind_pure, simp, rule safe_bind_pure, simp)
      (auto split: option.splits intro!: safe_free_ret [OF o] rej push)
qed

lemma safe_udp_bind: "own F s \<Longrightarrow> safe (\<lambda>(r, s'). own F s') (udp_bind env rnd k addr s)"
  unfolding udp_bind_def Let_def
  by (rule safe_bind_pure, simp) (auto dest!: udp_at_Inr intro: own_udp_same intro!: own_udp_same)

lemma safe_udp_connect: "own F s \<Longrightarrow> safe (\<lambda>(r, s'). own F s') (udp_connect k addr s)"
  unfolding udp_connect_def by (rule safe_bind_pure, simp) (auto dest!: udp_at_Inr intro!: own_udp_same)

lemma safe_udp_alloc:
  assumes "own F s" shows "safe (\<lambda>(r, s'). own_opt F r s') (udp_alloc_nbuf env ip port n s)"
proof -
  have fill: "safe (\<lambda>(r, s'). own_opt F r s') (rbind (nbuf_at i t) (\<lambda>nb. rbind (udp_hdr nb) (\<lambda>u.
      rassert (in_buffer u 8 nb) out_of_bounds (Inr (Some i, nbuf_store i (g u nb) t)))))"
    if t: "own (add_mset i F) t" for i t g
    by (rule safe_bind_at [OF t], simp, rule safe_bind_pure, simp, rule safe_rassert) (auto intro!: own_store t)
  show ?thesis
    unfolding udp_alloc_nbuf_def
    by (rule safe_bind [OF safe_ip_alloc [OF assms]]) (auto split: option.splits intro!: fill)
qed

lemma safe_udp_output:
  assumes o: "own (add_mset i F) s" shows "safe (\<lambda>(r, s'). own F s') (udp_output env i s)"
  unfolding udp_output_def
  by (rule safe_bind_at [OF o], simp, rule safe_bind_pure, simp, rule safe_bind_pure, simp, rule safe_rassert)
    (auto intro!: safe_ip_output own_store o)

lemma safe_udp_sendto:
  assumes "own F s" shows "safe (\<lambda>(r, s'). own F s') (udp_sendto env rnd k buf addr s)"
proof -
  have out: "safe (\<lambda>(r, s'). own F s') (rbind (udp_output env i (nbuf_store i nb t)) (\<lambda>(r2, s3). Inr (g r2, s3)))"
    if "own (add_mset i F) t" for i t nb and g :: "int \<Rightarrow> int"
    by (rule safe_bind [OF safe_udp_output [OF own_store [OF that]]]) auto
  have fill: "safe (\<lambda>(r, s'). own F s') (rbind (udp_at k t) (\<lambda>fd2. rbind (nbuf_at i t) (\<lambda>nb. rbind (udp_hdr nb) (\<lambda>u.
      rassert (b u nb) out_of_bounds
        (rbind (udp_output env i (nbuf_store i (h fd2 nb u) t)) (\<lambda>(r2, s3). Inr (g r2, s3)))))))"
    if t: "own (add_mset i F) t" for i t b h and g :: "int \<Rightarrow> int"
    by (rule safe_bind_pure, simp, rule safe_bind_at [OF t], simp, rule safe_bind_pure, simp, rule safe_rassert)
      (auto intro: out [OF t])
  have bind: "safe (\<lambda>(b, s'). own (add_mset i F) s') (if c then udp_bind env rnd k no_addr t else Inr (0, t))"
    if "own (add_mset i F) t" for i t c using that by (simp add: safe_udp_bind)
  have go: "safe (\<lambda>(r, s'). own F s') (rbind (udp_at k t) (\<lambda>fd.
      rbind (if us_sourcePort fd = 0 then udp_bind env rnd k no_addr t else Inr (0, t)) (\<lambda>(b, s2).
        if b = -1 then rbind (nbuf_free i s2) (\<lambda>s3. Inr (-1, s3))
        else rbind (udp_at k s2) (\<lambda>fd2. rbind (nbuf_at i s2) (\<lambda>nb. rbind (udp_hdr nb) (\<lambda>u.
          rassert (c u nb) out_of_bounds
            (rbind (udp_output env i (nbuf_store i (h fd2 nb u) s2)) (\<lambda>(r2, s3). Inr (g r2, s3)))))))))"
    if t: "own (add_mset i F) t" for i t c h and g :: "int \<Rightarrow> int"
    by (rule safe_bind_pure, simp, rule safe_bind [OF bind [OF t]]) (auto intro: safe_free_ret fill)
  show ?thesis
  proof (cases "sa_address addr = 0 \<or> sa_port addr = 0")
    case False
    then show ?thesis
      unfolding udp_sendto_def Let_def
      by (simp only: if_False, intro safe_bind [OF safe_udp_alloc [OF assms]]) (auto split: option.splits intro!: go)
  qed (simp add: udp_sendto_def assms)
qed

lemma safe_udp_write: "own F s \<Longrightarrow> safe (\<lambda>(r, s'). own F s') (udp_write env rnd k buf s)"
  unfolding udp_write_def by (rule safe_bind_pure, simp, erule safe_udp_sendto)

lemma own_udp_pop:
  assumes o: "own F s" and fd: "map_of (n_udp s) k = Some fd" and q: "q_pop (\<lambda>q. q) False (us_rxQueue fd) = (Some i, q)"
  shows "own (add_mset i F) (udp_store k (fd\<lparr>us_rxQueue := q\<rparr>) s)"
  by (rule own_udp [OF o fd]) (use q in \<open>auto simp: q_pop_nowait split: list.splits\<close>)

lemma safe_udp_recvfrom_copy:
  assumes o: "own (add_mset i F) s" shows "safe (\<lambda>(r, s'). own F s') (udp_recvfrom_copy n i s)"
  unfolding udp_recvfrom_copy_def Let_def
  by (rule safe_bind_at [OF o], simp, rule safe_bind_pure, simp, rule safe_bind_pure, simp, rule safe_rassert)
    (auto intro: safe_free_ret [OF o])

lemma safe_udp_recvfrom:
  assumes o: "own F s" shows "safe (\<lambda>(r, s'). own F s') (udp_recvfrom k n s)"
  unfolding udp_recvfrom_def
proof (rule safe_bind_pure, simp)
  fix fd assume fd: "udp_at k s = Inr fd"
  obtain r q where q: "q_pop (\<lambda>q. q) False (us_rxQueue fd) = (r, q)" by fastforce
  show "safe (\<lambda>(r, s'). own F s') (case q_pop (\<lambda>q. q) False (us_rxQueue fd) of
      (None, q) \<Rightarrow> Inr (None, s)
    | (Some i, q) \<Rightarrow> udp_recvfrom_copy n i (udp_store k (fd\<lparr>us_rxQueue := q\<rparr>) s))"
  proof (cases r)
    case (Some i)
    have "own (add_mset i F) (udp_store k (fd\<lparr>us_rxQueue := q\<rparr>) s)"
      using own_udp_pop [OF o udp_at_Inr [OF fd]] q Some by simp
    then show ?thesis unfolding q Some by (simp add: safe_udp_recvfrom_copy)
  qed (simp add: q o)
qed

lemma safe_udp_recvfrom_locked:
  assumes o: "own F s" shows "safe (\<lambda>(i, s'). own (add_mset i F) s') (udp_recvfrom_locked k s)"
  unfolding udp_recvfrom_locked_def
proof (rule safe_bind_pure, simp)
  fix fd assume fd: "udp_at k s = Inr fd"
  show "safe (\<lambda>(i, s'). own (add_mset i F) s') (case q_data (us_rxQueue fd) of
      [] \<Rightarrow> Inl (Undefined ''front of an empty vector'')
    | i # is \<Rightarrow> Inr (i, udp_store k (fd\<lparr>us_rxQueue := (us_rxQueue fd)\<lparr>q_data := is\<rparr>\<rparr>) s))"
    using own_udp_pop [OF o udp_at_Inr [OF fd]] by (auto simp: q_pop_nowait split: list.splits)
qed

lemma safe_udp_close:
  assumes o: "own F s" shows "safe (own F) (udp_close k s)"
  unfolding udp_close_def Let_def
proof (rule safe_bind_pure, simp, rule safe_free_all)
  fix fd assume fd: "udp_at k s = Inr fd"
  let ?s1 = "if us_sourcePort fd \<noteq> 0 then s\<lparr>n_ports := (n_ports s)(us_sourcePort fd := None)\<rparr> else s"
  have "own F ?s1" "map_of (n_udp ?s1) k = Some fd" using o udp_at_Inr [OF fd] by auto
  then show "own (F + mset (q_data (us_rxQueue fd)))
      (udp_store k ((if us_sourcePort fd \<noteq> 0 then fd\<lparr>us_sourcePort := 0, us_dstAddress := no_addr\<rparr> else fd)
         \<lparr>us_rxQueue := (us_rxQueue fd)\<lparr>q_data := []\<rparr>\<rparr>) ?s1)"
    by (rule own_udp) simp
qed

lemma concat_filter_subset: "mset (concat (map f (filter P xs))) \<subseteq># mset (concat (map f xs))"
  by (induction xs) (auto simp: subset_mset.add_increasing subset_mset.add_left_mono)

lemma own_filter_udp: assumes "own F s" shows "own F (s\<lparr>n_udp := filter P (n_udp s)\<rparr>)"
proof (rule own_weaken [OF assms])
  show "mset (owned (s\<lparr>n_udp := filter P (n_udp s)\<rparr>)) + F \<subseteq># mset (owned s) + F"
    using concat_filter_subset [of "\<lambda>d. q_data (us_rxQueue (snd d))" P "n_udp s"] by (simp add: owned_def)
qed (use own_keys [OF assms] in \<open>auto intro: distinct_map_filter\<close>)

lemma own_filter_raw: assumes "own F s" shows "own F (delete_RawIpFileDescriptor k s)"
  unfolding delete_RawIpFileDescriptor_def
proof (rule own_weaken [OF assms])
  let ?P = "\<lambda>r. fst r \<noteq> k"
  show "mset (owned (s\<lparr>n_rawSockets := filter ?P (n_rawSockets s)\<rparr>)) + F \<subseteq># mset (owned s) + F"
    using concat_filter_subset [of "\<lambda>d. q_data (snd d)" ?P "n_rawSockets s"] by (simp add: owned_def)
qed (use own_keys [OF assms] in \<open>auto intro: distinct_map_filter\<close>)

lemma safe_delete_udp: "own F s \<Longrightarrow> safe (own F) (delete_udp k s)"
  unfolding delete_udp_def by (rule safe_bind [OF safe_udp_close]) (auto intro: own_filter_udp)

section \<open>Raw sockets and TCP\<close>

lemma own_raw_new:
  assumes "own F s" "map_of (n_rawSockets s) k = None" shows "own F (new_RawIpFileDescriptor k s)"
  unfolding new_RawIpFileDescriptor_def
  by (rule own_weaken [OF assms(1)])
    (use own_keys [OF assms(1)] assms(2) in \<open>auto simp: owned_def new_queue_def map_of_eq_None_iff\<close>)

lemma safe_raw_read:
  assumes o: "own F s" shows "safe (\<lambda>(r, s'). own F s') (raw_read k n s)"
proof (cases "map_of (n_rawSockets s) k")
  case (Some q)
  obtain r q1 where q1: "q_pop (\<lambda>q. q) False q = (r, q1)" by fastforce
  show ?thesis
  proof (cases r)
    case None then show ?thesis using Some q1 o by (simp add: raw_read_def)
  next
    case (Some i)
    have o1: "own (add_mset i F) (raw_set k q1 s)"
      by (rule own_raw [OF o \<open>map_of (n_rawSockets s) k = Some q\<close>])
        (use q1 Some in \<open>auto simp: q_pop_nowait split: list.splits\<close>)
    show ?thesis
      using \<open>map_of (n_rawSockets s) k = Some q\<close> q1 Some unfolding raw_read_def Let_def
      by (simp, intro safe_bind_at [OF o1], simp, intro safe_bind_pure [OF hdr_pure(2)] safe_bind_pure [OF nbuf_ops_pure(1)]
          safe_rassert) (auto intro: safe_free_ret [OF o1])
  qed
qed (simp add: raw_read_def)

lemma safe_raw_close: "own F s \<Longrightarrow> safe (own F) (raw_close k s)"
  unfolding raw_close_def by (auto split: option.splits intro!: safe_free_all own_raw)

lemma safe_clone:
  assumes o: "own F s" "i \<in># F" shows "safe (\<lambda>(j, s'). own (add_mset j F) s') (nbuf_clone env i s)"
proof -
  have pure: "clone_l2 nb c \<noteq> Inl freed" "clone_l3 nb c \<noteq> Inl freed" "clone_l4 nb c \<noteq> Inl freed" for nb c
  proof -
    have "safe (\<lambda>_. True) (clone_l2 nb c)" "safe (\<lambda>_. True) (clone_l3 nb c)" "safe (\<lambda>_. True) (clone_l4 nb c)"
      unfolding clone_l2_def clone_l3_def clone_l4_def nbuf_set_l2_def nbuf_set_l3_def nbuf_set_l4_def
      by (auto split: option.splits intro!: safe_bind_pure safe_rassert)
    then show "clone_l2 nb c \<noteq> Inl freed" "clone_l3 nb c \<noteq> Inl freed" "clone_l4 nb c \<noteq> Inl freed"
      by (auto simp: safe_def split: sum.splits)
  qed
  have cl: "safe (\<lambda>(j, s'). own (add_mset j F) s') (rbind (nbuf_at j t) (\<lambda>c. rbind (nbuf_set_size n (g c)) (\<lambda>c.
      rbind (clone_l2 nb c) (\<lambda>c. rbind (clone_l3 nb c) (\<lambda>c. rbind (clone_l4 nb c) (\<lambda>c. Inr (j, nbuf_store j c t)))))))"
    if t: "own (add_mset j F) t" for j t n g nb
    by (rule safe_bind_at [OF t], simp, (rule safe_bind_pure, simp add: pure)+) (simp add: own_store t)
  have al: "own_opt F r t" if "nbuf_alloc env n s = (r, t)" for r t n using own_alloc [OF o(1) that] .
  show ?thesis
    unfolding nbuf_clone_def
    by (rule safe_bind_at [OF o]) (auto split: prod.splits option.splits dest!: al intro!: cl)
qed

lemma safe_push_raw: "own F s \<Longrightarrow> i \<in># F \<Longrightarrow> safe (own F) (push_raw env i ks s)"
proof (induction ks arbitrary: s)
  case (Cons k ks)
  have "own F (raw_set k (snd (q_push (\<lambda>q. q) False c q)) t)"
    if "own (add_mset c F) t" "map_of (n_rawSockets t) k = Some q" for c q t
    by (rule own_raw [OF that]) (simp add: q_push_nowait)
  then show ?case
    by (simp, intro safe_bind [OF safe_clone [OF Cons.prems]])
      (auto split: option.splits intro!: Cons.IH Cons.prems(2) dest: own_drop)
qed simp

lemma safe_tcp_input:
  assumes o: "own (add_mset i F) s" shows "safe (\<lambda>(r, s'). own F s') (tcp_input_nbuf i s)"
  unfolding tcp_input_nbuf_def Let_def
  by (rule safe_bind_at [OF o], simp, rule safe_bind_pure, simp, rule safe_bind_pure, simp, rule safe_bind_pure, simp,
      rule safe_rassert)
    (auto split: prod.splits bool.splits intro: own_push_segment [OF o] safe_free_ret [OF o])

lemma safe_tcp_main:
  assumes "own F s" shows "safe (own F) (tcp_in_main_nbuf s)"
  unfolding tcp_in_main_nbuf_def
  by (auto split: prod.splits option.splits simp: assms intro!: safe_free dest: own_pop_segment [OF assms])

section \<open>Receiving\<close>

lemma safe_ip_deliver:
  assumes o: "own (add_mset i F) s" shows "safe (\<lambda>(r, s'). own F s') (ip_deliver env proto i s)"
proof -
  have fin: "safe (\<lambda>(r, s'). own F s') (rbind m (\<lambda>(_, s1). Inr (0::int, s1)))"
    if "safe (\<lambda>(r, s'). own F s') m" for m :: "(int \<times> net) result"
    by (rule safe_bind [OF that]) auto
  show ?thesis
    unfolding ip_deliver_def
    by (auto intro!: fin safe_free_ret [OF o] safe_icmp_input [OF o] safe_tcp_input [OF o] safe_udp_input [OF o])
qed

lemma safe_hint: "own F s \<Longrightarrow> safe (own F) (ip_hint_arp_cache env nb s)"
  unfolding ip_hint_arp_cache_def by (intro safe_bind_pure safe_rassert) auto

lemma safe_ip_input:
  assumes o: "own (add_mset i F) s" shows "safe (\<lambda>(r, s'). own F s') (ip_input env i s)"
proof -
  have deliver: "safe (\<lambda>(r, s'). own F s') (rbind (ip_hint_arp_cache env nb (nbuf_store i nb s)) (\<lambda>s1.
      rbind (push_raw env i (map fst (n_rawSockets s1)) s1) (\<lambda>s2.
        case interface_get (nb_device nb) s2 of None \<Rightarrow> rbind (nbuf_free i s2) (\<lambda>s3. Inr (-1, s3))
        | Some iface \<Rightarrow> if c iface then rbind (nbuf_free i s2) (\<lambda>s3. Inr (-1, s3)) else ip_deliver env pr i s2)))" for nb c pr
    by (rule safe_bind [OF safe_hint [OF own_store [OF o]]], simp, rule safe_bind [OF safe_push_raw], assumption, simp)
      (auto split: option.splits intro: safe_free_ret safe_ip_deliver)
  show ?thesis
    unfolding ip_input_def Let_def
    by (rule safe_bind_at [OF o], simp, rule safe_bind_pure, simp, rule safe_bind_pure, simp)
      (auto intro!: safe_rassert safe_free_ret [OF o] safe_bind_pure [OF nbuf_ops_pure(4)] deliver)
qed

lemma safe_ip_handler: "own (add_mset i F) s \<Longrightarrow> safe (own F) (ip_handler env i s)"
  unfolding ip_handler_def by (rule safe_bind [OF safe_ip_input]) auto

lemma safe_call_handler: "own (add_mset i F) s \<Longrightarrow> safe (own F) (call_handler h env i s)"
  unfolding call_handler_def by (cases h) (simp_all add: safe_ip_handler safe_arp_handler)

lemma safe_rx:
  assumes "own F s" shows "safe (own F) (ethernet_rx_main env s)"
proof (cases "q_pop (\<lambda>q. q) False (n_rx s)")
  case (Pair r q)
  show ?thesis
  proof (cases r)
    case None then show ?thesis using assms Pair by (simp add: ethernet_rx_main_def)
  next
    case (Some i)
    have o: "own (add_mset i F) (s\<lparr>n_rx := q\<rparr>)" using own_pop_rx [OF assms] Pair Some by simp
    show ?thesis unfolding ethernet_rx_main_def Pair Some Let_def
      by (simp, rule safe_bind_at [OF o], simp, rule safe_bind_pure, simp, rule safe_rassert, simp)
        (auto split: option.splits intro!: safe_free [OF o] safe_bind_pure [OF nbuf_ops_pure(3)] safe_call_handler own_store [OF o])
  qed
qed

section \<open>The driver\<close>

lemma mset_split_at: "k < length xs \<Longrightarrow> mset xs = mset (take k xs) + add_mset (xs ! k) (mset (drop (Suc k) xs))"
  by (metis id_take_nth_drop mset.simps(2) mset_append)

lemma mset_take_drop: "mset (take k xs) + mset (drop k xs) = mset xs"
  by (metis append_take_drop_id mset_append)

lemma own_ring_take:
  assumes "own F s" "k < length (n_rxBuffers s)"
  shows "own (add_mset (n_rxBuffers s ! k) F) (s\<lparr>n_rxBuffers := take k (n_rxBuffers s) @ drop (Suc k) (n_rxBuffers s)\<rparr>)"
  by (rule own_move [OF assms(1)]) (simp_all add: owned_def mset_split_at [OF assms(2)])

lemma own_ring_put:
  assumes "own (add_mset j F) s"
  shows "own F (s\<lparr>n_rxBuffers := take k (n_rxBuffers s) @ j # drop k (n_rxBuffers s)\<rparr>)"
  by (rule own_move [OF assms]) (simp_all add: owned_def mset_take_drop [of k "n_rxBuffers s", symmetric] ac_simps)

lemma safe_pass_up:
  assumes o: "own (add_mset i F) s" shows "safe (own F) (pass_up phy i frame s)"
  unfolding pass_up_def
  by (rule safe_bind_at [OF o], simp, rule safe_bind_pure, simp) (auto intro!: safe_absorb own_store o)

lemma safe_drain:
  assumes o: "own F s" shows "safe (own F) (drainRxRing env phy k ok frame s)"
proof -
  have new: "safe (own F) (case nbuf_alloc_aligned env PacketSize 16 t of
      (None, s2) \<Rightarrow> Inl (Assertion ''newbuf'')
    | (Some j, s2) \<Rightarrow> Inr (s2\<lparr>n_rxBuffers := take k (n_rxBuffers s2) @ j # drop k (n_rxBuffers s2)\<rparr>))"
    if "own F t" for t
    using own_alloc_aligned [OF that] by (fastforce split: prod.splits option.splits intro: own_ring_put)
  show ?thesis
    unfolding drainRxRing_def Let_def
  proof (rule safe_rassert, simp, rule safe_bind [where P = "own F"])
    assume "k < length (n_rxBuffers s)"
    note t = own_ring_take [OF o this]
    show "safe (own F) (if \<not> ok then Inr (s\<lparr>n_rxBuffers := take k (n_rxBuffers s) @ drop (Suc k) (n_rxBuffers s)\<rparr>)
      else if PacketSize < length frame \<or> length frame < 60
      then Inr (s\<lparr>n_rxBuffers := take k (n_rxBuffers s) @ drop (Suc k) (n_rxBuffers s)\<rparr>)
      else pass_up phy (n_rxBuffers s ! k) frame (s\<lparr>n_rxBuffers := take k (n_rxBuffers s) @ drop (Suc k) (n_rxBuffers s)\<rparr>))"
      using own_drop [OF t] safe_pass_up [OF t] by simp
  qed (rule new)
qed

lemma safe_tcp_send:
  assumes "own F s" shows "safe (\<lambda>(r, s'). own F s') (tcp_send_nbuf env dst tcp s)"
proof -
  have out: "safe (\<lambda>(r, s'). own F s') (rbind (ip_output env i (nbuf_store i nb t)) (\<lambda>(c, s2). Inr (c = 0, s2)))"
    if "own (add_mset i F) t" for i t nb
    by (rule safe_bind [OF safe_ip_output [OF own_store [OF that]]]) auto
  have fill: "safe (\<lambda>(r, s'). own F s') (rbind (nbuf_at i t) (\<lambda>nb. rbind (tcp_hdr nb) (\<lambda>p.
      rassert (b p nb) out_of_bounds (rbind (ip_output env i (nbuf_store i (g p nb) t)) (\<lambda>(c, s2). Inr (c = 0, s2))))))"
    if t: "own (add_mset i F) t" for i t b g
    by (rule safe_bind_at [OF t], simp, rule safe_bind_pure, simp, rule safe_rassert) (auto intro: out [OF t])
  show ?thesis
    unfolding tcp_send_nbuf_def
    by (rule safe_bind [OF safe_ip_alloc [OF assms]]) (auto split: option.splits intro!: fill)
qed

section \<open>Runs\<close>

datatype net_event =
    Register_handler u16 eth_handler
  | Register_device string mac
  | Interface_add string u32 u32
  | Frame string nat bool "u8 list"
  | Rx_round
  | Tx_round "u8 list \<Rightarrow> u8 list list"
  | Tcp_round
  | Tcp_send u32 tcp_t
  | Resolve_timer nat
  | Arp_second
  | Udp_new nat
  | Udp_bind u16 nat SocketAddress
  | Udp_connect nat SocketAddress
  | Udp_sendto u16 nat "u8 list" SocketAddress
  | Udp_write u16 nat "u8 list"
  | Udp_recvfrom nat nat
  | Udp_delete nat
  | Raw_new nat
  | Raw_read nat nat
  | Raw_close nat
  | Raw_delete nat

definition forget :: "('a \<times> net) result \<Rightarrow> net result" where
  "forget m = rbind m (\<lambda>(_, s). Inr s)"

text \<open>A new descriptor is a new object: its number is not in use.\<close>

fun net_step :: "net_env \<Rightarrow> net_event \<Rightarrow> net \<Rightarrow> net result" where
  "net_step env (Register_handler t h) s = Inr (snd (ethernet_register_handler t h s))"
| "net_step env (Register_device phy m) s = Inr (snd (ethernet_register_device phy m s))"
| "net_step env (Interface_add dev ip m) s = Inr (snd (interface_add env dev ip m s))"
| "net_step env (Frame phy k ok frame) s = drainRxRing env phy k ok frame s"
| "net_step env Rx_round s = ethernet_rx_main env s"
| "net_step env (Tx_round xmit) s = ethernet_tx_round xmit s"
| "net_step env Tcp_round s = tcp_in_main_nbuf s"
| "net_step env (Tcp_send dst t) s = forget (tcp_send_nbuf env dst t s)"
| "net_step env (Resolve_timer k) s = resolve_timer env k s"
| "net_step env Arp_second s = Inr (arp_timeout_callback s)"
| "net_step env (Udp_new k) s = Inr (if map_of (n_udp s) k = None then new_udp k s else s)"
| "net_step env (Udp_bind rnd k a) s = forget (udp_bind env rnd k a s)"
| "net_step env (Udp_connect k a) s = forget (udp_connect k a s)"
| "net_step env (Udp_sendto rnd k b a) s = forget (udp_sendto env rnd k b a s)"
| "net_step env (Udp_write rnd k b) s = forget (udp_write env rnd k b s)"
| "net_step env (Udp_recvfrom k n) s = forget (udp_recvfrom k n s)"
| "net_step env (Udp_delete k) s = delete_udp k s"
| "net_step env (Raw_new k) s = Inr (if map_of (n_rawSockets s) k = None then new_RawIpFileDescriptor k s else s)"
| "net_step env (Raw_read k n) s = forget (raw_read k n s)"
| "net_step env (Raw_close k) s = raw_close k s"
| "net_step env (Raw_delete k) s = Inr (delete_RawIpFileDescriptor k s)"

text \<open>
  A reader of a UDP socket can be interrupted before and after it takes a buffer out of the queue. A state of a run has the buffers
  that readers have taken and not yet copied; \<open>Recv_copy j n\<close> lets the reader of the \<open>j\<close>-th of them go on.
\<close>

datatype net_action = Event net_event | Recv_locked nat | Recv_copy nat nat

fun net_act :: "net_env \<Rightarrow> net_action \<Rightarrow> nat list \<times> net \<Rightarrow> (nat list \<times> net) result" where
  "net_act env (Event e) (hs, s) = rbind (net_step env e s) (\<lambda>s1. Inr (hs, s1))"
| "net_act env (Recv_locked k) (hs, s) = rbind (udp_recvfrom_locked k s) (\<lambda>(i, s1). Inr (hs @ [i], s1))"
| "net_act env (Recv_copy j n) (hs, s) =
     (if j < length hs then rbind (udp_recvfrom_copy n (hs ! j) s) (\<lambda>(_, s1). Inr (take j hs @ drop (Suc j) hs, s1))
      else Inr (hs, s))"

fun net_run :: "net_env \<Rightarrow> net_action list \<Rightarrow> nat list \<times> net \<Rightarrow> (nat list \<times> net) result" where
  "net_run env [] s = Inr s"
| "net_run env (a # as) s = rbind (net_act env a s) (net_run env as)"

definition net_init :: net where
  "net_init =
     \<lparr>n_bufs = Map.empty, n_next = 0, n_rxBuffers = [], n_handlers = [], n_devices = [], n_devIndex = 0,
      n_rx = new_queue 32, n_tx = new_queue 32, n_wire = [], n_arp = Map.empty, n_interfaces = [], n_if_capacity = 0,
      n_if_moved = 0, n_rtable = [], n_gId = 0, n_resolving = [], n_rawSockets = [], n_udp = [], n_ports = Map.empty,
      n_inSegments = new_queue 150\<rparr>"

lemma own_init: "own {#} net_init"
  by (rule ownI) (simp_all add: net_init_def owned_def new_queue_def)

lemma safe_setup: "own F s \<Longrightarrow> safe (own F) (setupRxRing env n s)"
proof (induction n arbitrary: s)
  case (Suc n)
  have "own F (t\<lparr>n_rxBuffers := n_rxBuffers t @ [i]\<rparr>)" if "own (add_mset i F) t" for i t
    using that by (rule own_move) (simp_all add: owned_def)
  then show ?case using own_alloc_aligned [OF Suc.prems]
    by (fastforce split: prod.splits option.splits intro: Suc.IH)
qed simp

lemma safe_forget: "safe (\<lambda>(r, s'). own F s') m \<Longrightarrow> safe (own F) (forget m)"
  unfolding forget_def by (erule safe_bind) auto

lemma safe_step: "own F s \<Longrightarrow> safe (own F) (net_step env e s)"
  by (cases e)
    (auto intro!: safe_forget safe_drain safe_rx safe_tx safe_tcp_main safe_tcp_send safe_resolve_timer own_new_udp
      safe_udp_bind safe_udp_connect safe_udp_sendto safe_udp_write safe_udp_recvfrom safe_delete_udp own_raw_new
      safe_raw_read safe_raw_close own_filter_raw simp: ethernet_register_handler_def ethernet_register_device_def)

lemma safe_act: "own (mset hs) s \<Longrightarrow> safe (\<lambda>(hs', s'). own (mset hs') s') (net_act env a (hs, s))"
proof (induction a)
  case (Event e)
  then show ?case by (simp, intro safe_bind [OF safe_step]) auto
next
  case (Recv_locked k)
  then show ?case by (simp, intro safe_bind [OF safe_udp_recvfrom_locked]) auto
next
  case (Recv_copy j n)
  show ?case
  proof (cases "j < length hs")
    case True
    then have "hs = take j hs @ hs ! j # drop (Suc j) hs" by (rule id_take_nth_drop)
    then have "mset hs = add_mset (hs ! j) (mset (take j hs @ drop (Suc j) hs))"
      by (metis mset_append mset.simps(2) union_mset_add_mset_right)
    then have "own (add_mset (hs ! j) (mset (take j hs @ drop (Suc j) hs))) s" using Recv_copy by simp
    then show ?thesis using True by (simp, intro safe_bind [OF safe_udp_recvfrom_copy]) auto
  qed (use Recv_copy in simp)
qed

lemma safe_run: "own (mset hs) s \<Longrightarrow> safe (\<lambda>(hs', s'). own (mset hs') s') (net_run env as (hs, s))"
proof (induction as arbitrary: hs s)
  case (Cons a as)
  show ?case using safe_bind [OF safe_act [OF Cons.prems], where f = "net_run env as"] Cons.IH by fastforce
qed simp

lemma own_owned: assumes "own (mset hs) s" shows "distinct (hs @ owned s) \<and> set (hs @ owned s) \<subseteq> dom (n_bufs s)"
proof -
  let ?xs = "hs @ owned s"
  have c: "count (mset ?xs) i \<le> (if n_bufs s i = None then 0 else 1)" for i
    using own_count [OF assms, of i] by (simp add: add.commute)
  have "set ?xs \<subseteq> dom (n_bufs s)"
  proof
    fix i assume "i \<in> set ?xs"
    then have "count (mset ?xs) i > 0" by (simp only: set_mset_mset [symmetric] count_greater_zero_iff)
    then show "i \<in> dom (n_bufs s)" using c [of i] by (auto split: if_splits)
  qed
  moreover have "count (mset ?xs) i = (if i \<in> set ?xs then 1 else 0)" for i
  proof (cases "i \<in> set ?xs")
    case True
    then have "count (mset ?xs) i > 0" by (simp only: set_mset_mset [symmetric] count_greater_zero_iff)
    moreover have "count (mset ?xs) i \<le> 1" using c [of i] by (rule order_trans) simp
    ultimately show ?thesis unfolding if_P [OF True] by linarith
  next
    case False
    then show ?thesis by (simp only: if_False set_mset_mset [symmetric] count_eq_zero_iff not_False_eq_True)
  qed
  then have "distinct ?xs" unfolding distinct_count_atmost_1 by blast
  ultimately show ?thesis by blast
qed

end
