(* ===== verification/Net_Props.thy ===== *)
theory Net_Props
  imports Net_Run Tcp_Socket_Props
begin

text \<open>
  What the network stack promises: buffers are freed once and not used afterwards, and a datagram that one host sends
  is what the socket of the other host receives. The last part shows two ways in which the stack loses track of
  its objects.
\<close>

section \<open>Sending a datagram\<close>

text \<open>The packet that \<open>udp_alloc_nbuf\<close> prepares.\<close>

definition alloc_data :: "net_env \<Rightarrow> nat \<Rightarrow> nat \<Rightarrow> u8 list" where
  "alloc_data env i n = map (ne_fill env i) [0..<n]"

lemma udp_alloc_ok:
  assumes "ip_route_lookup dst s = Some r" "route_iface r s = Inr iface" "ne_nbuf env (n_next s)" "ne_data env (n_next s)"
    "unat n + 8 < 2 ^ 16"
  shows "udp_alloc_nbuf env dst port n s =
    Inr (Some (n_next s), s\<lparr>n_next := Suc (n_next s), n_gId := n_gId s + 1, n_bufs := (n_bufs s)(n_next s \<mapsto>
      \<lparr>nb_data = put_bytes 34 (bytes16 0 @ bytes16 port @ bytes16 (8 + n) @ bytes16 0)
         (put_bytes 14 (ip_header 64 IPPROTO_UDP (20 + (8 + n)) (n_gId s) (if_address iface) dst)
           (put_bytes 12 (bytes16 ETH_P_IPv4) (alloc_data env (n_next s) (42 + unat n)))),
       nb_size = 42 + unat n, nb_device = if_device iface, nb_l2 = Some 0, nb_l3_proto = ETH_P_IPv4, nb_l3 = Some 14,
       nb_l4_proto = ucast IPPROTO_UDP, nb_l4 = Some 34\<rparr>)\<rparr>)"
proof -
  have n: "unat (8 + n) = 8 + unat n" using assms(5) by (simp add: unat_word_ariths)
  have l: "length (ip_header a b c d e f) = 20" for a b c d e f by (simp add: ip_header_def)
  show ?thesis
    using assms
    by (simp add: udp_alloc_nbuf_def ip_alloc_nbuf_def ethernet_alloc_nbuf_def nbuf_alloc_def nbuf_alloc_aligned_def
        nbuf_at_def nbuf_set_l2_def nbuf_set_l3_def nbuf_set_l4_def nbuf_set_size_def nbuf_set_device_def nbuf_capacity_def
        rassert_def ip_hdr_def l3_hdr_def udp_hdr_def l4_hdr_def in_buffer_def nextId_def nbuf_store_def Let_def n l alloc_data_def)
qed

text \<open>What the following writes make of the bytes.\<close>

lemma split_bytes:
  assumes "length d = 42 + n"
  obtains a b c e f g u k p where "d = a @ b @ c @ e @ f @ g @ u @ k @ p" "length a = 6" "length b = 6" "length c = 2"
    "length e = 10" "length f = 2" "length g = 8" "length u = 6" "length k = 2" "length p = n"
proof -
  have cut_at: "drop m d = take j (drop m d) @ drop (j + m) d" for j m by (metis append_take_drop_id drop_drop)
  have "d = take 6 d @ drop 6 d" by simp
  also have "drop 6 d = take 6 (drop 6 d) @ drop 12 d" using cut_at [of 6 6] by simp
  also have "drop 12 d = take 2 (drop 12 d) @ drop 14 d" using cut_at [of 12 2] by simp
  also have "drop 14 d = take 10 (drop 14 d) @ drop 24 d" using cut_at [of 14 10] by simp
  also have "drop 24 d = take 2 (drop 24 d) @ drop 26 d" using cut_at [of 24 2] by simp
  also have "drop 26 d = take 8 (drop 26 d) @ drop 34 d" using cut_at [of 26 8] by simp
  also have "drop 34 d = take 6 (drop 34 d) @ drop 40 d" using cut_at [of 34 6] by simp
  also have "drop 40 d = take 2 (drop 40 d) @ drop 42 d" using cut_at [of 40 2] by simp
  finally show ?thesis using that assms by simp
qed

abbreviation udp_bytes :: "u16 \<Rightarrow> u16 \<Rightarrow> u16 \<Rightarrow> u8 list" where
  "udp_bytes sport dport len \<equiv> bytes16 sport @ bytes16 dport @ bytes16 len"

abbreviation ip_front :: "u16 \<Rightarrow> u16 \<Rightarrow> u8 list" where
  "ip_front len ident \<equiv> [0x45, 0] @ bytes16 len @ bytes16 ident @ [0, 0, 64, IPPROTO_UDP]"

lemma filled:
  assumes "length d = 42 + length payload"
  shows "\<exists>a b. length a = 6 \<and> length b = 6 \<and>
    put_bytes 42 payload (put_bytes 34 (bytes16 sport) (put_bytes 34 (bytes16 0 @ bytes16 dport @ bytes16 len @ bytes16 0)
      (put_bytes 14 (ip_header 64 IPPROTO_UDP tot ident saddr daddr) (put_bytes 12 (bytes16 ETH_P_IPv4) d)))) =
    a @ b @ bytes16 ETH_P_IPv4 @ ip_front tot ident @ bytes16 0 @ (bytes32 saddr @ bytes32 daddr) @
      udp_bytes sport dport len @ bytes16 0 @ payload"
proof -
  obtain a b c e f g u k p where d: "d = a @ b @ c @ e @ f @ g @ u @ k @ p"
    and l: "length a = 6" "length b = 6" "length c = 2" "length e = 10" "length f = 2" "length g = 8" "length u = 6"
      "length k = 2" "length p = length payload"
    using split_bytes [OF assms] by metis
  have z: "bytes16 (0::u16) = [0, 0]" by (simp add: bytes16_def)
  have 1: "put_bytes 12 (bytes16 ETH_P_IPv4) d = a @ b @ bytes16 ETH_P_IPv4 @ e @ f @ g @ u @ k @ p"
    by (simp add: put_bytes_def d l)
  define H where "H = ip_header 64 IPPROTO_UDP tot ident saddr daddr"
  have H: "length H = 20" by (simp add: H_def ip_header_def)
  have 2: "put_bytes 14 H (a @ b @ bytes16 ETH_P_IPv4 @ e @ f @ g @ u @ k @ p) =
      a @ b @ bytes16 ETH_P_IPv4 @ H @ u @ k @ p"
    by (simp add: put_bytes_def l H)
  have 3: "put_bytes 34 (bytes16 0 @ bytes16 dport @ bytes16 len @ bytes16 0) (a @ b @ bytes16 ETH_P_IPv4 @ H @ u @ k @ p) =
      a @ b @ bytes16 ETH_P_IPv4 @ H @ bytes16 0 @ bytes16 dport @ bytes16 len @ bytes16 0 @ p"
    by (simp add: put_bytes_def l H)
  have 4: "put_bytes 34 (bytes16 sport) (a @ b @ bytes16 ETH_P_IPv4 @ H @ bytes16 0 @ bytes16 dport @ bytes16 len @ bytes16 0 @ p) =
      a @ b @ bytes16 ETH_P_IPv4 @ H @ bytes16 sport @ bytes16 dport @ bytes16 len @ bytes16 0 @ p"
    by (simp add: put_bytes_def l H)
  have 5: "put_bytes 42 payload (a @ b @ bytes16 ETH_P_IPv4 @ H @ bytes16 sport @ bytes16 dport @ bytes16 len @ bytes16 0 @ p) =
      a @ b @ bytes16 ETH_P_IPv4 @ H @ bytes16 sport @ bytes16 dport @ bytes16 len @ bytes16 0 @ payload"
    by (simp add: put_bytes_def l H)
  have h: "H = ip_front tot ident @ bytes16 0 @ bytes32 saddr @ bytes32 daddr" by (simp add: H_def ip_header_def z)
  have "put_bytes 42 payload (put_bytes 34 (bytes16 sport) (put_bytes 34 (bytes16 0 @ bytes16 dport @ bytes16 len @ bytes16 0)
      (put_bytes 14 H (put_bytes 12 (bytes16 ETH_P_IPv4) d)))) =
      a @ b @ bytes16 ETH_P_IPv4 @ H @ bytes16 sport @ bytes16 dport @ bytes16 len @ bytes16 0 @ payload"
    by (simp only: 1 2 3 4 5)
  then show ?thesis
    unfolding H_def [symmetric] using l h by (rule_tac exI [of _ a], rule_tac exI [of _ b]) simp
qed

text \<open>The checksums are computed over zero checksum fields; the frame is complete when the addresses are filled in.\<close>

abbreviation frame_with :: "mac \<Rightarrow> mac \<Rightarrow> u16 \<Rightarrow> u16 \<Rightarrow> u16 \<Rightarrow> u32 \<Rightarrow> u32 \<Rightarrow> u16 \<Rightarrow> u16 \<Rightarrow> u16 \<Rightarrow> u16 \<Rightarrow> u8 list \<Rightarrow> u8 list" where
  "frame_with a b tot ident ic saddr daddr sport dport len uc payload \<equiv>
     a @ b @ bytes16 ETH_P_IPv4 @ ip_front tot ident @ bytes16 ic @ (bytes32 saddr @ bytes32 daddr) @
       udp_bytes sport dport len @ bytes16 uc @ payload"

lemma be16_zero: "be16 0 0 = 0"
  by (simp add: be16_def)

lemma frame_fields:
  fixes tot ident ic sport dport len uc :: u16 and saddr daddr :: u32 and payload :: "u8 list"
  assumes "length a = 6" "length b = 6"
  defines "d \<equiv> frame_with a b tot ident ic saddr daddr sport dport len uc payload"
  shows "length d = 42 + length payload" "get16 12 d = ETH_P_IPv4" "d ! 14 = 0x45" "get16 16 d = tot" "get16 20 d = 0"
    "d ! 23 = IPPROTO_UDP" "get16 24 d = ic" "get32 26 d = saddr" "get32 30 d = daddr" "get16 34 d = sport"
    "get16 36 d = dport" "get16 38 d = len" "get16 40 d = uc"
  using assms(1,2) by (simp_all add: d_def get16_def get32_def nth_append bytes16_def bytes32_def be16_zero)

lemma frame_puts:
  fixes tot ident sport dport len :: u16 and saddr daddr :: u32 and payload :: "u8 list"
  assumes "length a = 6" "length b = 6"
  defines "d \<equiv> \<lambda>ic uc. frame_with a b tot ident ic saddr daddr sport dport len uc payload"
  shows "put_bytes 24 (bytes16 ic') (d ic uc) = d ic' uc" "put_bytes 40 (bytes16 uc') (d ic uc) = d ic uc'"
    "length m = 6 \<Longrightarrow> put_bytes 0 m (d ic uc) = frame_with m b tot ident ic saddr daddr sport dport len uc payload"
    "length m = 6 \<Longrightarrow> put_bytes 6 m (d ic uc) = frame_with a m tot ident ic saddr daddr sport dport len uc payload"
    "bytes_at 14 20 (d ic uc) = ip_front tot ident @ bytes16 ic @ bytes32 saddr @ bytes32 daddr"
    "drop 34 (d ic uc) = udp_bytes sport dport len @ bytes16 uc @ payload"
    "bytes_at 0 6 (d ic uc) = a" "bytes_at 6 6 (d ic uc) = b"
    "bytes_at 42 (length payload) (d ic uc @ pad) = payload"
  using assms(1,2) by (simp_all add: d_def put_bytes_def bytes_at_def)

lemma frame_checksums:
  fixes tot ident ic sport dport uc :: u16 and saddr daddr :: u32 and payload pad :: "u8 list"
  assumes "length a = 6" "length b = 6" "length payload + 8 < 2 ^ 16"
  defines "len \<equiv> 8 + of_nat (length payload)"
  defines "d \<equiv> frame_with a b tot ident ic saddr daddr sport dport len uc payload @ pad"
  shows "udp_checksum 14 34 d =
      tcp_udp_checksum saddr daddr IPPROTO_UDP (udp_bytes sport dport len @ bytes16 0 @ payload) len"
    and "ip_checksum 14 d = checksum (ip_front tot ident @ bytes16 0 @ bytes32 saddr @ bytes32 daddr) 0"
proof -
  define e where "e = frame_with a b tot ident ic saddr daddr sport dport len uc payload"
  note ff = frame_fields [OF assms(1,2), of tot ident ic saddr daddr sport dport len uc payload, folded e_def]
  have d: "d = e @ pad" by (simp add: d_def e_def)
  have f: "get32 26 d = saddr" "get32 30 d = daddr" "get16 38 d = len" "d ! 14 = 0x45"
    unfolding d using ff(1,3,8,9,12) by (simp_all add: get_append nth_append)
  have n: "unat len = 8 + length payload"
    using assms(3) by (simp add: len_def unat_word_ariths unsigned_of_nat take_bit_nat_eq_self)
  have "put_bytes 40 (bytes16 0) e = frame_with a b tot ident ic saddr daddr sport dport len 0 payload"
    unfolding e_def by (rule frame_puts(2) [OF assms(1,2)])
  then have "put_bytes 40 (bytes16 0) d = frame_with a b tot ident ic saddr daddr sport dport len 0 payload @ pad"
    unfolding d using put_bytes_append [of 40 "bytes16 0" e pad] ff(1) by simp
  then have "drop 34 (put_bytes 40 (bytes16 0) d) = udp_bytes sport dport len @ bytes16 0 @ payload @ pad"
    using assms(1,2) by simp
  then show "udp_checksum 14 34 d =
      tcp_udp_checksum saddr daddr IPPROTO_UDP (udp_bytes sport dport len @ bytes16 0 @ payload) len"
    by (simp add: udp_checksum_def f tcp_udp_checksum_def n)
  have "put_bytes 24 (bytes16 0) e = frame_with a b tot ident 0 saddr daddr sport dport len uc payload"
    unfolding e_def by (rule frame_puts(1) [OF assms(1,2)])
  then have "put_bytes 24 (bytes16 0) d = frame_with a b tot ident 0 saddr daddr sport dport len uc payload @ pad"
    unfolding d using put_bytes_append [of 24 "bytes16 0" e pad] ff(1) by simp
  then have "bytes_at 14 20 (put_bytes 24 (bytes16 0) d) = ip_front tot ident @ bytes16 0 @ bytes32 saddr @ bytes32 daddr"
    using assms(1,2) by (simp add: bytes_at_def)
  then show "ip_checksum 14 d = checksum (ip_front tot ident @ bytes16 0 @ bytes32 saddr @ bytes32 daddr) 0"
    by (simp add: ip_checksum_def f)
qed

text \<open>With the address in the cache the packet goes straight to the transmit queue.\<close>

lemma ip_output_sends:
  assumes nb: "n_bufs s i = Some nb" "nb_l3_proto nb = ETH_P_IPv4" "nb_l3 nb = Some 14" "nb_l2 nb = Some 0"
    and d: "34 \<le> length (nb_data nb)" "nb_data nb ! 14 = 0x45"
    and mem: "ne_nbuf env (n_next s)" "ne_data env (n_next s)" "i \<noteq> n_next s"
    and arp: "n_arp s (get32 30 (nb_data nb)) = Some e" "length (ae_mac e) = 6" and tx: "\<not> q_full (n_tx s)"
  shows "\<exists>s'. ip_output env i s = Inr (0, s') \<and>
    n_bufs s' i = Some (nb\<lparr>nb_data := put_bytes 0 (ae_mac e) (put_bytes 24 (bytes16 (ip_checksum 14 (nb_data nb))) (nb_data nb))\<rparr>) \<and>
    n_tx s' = (n_tx s)\<lparr>q_data := q_data (n_tx s) @ [i]\<rparr> \<and> n_devices s' = n_devices s \<and> n_wire s' = n_wire s"
proof -
  let ?d = "put_bytes 24 (bytes16 (ip_checksum 14 (nb_data nb))) (nb_data nb)"
  have g: "get32 30 ?d = get32 30 (nb_data nb)" using d by (simp add: get32_def nth_put_bytes)
  have ihl: "unat (nb_data nb ! 14 AND 0xf) = 5" using d(2) by simp
  show ?thesis
    using nb d mem arp tx
    by (simp add: ip_output_def nbuf_at_def ip_hdr_def l3_hdr_def rassert_def in_buffer_def ihl g Let_def nbuf_store_def nbuf_alloc_def
        nbuf_alloc_aligned_def arp_resolve_def arp_get_hwaddr_def arp_resolve_cb_def ethernet_send_packet_def ethernet_hdr_def
        q_push_nowait nbuf_free_def)
qed

text \<open>What a sending host needs: a route and a device, the address in the cache, a bound socket, room in the pools.\<close>

definition can_send :: "net_env \<Rightarrow> nat \<Rightarrow> u32 \<Rightarrow> mac \<Rightarrow> interface_t \<Rightarrow> EthernetDevice \<Rightarrow> UdpFileDescriptor \<Rightarrow> net \<Rightarrow> bool" where
  "can_send env k dst m iface dev fd s \<longleftrightarrow>
     (case ip_route_lookup dst s of None \<Rightarrow> False | Some r \<Rightarrow> route_iface r s = Inr iface) \<and>
     find_device (if_device iface) s = Some dev \<and> length (ed_mac dev) = 6 \<and>
     map_option ae_mac (n_arp s dst) = Some m \<and> length m = 6 \<and>
     map_of (n_udp s) k = Some fd \<and> us_sourcePort fd \<noteq> 0 \<and> n_tx s = new_queue 32 \<and>
     ne_nbuf env (n_next s) \<and> ne_data env (n_next s) \<and> ne_nbuf env (Suc (n_next s)) \<and> ne_data env (Suc (n_next s))"

definition udp_frame :: "mac \<Rightarrow> mac \<Rightarrow> u16 \<Rightarrow> u32 \<Rightarrow> u32 \<Rightarrow> u16 \<Rightarrow> u16 \<Rightarrow> u8 list \<Rightarrow> u8 list" where
  "udp_frame a b ident saddr daddr sport dport payload =
     (let len = 8 + of_nat (length payload)
      in frame_with a b (20 + len) ident
           (checksum (ip_front (20 + len) ident @ bytes16 0 @ bytes32 saddr @ bytes32 daddr) 0) saddr daddr sport dport len
           (tcp_udp_checksum saddr daddr IPPROTO_UDP (udp_bytes sport dport len @ bytes16 0 @ payload) len) payload)"

lemma udp_sendto_sends:
  assumes c: "can_send env k dst m iface dev fd s" and "dst \<noteq> 0" "dport \<noteq> 0" and n: "length payload \<le> 1500"
  shows "\<exists>s' nb. udp_sendto env rnd k payload \<lparr>sa_address = dst, sa_port = dport\<rparr> s = Inr (int (length payload), s') \<and>
    n_tx s' = new_queue 32\<lparr>q_data := [n_next s]\<rparr> \<and> n_bufs s' (n_next s) = Some nb \<and>
    n_devices s' = n_devices s \<and> n_wire s' = n_wire s \<and> nb_device nb = if_device iface \<and> nb_l2 nb = Some 0 \<and>
    nb_l3_proto nb = ETH_P_IPv4 \<and> nb_size nb = 42 + length payload \<and>
    (\<exists>b. length b = 6 \<and> nb_data nb = udp_frame m b (n_gId s) (if_address iface) dst (us_sourcePort fd) dport payload)"
proof -
  obtain r e where r: "ip_route_lookup dst s = Some r" "route_iface r s = Inr iface" and e: "n_arp s dst = Some e" "ae_mac e = m"
    using c by (auto simp: can_send_def split: option.splits)
  have c2: "length m = 6" "map_of (n_udp s) k = Some fd" "us_sourcePort fd \<noteq> 0" "n_tx s = new_queue 32"
    "ne_nbuf env (n_next s)" "ne_data env (n_next s)" "ne_nbuf env (Suc (n_next s))" "ne_data env (Suc (n_next s))"
    using c by (simp_all add: can_send_def)
  define i where "i = n_next s"
  define len where "len = (8 + of_nat (length payload) :: u16)"
  have u: "unat (of_nat (length payload) :: u16) = length payload"
    using n by (simp add: unsigned_of_nat take_bit_nat_eq_self)
  have ul: "unat len = 8 + length payload" using n by (simp add: len_def unat_word_ariths u)
  define saddr sport ident where v: "saddr = if_address iface" "sport = us_sourcePort fd" "ident = n_gId s"
  obtain a b where ab: "length a = 6" "length b = 6" and D: "put_bytes 42 payload (put_bytes 34 (bytes16 sport)
      (put_bytes 34 (bytes16 0 @ bytes16 dport @ bytes16 len @ bytes16 0) (put_bytes 14 (ip_header 64 IPPROTO_UDP (20 + len) ident saddr dst)
        (put_bytes 12 (bytes16 ETH_P_IPv4) (alloc_data env i (42 + length payload)))))) =
      frame_with a b (20 + len) ident 0 saddr dst sport dport len 0 payload"
    using filled [of "alloc_data env i (42 + length payload)" payload sport dport len "20 + len" ident saddr dst]
    by (simp only: alloc_data_def length_map length_upt diff_zero) blast
  define F where "F ic uc = frame_with a b (20 + len) ident ic saddr dst sport dport len uc payload" for ic uc
  note ff = frame_fields [OF ab, of "20 + len" ident _ saddr dst sport dport len _ payload, folded F_def]
  define uc where "uc = tcp_udp_checksum saddr dst IPPROTO_UDP (udp_bytes sport dport len @ bytes16 0 @ payload) len"
  define ic where "ic = checksum (ip_front (20 + len) ident @ bytes16 0 @ bytes32 saddr @ bytes32 dst) 0"
  have uc: "udp_checksum 14 34 (F 0 0) = uc" and ic: "ip_checksum 14 (F 0 uc) = ic"
    using frame_checksums [OF ab, of payload "20 + len" ident 0 saddr dst sport dport _ "[]", folded len_def, unfolded append_Nil2, folded F_def]
      n by (simp_all add: uc_def ic_def)
  define nb where "nb = \<lparr>nb_data = F 0 uc, nb_size = 42 + length payload, nb_device = if_device iface, nb_l2 = Some 0,
    nb_l3_proto = ETH_P_IPv4, nb_l3 = Some 14, nb_l4_proto = ucast IPPROTO_UDP, nb_l4 = Some 34\<rparr>"
  let ?s2 = "s\<lparr>n_next := Suc i, n_gId := ident + 1, n_bufs := (n_bufs s)(i \<mapsto> nb)\<rparr>"
  have send: "udp_sendto env rnd k payload \<lparr>sa_address = dst, sa_port = dport\<rparr> s =
      rbind (ip_output env i ?s2) (\<lambda>(r2, s3). Inr (if r2 \<noteq> 0 then -1 else int (length payload), s3))"
  proof -
    define d0 where "d0 = put_bytes 34 (bytes16 0 @ bytes16 dport @ bytes16 len @ bytes16 0)
      (put_bytes 14 (ip_header 64 IPPROTO_UDP (20 + len) ident saddr dst)
        (put_bytes 12 (bytes16 ETH_P_IPv4) (alloc_data env i (42 + length payload))))"
    define n0 where "n0 = nb\<lparr>nb_data := d0\<rparr>"
    have alloc: "udp_alloc_nbuf env dst dport (of_nat (length payload)) s = Inr (Some i, ?s2\<lparr>n_bufs := (n_bufs s)(i \<mapsto> n0)\<rparr>)"
      using udp_alloc_ok [OF r c2(5,6), of "of_nat (length payload)" dport] n
      by (simp add: u len_def [symmetric] i_def [symmetric] v(1,3) [symmetric] n0_def nb_def d0_def)
    have l0: "length d0 = 42 + length payload" by (simp add: d0_def alloc_data_def ip_header_def)
    have D0: "put_bytes 42 payload (put_bytes 34 (bytes16 sport) d0) = F 0 0" unfolding d0_def F_def by (rule D)
    have p40: "put_bytes 40 (bytes16 uc) (F 0 0) = F 0 uc" unfolding F_def by (rule frame_puts(2) [OF ab])
    show ?thesis
      using assms(2,3) c2(2,3) l0
      by (simp add: udp_sendto_def alloc udp_at_def nbuf_at_def n0_def nb_def udp_hdr_def l4_hdr_def rassert_def in_buffer_def Let_def
          v(2) [symmetric] D0 udp_output_def nbuf_store_def ip_hdr_def l3_hdr_def ff ul uc p40)
  qed
  obtain s' where s': "ip_output env i ?s2 = Inr (0, s')" "n_tx s' = (n_tx ?s2)\<lparr>q_data := q_data (n_tx ?s2) @ [i]\<rparr>"
    "n_bufs s' i = Some (nb\<lparr>nb_data := put_bytes 0 (ae_mac e) (put_bytes 24 (bytes16 (ip_checksum 14 (nb_data nb))) (nb_data nb))\<rparr>)"
    "n_devices s' = n_devices ?s2" "n_wire s' = n_wire ?s2"
    using ip_output_sends [of ?s2 i nb env e] c2 e ff i_def by (auto simp: nb_def q_full_def new_queue_def)
  have p: "put_bytes 0 m (put_bytes 24 (bytes16 ic) (F 0 uc)) = udp_frame m b ident saddr dst sport dport payload"
    unfolding F_def frame_puts(1) [OF ab] frame_puts(3) [OF ab c2(1)] udp_frame_def Let_def len_def uc_def ic_def by (rule refl)
  show ?thesis
    using s' c2(4) ab(2) p unfolding i_def [symmetric] v(1-3) [symmetric]
    by (simp add: send e(2) nb_def ic new_queue_def) blast
qed

lemma tx_sends:
  assumes "n_tx s = q\<lparr>q_data := [i]\<rparr>" "n_bufs s i = Some nb" "find_device (nb_device nb) s = Some dev" "nb_l2 nb = Some 0"
    "nb_l3_proto nb = ETH_P_IPv4" "length (ed_mac dev) = 6" "length a = 6" "length b = 6"
    "nb_data nb = udp_frame a b ident saddr daddr sport dport payload" "nb_size nb = 42 + length payload"
  shows "\<exists>s'. ethernet_tx_main s = Inr s' \<and>
    n_wire s' = n_wire s @ [(ed_phy dev, udp_frame a (ed_mac dev) ident saddr daddr sport dport payload)]"
proof -
  have l: "length (nb_data nb) = 42 + length payload" using assms(7-9) frame_fields(1) by (simp add: udp_frame_def Let_def)
  have p: "put_bytes 6 (ed_mac dev) (nb_data nb) = udp_frame a (ed_mac dev) ident saddr daddr sport dport payload"
    unfolding assms(9) udp_frame_def Let_def by (rule frame_puts(4) [OF assms(7,8,6)])
  have t: "get16 12 (udp_frame a (ed_mac dev) ident saddr daddr sport dport payload) = ETH_P_IPv4"
    unfolding udp_frame_def Let_def by (rule frame_fields(2) [OF assms(7,6)])
  have l2: "length (udp_frame a (ed_mac dev) ident saddr daddr sport dport payload) = 42 + length payload"
    unfolding udp_frame_def Let_def by (rule frame_fields(1) [OF assms(7,6)])
  show ?thesis
    using assms(1-6,10) l l2 p t
    by (simp add: ethernet_tx_main_def ethernet_tx_round_def q_pop_nowait nbuf_at_def find_device_def ethernet_hdr_def rassert_def in_buffer_def Let_def
        nbuf_free_def)
qed

section \<open>Receiving a datagram\<close>

lemma udp_frame_read:
  fixes payload rest :: "u8 list" and ident sport dport :: u16 and saddr daddr :: u32
  assumes "length a = 6" "length b = 6" and n: "length payload \<le> 1500"
  defines "d \<equiv> udp_frame a b ident saddr daddr sport dport payload @ rest"
  shows "42 + length payload \<le> length d" "get16 12 d = ETH_P_IPv4" "d ! 14 = 0x45" "d ! 23 = IPPROTO_UDP" "get32 26 d = saddr"
    "get16 34 d = sport" "get16 36 d = dport" "unat (get16 38 d) = 8 + length payload"
    "get16 40 d = udp_checksum 14 34 d" "ip_is_valid 14 d"
    "bytes_at 0 6 d = a" "j \<le> length payload \<Longrightarrow> bytes_at 42 j d = take j payload"
    "udp_data_length 34 d = of_nat (length payload)"
proof -
  define len where "len = (8 + of_nat (length payload) :: u16)"
  define uc where "uc = tcp_udp_checksum saddr daddr IPPROTO_UDP (udp_bytes sport dport len @ bytes16 0 @ payload) len"
  define ic where "ic = checksum (ip_front (20 + len) ident @ bytes16 0 @ bytes32 saddr @ bytes32 daddr) 0"
  define e where "e = frame_with a b (20 + len) ident ic saddr daddr sport dport len uc payload"
  have e: "udp_frame a b ident saddr daddr sport dport payload = e"
    unfolding e_def udp_frame_def Let_def len_def uc_def ic_def by (rule refl)
  have d: "d = e @ rest" by (simp add: d_def e)
  note ff = frame_fields [OF assms(1,2), of "20 + len" ident ic saddr daddr sport dport len uc payload, folded e_def]
  have ul: "unat len = 8 + length payload"
    using n by (simp add: len_def unat_word_ariths unsigned_of_nat take_bit_nat_eq_self)
  have ck: "udp_checksum 14 34 d = uc" "ip_checksum 14 d = ic"
    using frame_checksums [OF assms(1,2), of payload "20 + len" ident ic saddr daddr sport dport uc rest, folded len_def, folded e_def]
      n by (simp_all add: d uc_def ic_def)
  show "42 + length payload \<le> length d" "get16 12 d = ETH_P_IPv4" "d ! 14 = 0x45" "d ! 23 = IPPROTO_UDP" "get32 26 d = saddr"
    "get16 34 d = sport" "get16 36 d = dport"
    unfolding d using ff(1-3,6,8,10,11) by (simp_all add: get_append nth_append)
  have g: "get16 38 d = len" "get16 40 d = uc" "get16 20 d = 0" "get16 24 d = ic" "d ! 14 = 0x45"
    unfolding d using ff(1,3,5,7,12,13) by (simp_all add: get_append nth_append)
  show "unat (get16 38 d) = 8 + length payload" by (simp add: g ul)
  show "get16 40 d = udp_checksum 14 34 d" by (simp add: g ck)
  show "ip_is_valid 14 d" by (simp add: ip_is_valid_def g ck)
  show "udp_data_length 34 d = of_nat (length payload)" by (simp add: udp_data_length_def g len_def)
  show "bytes_at 0 6 d = a" unfolding d e_def using assms(1) by (simp add: bytes_at_def)
  show "bytes_at 42 j d = take j payload" if "j \<le> length payload"
    unfolding d e_def using assms(1,2) that by (simp add: bytes_at_def)
qed

text \<open>What a receiving host needs.\<close>

definition can_receive :: "net_env \<Rightarrow> nat \<Rightarrow> nat \<Rightarrow> u16 \<Rightarrow> string \<Rightarrow> mac \<Rightarrow> u32 \<Rightarrow> net \<Rightarrow> bool" where
  "can_receive env slot k port phy m saddr s \<longleftrightarrow>
     slot < length (n_rxBuffers s) \<and> n_rxBuffers s ! slot < n_next s \<and>
     (case n_bufs s (n_rxBuffers s ! slot) of None \<Rightarrow> False | Some nb \<Rightarrow> length (nb_data nb) = PacketSize) \<and>
     n_rx s = new_queue 32 \<and> ne_nbuf env (n_next s) \<and> ne_data env (n_next s) \<and>
     find_handler ETH_P_IPv4 s = Some Ip_handler \<and> n_rawSockets s = [] \<and>
     (case find_device_by_phy phy s of None \<Rightarrow> False | Some dev \<Rightarrow>
        ed_mac dev = m \<and>
        (case interface_get (ed_name dev) s of None \<Rightarrow> False | Some i \<Rightarrow>
           is_ip_on_same_network saddr (if_address i) (if_netmask i))) \<and>
     n_ports s port = Some k \<and>
     (case map_of (n_udp s) k of None \<Rightarrow> False | Some fd \<Rightarrow> us_rxQueue fd = new_queue 32)"

lemma drain_queues:
  assumes "can_receive env slot k port phy m saddr s" "60 \<le> length frame" "length frame \<le> 1548"
  shows "\<exists>s' nb. drainRxRing env phy slot True frame s = Inr s' \<and> n_rx s' = (new_queue 32)\<lparr>q_data := [n_rxBuffers s ! slot]\<rparr> \<and>
    n_bufs s' (n_rxBuffers s ! slot) = Some nb \<and> nb_device nb = phy \<and> nb_l2 nb = Some 0 \<and> nb_size nb = length frame \<and>
    length (nb_data nb) = 1548 \<and> (\<exists>rest. nb_data nb = frame @ rest) \<and>
    n_handlers s' = n_handlers s \<and> n_devices s' = n_devices s \<and> n_interfaces s' = n_interfaces s \<and>
    n_rawSockets s' = [] \<and> n_ports s' = n_ports s \<and> n_udp s' = n_udp s"
proof -
  obtain nb where nb: "n_bufs s (n_rxBuffers s ! slot) = Some nb" "length (nb_data nb) = 1548"
    using assms(1) by (auto simp: can_receive_def PacketSize_def split: option.splits)
  have p: "put_bytes 0 frame (nb_data nb) = frame @ drop (length frame) (nb_data nb)" by (simp add: put_bytes_def)
  show ?thesis
    using assms nb
    by (simp add: can_receive_def drainRxRing_def rassert_def pass_up_def nbuf_at_def nbuf_set_size_def nbuf_capacity_def p PacketSize_def
        ethernet_absorb_packet_def nbuf_store_def nbuf_set_l2_def nbuf_set_device_def q_push_nowait q_full_def new_queue_def Let_def
        nbuf_alloc_aligned_def)
qed

lemma size_from:
  assumes "pos \<le> n" "n \<le> 1548"
  shows "unat (of_nat n - of_nat pos :: u32) = n - pos"
proof -
  have "(of_nat n - of_nat pos :: u32) = of_nat (n - pos)" using assms(1) by simp
  then show ?thesis using assms(2) by (simp only: unsigned_of_nat) (simp add: take_bit_nat_eq_self)
qed

text \<open>The buffer with a datagram, once the Ethernet layer has set its headers.\<close>

definition datagram_buf :: "u8 list \<Rightarrow> NetworkBuffer \<Rightarrow> bool" where
  "datagram_buf frame nb \<longleftrightarrow>
     nb_l2 nb = Some 0 \<and> nb_l3 nb = Some 14 \<and> nb_l3_proto nb = ETH_P_IPv4 \<and> length (nb_data nb) = 1548 \<and>
     nb_size nb = length frame \<and> (\<exists>rest. nb_data nb = frame @ rest)"

lemma udp_input_queues:
  assumes nb: "n_bufs s i = Some nb" "datagram_buf (udp_frame a b ident saddr daddr sport dport payload @ pad) nb"
      "nb_l4 nb = Some 34" "nb_l4_proto nb = ucast IPPROTO_UDP"
    and l: "length a = 6" "length b = 6" "length payload + length pad \<le> 1500"
    and k: "n_ports s dport = Some k" "map_of (n_udp s) k = Some fd" "\<not> q_full (us_rxQueue fd)"
  shows "udp_input env i s = Inr (0, udp_store k (fd\<lparr>us_rxQueue := (us_rxQueue fd)\<lparr>q_data := q_data (us_rxQueue fd) @ [i]\<rparr>\<rparr>) s)"
proof -
  obtain rest where d: "nb_data nb = udp_frame a b ident saddr daddr sport dport payload @ rest" "length (nb_data nb) = 1548"
      "nb_size nb = 42 + length payload + length pad"
    using nb(2) l frame_fields(1) [OF l(1,2)] by (auto simp: datagram_buf_def udp_frame_def Let_def)
  have n: "length payload \<le> 1500" using l by simp
  note r = udp_frame_read [OF l(1,2) n, where ident = ident and saddr = saddr and daddr = daddr and sport = sport and dport = dport
      and rest = rest, folded d(1)]
  have "unat (of_nat (nb_size nb) - of_nat 34 :: u32) = 8 + length payload + length pad"
    "unat (of_nat (nb_size nb) - of_nat 42 :: u32) = length payload + length pad"
    using size_from [of 34 "nb_size nb"] size_from [of 42 "nb_size nb"] l d(3) by simp_all
  then have sz: "\<not> (of_nat (nb_size nb) - 34 < (8 :: u32))"
      "\<not> (of_nat (nb_size nb) - 42 < (ucast (of_nat (length payload) :: u16) :: u32))"
    using n by (simp_all add: word_less_nat_alt unsigned_of_nat take_bit_nat_eq_self unsigned_ucast_eq)
  have valid: "udp_validate_packet nb 34 = Inr True"
    using nb(2) sz r n d by (simp add: udp_validate_packet_def nbuf_size_from_def nbuf_capacity_def rassert_def in_buffer_def ip_hdr_def
        l3_hdr_def datagram_buf_def)
  show ?thesis
    using nb k r valid
    by (simp add: udp_input_def nbuf_at_def udp_hdr_def l4_hdr_def rassert_def getUdpDescriptorByPort_def udp_at_def q_push_nowait)
qed

lemma ip_input_queues:
  assumes nb: "n_bufs s i = Some nb" "datagram_buf (udp_frame a b ident saddr daddr sport dport payload @ pad) nb"
    and l: "length a = 6" "length b = 6" "length payload + length pad \<le> 1500"
    and k: "n_ports s dport = Some k" "map_of (n_udp s) k = Some fd" "us_rxQueue fd = new_queue 32" "n_rawSockets s = []"
    and net: "interface_get (nb_device nb) s = Some iface" "is_ip_on_same_network saddr (if_address iface) (if_netmask iface)"
  shows "\<exists>s' nb'. ip_input env i s = Inr (0, s') \<and>
    map_of (n_udp s') k = Some (fd\<lparr>us_rxQueue := (new_queue 32)\<lparr>q_data := [i]\<rparr>\<rparr>) \<and> n_bufs s' i = Some nb' \<and>
    datagram_buf (udp_frame a b ident saddr daddr sport dport payload @ pad) nb' \<and>
    nb_l4 nb' = Some 34 \<and> nb_l4_proto nb' = ucast IPPROTO_UDP"
proof -
  define nb1 where "nb1 = nb\<lparr>nb_l4 := Some 34, nb_l4_proto := ucast IPPROTO_UDP\<rparr>"
  have dg: "datagram_buf (udp_frame a b ident saddr daddr sport dport payload @ pad) nb1"
    using nb(2) by (simp add: datagram_buf_def nb1_def)
  obtain rest where d: "nb_data nb = udp_frame a b ident saddr daddr sport dport payload @ rest" "length (nb_data nb) = 1548"
      "nb_size nb = 42 + length payload + length pad" "nb_l2 nb = Some 0" "nb_l3 nb = Some 14" "nb_l3_proto nb = ETH_P_IPv4"
    using nb(2) l frame_fields(1) [OF l(1,2)] by (auto simp: datagram_buf_def udp_frame_def Let_def)
  have n: "length payload \<le> 1500" using l by simp
  note r = udp_frame_read [OF l(1,2) n, where ident = ident and saddr = saddr and daddr = daddr and sport = sport and dport = dport
      and rest = rest, folded d(1)]
  have "unat (of_nat (nb_size nb) - of_nat 14 :: u32) = 28 + length payload + length pad"
    using size_from [of 14 "nb_size nb"] l d(3) by simp
  then have sz: "\<not> (of_nat (nb_size nb) - 14 < (20 :: u32))" by (simp add: word_less_nat_alt)
  define s1 where "s1 = arp_set_entry env (nb_device nb1) (bytes_at 6 6 (nb_data nb1)) saddr (nbuf_store i nb1 s)"
  have s1: "n_bufs s1 i = Some nb1" "n_ports s1 = n_ports s" "n_udp s1 = n_udp s" "n_rawSockets s1 = []" "n_interfaces s1 = n_interfaces s"
    using k(4) by (simp_all add: s1_def arp_set_entry_def nbuf_store_def split: option.splits)
  have "ip_input env i s = rbind (udp_input env i s1) (\<lambda>(_, s1). Inr (0, s1))"
  proof -
    have "interface_get (nb_device nb) s1 = Some iface"
      using net(1) s1(5) by (simp add: interface_get_def find_interface_def)
    moreover have "arp_set_entry env (nb_device nb) (bytes_at 6 6 (nb_data nb)) saddr
        (nbuf_store i (nb\<lparr>nb_l4 := Some 34, nb_l4_proto := 17\<rparr>) s) = s1" by (simp add: s1_def nb1_def IPPROTO_UDP_def)
    ultimately show ?thesis
      using nb(1) d(2,4-6) sz r(3,4,5,10) net(2) s1(4)
      by (simp add: ip_input_def nbuf_at_def ip_hdr_def l3_hdr_def rassert_def nbuf_size_from_def nbuf_capacity_def in_buffer_def
          nbuf_set_l4_def ip_hint_arp_cache_def ethernet_hdr_def ip_deliver_def IPPROTO_UDP_def IPPROTO_ICMP_def
          IPPROTO_TCP_def Let_def)
  qed
  moreover have "udp_input env i s1 = Inr (0, udp_store k (fd\<lparr>us_rxQueue := (us_rxQueue fd)\<lparr>q_data := q_data (us_rxQueue fd) @ [i]\<rparr>\<rparr>) s1)"
    by (rule udp_input_queues [OF s1(1) dg _ _ l]) (use k s1 in \<open>simp_all add: nb1_def q_full_def new_queue_def\<close>)
  ultimately show ?thesis using k(3) s1(1) dg by (simp add: udp_store_def update_conv new_queue_def) (simp add: nb1_def)
qed

lemma rx_queues:
  assumes c: "can_receive env slot k dport phy a saddr s0" and q: "n_rx s = q\<lparr>q_data := [i]\<rparr>"
    and nb: "n_bufs s i = Some nb" "nb_device nb = phy" "nb_l2 nb = Some 0"
      "nb_size nb = length (udp_frame a b ident saddr daddr sport dport payload @ pad)" "length (nb_data nb) = 1548"
      "nb_data nb = (udp_frame a b ident saddr daddr sport dport payload @ pad) @ rest"
    and l: "length a = 6" "length b = 6" "length payload + length pad \<le> 1500"
    and same: "n_handlers s = n_handlers s0" "n_devices s = n_devices s0" "n_interfaces s = n_interfaces s0" "n_rawSockets s = []"
      "n_ports s = n_ports s0" "n_udp s = n_udp s0"
  shows "\<exists>s' fd nb'. ethernet_rx_main env s = Inr s' \<and>
    map_of (n_udp s') k = Some (fd\<lparr>us_rxQueue := (new_queue 32)\<lparr>q_data := [i]\<rparr>\<rparr>) \<and> n_bufs s' i = Some nb' \<and>
    datagram_buf (udp_frame a b ident saddr daddr sport dport payload @ pad) nb' \<and>
    nb_l4 nb' = Some 34 \<and> nb_l4_proto nb' = ucast IPPROTO_UDP"
proof -
  obtain dev iface fd where dev: "find_device_by_phy phy s0 = Some dev" "ed_mac dev = a"
    and iface: "interface_get (ed_name dev) s0 = Some iface" "is_ip_on_same_network saddr (if_address iface) (if_netmask iface)"
    and k: "n_ports s0 dport = Some k" "map_of (n_udp s0) k = Some fd" "us_rxQueue fd = new_queue 32"
    and h: "find_handler ETH_P_IPv4 s0 = Some Ip_handler"
    using c by (auto simp: can_receive_def split: option.splits)
  have n: "length payload \<le> 1500" using l by simp
  have d: "nb_data nb = udp_frame a b ident saddr daddr sport dport payload @ pad @ rest" using nb(6) by simp
  note r = udp_frame_read [OF l(1,2) n, where ident = ident and saddr = saddr and daddr = daddr and sport = sport and dport = dport
      and rest = "pad @ rest", folded d]
  define nb1 where "nb1 = nb\<lparr>nb_device := ed_name dev, nb_l3 := Some 14, nb_l3_proto := ETH_P_IPv4\<rparr>"
  let ?s1 = "nbuf_store i nb1 (s\<lparr>n_rx := q\<lparr>q_data := []\<rparr>\<rparr>)"
  have hd: "find_handler ETH_P_IPv4 (s\<lparr>n_rx := x\<rparr>) = Some Ip_handler" "find_device_by_phy phy (s\<lparr>n_rx := x\<rparr>) = Some dev" for x
    using h dev(1) same(1,2) by (simp_all add: find_handler_def find_device_by_phy_def)
  have rx: "ethernet_rx_main env s = rbind (ip_input env i ?s1) (\<lambda>(_, s1). Inr s1)"
    using q nb(1-3,5) dev(2) hd r(2,11)
    by (simp add: ethernet_rx_main_def q_pop_nowait nbuf_at_def ethernet_hdr_def rassert_def in_buffer_def nbuf_set_l3_def nbuf_set_device_def nbuf_capacity_def call_handler_def ip_handler_def nb1_def Let_def)
  have dg: "datagram_buf (udp_frame a b ident saddr daddr sport dport payload @ pad) nb1"
    using nb(3-6) by (simp add: datagram_buf_def nb1_def)
  have "\<exists>s' nb'. ip_input env i ?s1 = Inr (0, s') \<and>
    map_of (n_udp s') k = Some (fd\<lparr>us_rxQueue := (new_queue 32)\<lparr>q_data := [i]\<rparr>\<rparr>) \<and> n_bufs s' i = Some nb' \<and>
    datagram_buf (udp_frame a b ident saddr daddr sport dport payload @ pad) nb' \<and>
    nb_l4 nb' = Some 34 \<and> nb_l4_proto nb' = ucast IPPROTO_UDP"
    by (rule ip_input_queues [OF _ dg l])
      (use k iface same in \<open>simp_all add: nbuf_store_def nb1_def interface_get_def find_interface_def\<close>)
  then show ?thesis unfolding rx by fastforce
qed

lemma recvfrom_reads:
  assumes fd: "map_of (n_udp s) k = Some fd" "us_rxQueue fd = q\<lparr>q_data := [i]\<rparr>" and nb: "n_bufs s i = Some nb"
      "datagram_buf (udp_frame a b ident saddr daddr sport dport payload @ pad) nb" "nb_l4 nb = Some 34" "nb_l4_proto nb = ucast IPPROTO_UDP"
    and l: "length a = 6" "length b = 6" "length payload + length pad \<le> 1500"
  shows "\<exists>s'. udp_recvfrom k n s = Inr (Some (take n payload, \<lparr>sa_address = saddr, sa_port = sport\<rparr>), s')"
proof -
  obtain rest where d: "nb_data nb = udp_frame a b ident saddr daddr sport dport payload @ rest" "length (nb_data nb) = 1548"
      "nb_l3 nb = Some 14" "nb_l3_proto nb = ETH_P_IPv4"
    using nb(2) by (auto simp: datagram_buf_def)
  have m: "length payload \<le> 1500" using l by simp
  note r = udp_frame_read [OF l(1,2) m, where ident = ident and saddr = saddr and daddr = daddr and sport = sport and dport = dport
      and rest = rest, folded d(1)]
  have u: "unat (of_nat (length payload) :: u16) = length payload" using m by (simp add: unsigned_of_nat take_bit_nat_eq_self)
  have t: "bytes_at 42 (min (length payload) n) (nb_data nb) = take n payload"
    using r(12) [of "min (length payload) n"] by (simp add: min_def)
  have "min (length payload) n \<le> 1500" using m by simp
  then show ?thesis
    using fd nb d(2-4) r(5,6,13) u t
    by (simp add: udp_recvfrom_def udp_recvfrom_copy_def udp_at_def q_pop_nowait udp_store_def nbuf_at_def udp_hdr_def l4_hdr_def ip_hdr_def l3_hdr_def
        rassert_def in_buffer_def nbuf_free_def Let_def)
qed

section \<open>Properties\<close>

text \<open>
  C37: from the set-up of the receive ring on, whatever frames arrive, in whatever order the threads, timers and system
  calls take their steps and whatever the memory pools answer, no function of the stack reads, writes or frees a buffer that
  has been freed; and at any time all buffers in queues, in the ring, in pending resolutions and in the hands of readers are different
  and alive. A step runs to its end before the next one starts, except that a reader of a UDP socket can be interrupted on both sides
  of taking a buffer out of the queue. A reader that finds the queue empty under the lock, because another reader was faster, is a fault of its own.
  What the device reads after the driver gave up waiting for it is not part of the claim.
\<close>

theorem net_no_use_after_free:
  "case rbind (setupRxRing env 32 net_init) (\<lambda>s. net_run env es ([], s)) of
     Inl e \<Rightarrow> e \<noteq> Undefined ''freed network buffer''
   | Inr (held, s) \<Rightarrow> distinct (held @ owned s) \<and> set (held @ owned s) \<subseteq> dom (n_bufs s)"
proof -
  have "safe (\<lambda>(hs, s). own (mset hs) s) (rbind (setupRxRing env 32 net_init) (\<lambda>s. net_run env es ([], s)))"
    by (rule safe_bind [OF safe_setup [OF own_init]]) (rule safe_run, simp)
  then show ?thesis using own_owned by (auto simp: safe_def split: sum.splits prod.splits)
qed

text \<open>
  C38: a datagram sent by one host is received by the other. The sender has a route, the hardware address of the
  destination, a bound socket and free buffers; the frame it puts on the wire, padded on the way, reaches a
  host whose device has that address and whose interface is on the sender's network. Then the send returns the
  length, the frame passes all checks of the Ethernet, IP and UDP layers, and the socket bound to the destination port
  reads the payload, cut to the size asked for, with the address and port of the sender.
\<close>

theorem udp_datagram_delivered:
  assumes A: "can_send envA k dst m iface dev fd sA" and "dst \<noteq> 0" "dport \<noteq> 0"
    and B: "can_receive envB slot k' dport phy m (if_address iface) sB"
    and l: "18 \<le> length payload + length pad" "length payload + length pad \<le> 1500"
  shows "\<exists>sA1 sA2 frame sB1 sB2 sB3.
    udp_sendto envA rnd k payload \<lparr>sa_address = dst, sa_port = dport\<rparr> sA = Inr (int (length payload), sA1) \<and>
    ethernet_tx_main sA1 = Inr sA2 \<and> n_wire sA2 = n_wire sA @ [(ed_phy dev, frame)] \<and>
    drainRxRing envB phy slot True (frame @ pad) sB = Inr sB1 \<and> ethernet_rx_main envB sB1 = Inr sB2 \<and>
    udp_recvfrom k' n sB2 =
      Inr (Some (take n payload, \<lparr>sa_address = if_address iface, sa_port = us_sourcePort fd\<rparr>), sB3)"
proof -
  let ?frame = "udp_frame m (ed_mac dev) (n_gId sA) (if_address iface) dst (us_sourcePort fd) dport payload"
  have n: "length payload \<le> 1500" using l by simp
  have mac: "length m = 6" "length (ed_mac dev) = 6" "find_device (if_device iface) sA = Some dev"
    using A by (simp_all add: can_send_def)
  obtain sA1 nb b where a1: "udp_sendto envA rnd k payload \<lparr>sa_address = dst, sa_port = dport\<rparr> sA = Inr (int (length payload), sA1)"
      "n_tx sA1 = new_queue 32\<lparr>q_data := [n_next sA]\<rparr>" "n_bufs sA1 (n_next sA) = Some nb" "n_devices sA1 = n_devices sA"
      "n_wire sA1 = n_wire sA" "nb_device nb = if_device iface" "nb_l2 nb = Some 0" "nb_l3_proto nb = ETH_P_IPv4"
      "nb_size nb = 42 + length payload" "length b = 6"
      "nb_data nb = udp_frame m b (n_gId sA) (if_address iface) dst (us_sourcePort fd) dport payload"
    using udp_sendto_sends [OF A assms(2,3) n, of rnd] by blast
  have "find_device (nb_device nb) sA1 = Some dev" using mac(3) a1(4,6) by (simp add: find_device_def)
  from tx_sends [OF a1(2,3) this a1(7,8) mac(2,1) a1(10,11,9)] obtain sA2 where
    a2: "ethernet_tx_main sA1 = Inr sA2" "n_wire sA2 = n_wire sA @ [(ed_phy dev, ?frame)]" using a1(5) by auto
  have len: "length ?frame = 42 + length payload"
    unfolding udp_frame_def Let_def by (rule frame_fields(1) [OF mac(1,2)])
  obtain sB1 nb1 rest where b1: "drainRxRing envB phy slot True (?frame @ pad) sB = Inr sB1"
      "n_rx sB1 = (new_queue 32)\<lparr>q_data := [n_rxBuffers sB ! slot]\<rparr>" "n_bufs sB1 (n_rxBuffers sB ! slot) = Some nb1"
      "nb_device nb1 = phy" "nb_l2 nb1 = Some 0" "nb_size nb1 = length (?frame @ pad)" "length (nb_data nb1) = 1548"
      "nb_data nb1 = (?frame @ pad) @ rest" "n_handlers sB1 = n_handlers sB" "n_devices sB1 = n_devices sB"
      "n_interfaces sB1 = n_interfaces sB" "n_rawSockets sB1 = []" "n_ports sB1 = n_ports sB" "n_udp sB1 = n_udp sB"
    using drain_queues [OF B, of "?frame @ pad"] l len by auto
  from rx_queues [OF B b1(2-8) mac(1,2) l(2) b1(9-14)] obtain sB2 fd' nb2 where b2: "ethernet_rx_main envB sB1 = Inr sB2"
      "map_of (n_udp sB2) k' = Some (fd'\<lparr>us_rxQueue := (new_queue 32)\<lparr>q_data := [n_rxBuffers sB ! slot]\<rparr>\<rparr>)"
      "n_bufs sB2 (n_rxBuffers sB ! slot) = Some nb2" "datagram_buf (?frame @ pad) nb2" "nb_l4 nb2 = Some 34"
      "nb_l4_proto nb2 = ucast IPPROTO_UDP" by blast
  from recvfrom_reads [OF b2(2) _ b2(3-6) mac(1,2) l(2), of "new_queue 32" n] obtain sB3 where
    "udp_recvfrom k' n sB2 = Inr (Some (take n payload, \<lparr>sa_address = if_address iface, sa_port = us_sourcePort fd\<rparr>), sB3)" by auto
  then show ?thesis using a1(1) a2 b1(1) b2(1) by blast
qed

text \<open>Two hosts on the network 1.1.1.0/24.\<close>

definition plenty :: net_env where
  "plenty = \<lparr>ne_nbuf = \<lambda>_. True, ne_data = \<lambda>_. True, ne_fill = \<lambda>_ _. 0, ne_table = \<lambda>_. True\<rparr>"

definition ifaceA :: interface_t where
  "ifaceA = \<lparr>if_device = ''eth0'', if_address = 0x01010101, if_netmask = 0xffffff00\<rparr>"

definition devA :: EthernetDevice where
  "devA = \<lparr>ed_name = ''eth0'', ed_phy = ''pcnet0'', ed_mac = [2, 0, 0, 0, 0, 1]\<rparr>"

definition devB :: EthernetDevice where
  "devB = \<lparr>ed_name = ''eth0'', ed_phy = ''pcnet0'', ed_mac = [2, 0, 0, 0, 0, 2]\<rparr>"

definition sockA :: UdpFileDescriptor where
  "sockA = \<lparr>us_sourcePort = 4000, us_dstAddress = no_addr, us_rxQueue = new_queue 32\<rparr>"

definition hostA :: net where
  "hostA = net_init\<lparr>n_devices := [devA], n_interfaces := [ifaceA],
     n_rtable := [\<lparr>rt_dest_addr = 0x01010100, rt_gateway_addr = 0, rt_netmask = 0xffffff00, rt_iface = (0, 0)\<rparr>],
     n_arp := [0x01010102 \<mapsto> \<lparr>ae_mac = ed_mac devB, ae_ip = 0x01010102, ae_device = ''eth0'', ae_timeout_seconds = 300,
                              ae_is_static = False\<rparr>],
     n_udp := [(7, sockA)]\<rparr>"

definition hostB :: net where
  "hostB = net_init\<lparr>n_devices := [devB], n_interfaces := [ifaceA\<lparr>if_address := 0x01010102\<rparr>], n_handlers := [(ETH_P_IPv4, Ip_handler)],
     n_next := 1, n_rxBuffers := [0],
     n_bufs := [0 \<mapsto> \<lparr>nb_data = replicate 1548 0, nb_size = 1548, nb_device = [], nb_l2 = None, nb_l3_proto = 0, nb_l3 = None,
                       nb_l4_proto = 0, nb_l4 = None\<rparr>],
     n_ports := [53 \<mapsto> 3], n_udp := [(3, sockA\<lparr>us_sourcePort := 53\<rparr>)]\<rparr>"

theorem udp_datagram_delivered_witness:
  "\<exists>sA1 sA2 frame sB1 sB2 sB3.
    udp_sendto plenty 0 7 [104, 105] \<lparr>sa_address = 0x01010102, sa_port = 53\<rparr> hostA = Inr (2, sA1) \<and>
    ethernet_tx_main sA1 = Inr sA2 \<and> n_wire sA2 = [(''pcnet0'', frame)] \<and>
    drainRxRing plenty ''pcnet0'' 0 True (frame @ replicate 16 0) hostB = Inr sB1 \<and> ethernet_rx_main plenty sB1 = Inr sB2 \<and>
    udp_recvfrom 3 100 sB2 = Inr (Some ([104, 105], \<lparr>sa_address = 0x01010101, sa_port = 4000\<rparr>), sB3)"
proof -
  have A: "can_send plenty 7 0x01010102 (ed_mac devB) ifaceA devA sockA hostA"
    by (simp add: can_send_def hostA_def net_init_def plenty_def ip_route_lookup_def is_ip_on_same_network_def route_iface_def
        rassert_def find_device_def devA_def devB_def ifaceA_def sockA_def)
  have B: "can_receive plenty 0 3 53 ''pcnet0'' (ed_mac devB) (if_address ifaceA) hostB"
    by (simp add: can_receive_def hostB_def net_init_def plenty_def is_ip_on_same_network_def PacketSize_def find_handler_def
        find_device_by_phy_def interface_get_def find_interface_def devB_def ifaceA_def sockA_def)
  have v: "n_wire hostA = []" "ed_phy devA = ''pcnet0''" "if_address ifaceA = 0x01010101" "us_sourcePort sockA = 4000"
    by (simp_all add: hostA_def net_init_def devA_def ifaceA_def sockA_def)
  show ?thesis
    using udp_datagram_delivered [OF A _ _ B, where payload = "[104, 105]" and pad = "replicate 16 0" and rnd = 0 and n = 100]
    by (simp add: v)
qed

section \<open>Losing track\<close>

text \<open>
  C39: every ARP request that is answered costs a network buffer for good. When a valid request arrives for an address that is in
  the cache, the handler sends its reply and returns without freeing the buffer of the request: the buffer stays alive,
  but no queue, ring or timer holds it any more.
\<close>

theorem arp_request_leaks:
  assumes nb: "n_bufs s i = Some nb" "i \<notin> set (owned s)" "i < n_next s" "nb_l3_proto nb = ETH_P_ARP" "nb_l3 nb = Some 14"
    and d: "42 \<le> nb_size nb" "nb_size nb \<le> length (nb_data nb)" "length (nb_data nb) \<le> 1548"
    and a: "arp_is_valid (arp_read 14 (nb_data nb))" "ar_operation (arp_read 14 (nb_data nb)) = ARP_OP_REQUEST"
    and e: "n_arp s (ar_target_ip (arp_read 14 (nb_data nb))) = Some e"
    and mem: "ne_nbuf env (n_next s)" "ne_data env (n_next s)" "\<not> q_full (n_tx s)"
  shows "\<exists>s'. arp_handler env i s = Inr s' \<and> q_data (n_tx s') = q_data (n_tx s) @ [n_next s] \<and>
    n_bufs s' i = Some nb \<and> i \<notin> set (owned s')"
proof -
  have "unat (of_nat (nb_size nb) - of_nat 14 :: u32) = nb_size nb - 14" using size_from [of 14 "nb_size nb"] d by simp
  then have sz: "\<not> (of_nat (nb_size nb) - 14 < (28 :: u32))" using d by (simp add: word_less_nat_alt)
  have "14 \<le> length (put_bytes 14 x (put_bytes 12 (bytes16 t) (map f [0..<42])))" for x t f by (simp add: put_bytes_def)
  then show ?thesis
    using nb d a e mem sz
    by (simp add: arp_handler_def nbuf_at_def arp_hdr_def l3_hdr_def rassert_def nbuf_size_from_def nbuf_capacity_def in_buffer_def Let_def
        arp_handle_request_def ethernet_alloc_nbuf_def nbuf_alloc_def nbuf_alloc_aligned_def nbuf_set_l2_def nbuf_set_l3_def
        nbuf_set_size_def nbuf_set_device_def nbuf_store_def put_arp_def ethernet_send_packet_def ethernet_hdr_def q_push_nowait owned_def)
qed

text \<open>An ARP structure is read back from its bytes.\<close>

lemma arp_read_bytes:
  assumes "length e = 14" "length (ar_sender_mac a) = 6" "length (ar_target_mac a) = 6"
  shows "arp_read 14 (e @ arp_bytes a) = a"
  using assms
  by (cases a) (simp add: arp_read_def arp_bytes_def get16_def get32_def bytes_at_def bytes16_def bytes32_def nth_append)

definition arp_query :: "u8 list" where
  "arp_query = replicate 14 0 @ arp_bytes \<lparr>ar_hardware_type = 1, ar_protocol_type = 0x800, ar_hardware_length = 6,
     ar_protocol_length = 4, ar_operation = 1, ar_sender_mac = [2, 0, 0, 0, 0, 2], ar_sender_ip = 0x01010102,
     ar_target_mac = replicate 6 0, ar_target_ip = 0x01010101\<rparr>"

definition hostC :: net where
  "hostC = net_init\<lparr>n_next := 1, n_bufs := [0 \<mapsto> \<lparr>nb_data = arp_query, nb_size = 42, nb_device = ''eth0'', nb_l2 = Some 0,
       nb_l3_proto = ETH_P_ARP, nb_l3 = Some 14, nb_l4_proto = 0, nb_l4 = None\<rparr>],
     n_arp := [0x01010101 \<mapsto> \<lparr>ae_mac = [2, 0, 0, 0, 0, 1], ae_ip = 0x01010101, ae_device = ''eth0'', ae_timeout_seconds = 300,
                              ae_is_static = True\<rparr>]\<rparr>"

theorem arp_request_leaks_witness:
  "\<exists>s'. arp_handler plenty 0 hostC = Inr s' \<and> n_bufs s' 0 \<noteq> None \<and> 0 \<notin> set (owned s')"
proof -
  have l: "length arp_query = 42" by (simp add: arp_query_def arp_bytes_def)
  have r: "arp_read 14 arp_query = \<lparr>ar_hardware_type = 1, ar_protocol_type = 0x800, ar_hardware_length = 6,
     ar_protocol_length = 4, ar_operation = 1, ar_sender_mac = [2, 0, 0, 0, 0, 2], ar_sender_ip = 0x01010102,
     ar_target_mac = replicate 6 0, ar_target_ip = 0x01010101\<rparr>"
    unfolding arp_query_def by (rule arp_read_bytes) simp_all
  have "\<exists>s'. arp_handler plenty 0 hostC = Inr s' \<and> q_data (n_tx s') = q_data (n_tx hostC) @ [n_next hostC] \<and>
    n_bufs s' 0 = n_bufs hostC 0 \<and> 0 \<notin> set (owned s')"
    using arp_request_leaks [of hostC 0 "the (n_bufs hostC 0)" "the (n_arp hostC 0x01010101)" plenty]
    by (simp add: hostC_def net_init_def owned_def new_queue_def l r arp_is_valid_def ARP_HW_ETHERNET_def ETH_P_IPv4_def ARP_OP_REQUEST_def
        plenty_def q_full_def)
  then show ?thesis by (auto simp: hostC_def)
qed

text \<open>
  C40: a UDP socket that is bound twice leaves a dangling pointer. Closing it removes only the port it was bound to
  last; the table of ports still maps the first port to the deleted descriptor, which the next datagram for that
  port dereferences.
\<close>

theorem udp_rebind_dangles:
  assumes fd: "map_of (n_udp s) k = Some fd" "q_data (us_rxQueue fd) = []"
    and p: "n_ports s p = None" "n_ports s q = None" "p \<noteq> 0" "q \<noteq> 0" "p \<noteq> q" "ne_table env (ucast p)" "ne_table env (ucast q)"
  shows "\<exists>s1 s2 s3. udp_bind env rnd k \<lparr>sa_address = 0, sa_port = p\<rparr> s = Inr (0, s1) \<and>
    udp_bind env rnd k \<lparr>sa_address = 0, sa_port = q\<rparr> s1 = Inr (0, s2) \<and> delete_udp k s2 = Inr s3 \<and>
    getUdpDescriptorByPort p s3 = Some k \<and> udp_at k s3 = Inl (Undefined ''deleted UDP descriptor'')"
proof -
  have none: "map_of (filter (\<lambda>d. fst d \<noteq> k) xs) k = None" for xs :: "(nat \<times> UdpFileDescriptor) list"
    by (auto simp: map_of_eq_None_iff)
  show ?thesis
    using assms by (simp add: udp_bind_def udp_at_def udp_store_def update_conv delete_udp_def udp_close_def
        getUdpDescriptorByPort_def none Let_def)
qed

theorem udp_rebind_dangles_witness:
  "\<exists>s1 s2 s3. udp_bind plenty 0 9 \<lparr>sa_address = 0, sa_port = 5000\<rparr> (new_udp 9 net_init) = Inr (0, s1) \<and>
    udp_bind plenty 0 9 \<lparr>sa_address = 0, sa_port = 6000\<rparr> s1 = Inr (0, s2) \<and> delete_udp 9 s2 = Inr s3 \<and>
    getUdpDescriptorByPort 5000 s3 = Some 9 \<and> udp_at 9 s3 = Inl (Undefined ''deleted UDP descriptor'')"
  by (rule udp_rebind_dangles [where fd = new_UdpFileDescriptor])
    (simp_all add: net_init_def new_udp_def udp_store_def new_UdpFileDescriptor_def new_queue_def plenty_def)

end
