(* ===== verification/Splay.thy ===== *)
theory Splay
  imports Gz_Prelude "HOL-Library.Tree"
begin

text \<open>
  The splay trees of src/kernel/lib/primitives/sys/tree.h. \<open>c\<close> compares the element that is looked for with
  an element of the tree; it reads the element and so can fail. The temporary trees of the loop are lists of nodes, the
  last one linked first.
\<close>

section \<open>The code\<close>

definition SPLAY_ASSEMBLE :: "'a tree \<Rightarrow> 'a \<Rightarrow> 'a tree \<Rightarrow> ('a tree \<times> 'a) list \<Rightarrow> ('a \<times> 'a tree) list \<Rightarrow> 'a tree" where
  "SPLAY_ASSEMBLE l a r L R =
     Node (fold (\<lambda>(x, b) t. Node x b t) L l) a (fold (\<lambda>(b, x) t. Node t b x) R r)"

fun splay_loop :: "('a \<Rightarrow> int result) \<Rightarrow> 'a tree \<Rightarrow> ('a tree \<times> 'a) list \<Rightarrow> ('a \<times> 'a tree) list \<Rightarrow> 'a tree result" where
  "splay_loop c Leaf L R = Inl (Undefined ''empty tree'')"
| "splay_loop c (Node l a r) L R =
     (case c a of
        Inl e \<Rightarrow> Inl e
      | Inr cm \<Rightarrow>
          if cm = 0 then Inr (SPLAY_ASSEMBLE l a r L R)
          else if cm < 0 then
            (case l of
               Leaf \<Rightarrow> Inr (SPLAY_ASSEMBLE l a r L R)
             | Node ll b lr \<Rightarrow>
                 (case c b of
                    Inl e \<Rightarrow> Inl e
                  | Inr cm2 \<Rightarrow>
                      if cm2 < 0 then
                        (if ll = Leaf then Inr (SPLAY_ASSEMBLE ll b (Node lr a r) L R)
                         else splay_loop c ll L ((b, Node lr a r) # R))
                      else splay_loop c l L ((a, r) # R)))
          else
            (case r of
               Leaf \<Rightarrow> Inr (SPLAY_ASSEMBLE l a r L R)
             | Node rl b rr \<Rightarrow>
                 (case c b of
                    Inl e \<Rightarrow> Inl e
                  | Inr cm2 \<Rightarrow>
                      if cm2 > 0 then
                        (if rr = Leaf then Inr (SPLAY_ASSEMBLE (Node l a rl) b rr L R)
                         else splay_loop c rr ((Node l a rl, b) # L) R)
                      else splay_loop c r ((l, a) # L) R)))"

declare splay_loop.simps [simp del]

definition SPLAY :: "('a \<Rightarrow> int result) \<Rightarrow> 'a tree \<Rightarrow> 'a tree result" where
  "SPLAY c t = splay_loop c t [] []"

text \<open>The answer is the element that was there already.\<close>

definition SPLAY_INSERT :: "('a \<Rightarrow> int result) \<Rightarrow> 'a \<Rightarrow> 'a tree \<Rightarrow> ('a option \<times> 'a tree) result" where
  "SPLAY_INSERT c elm t =
     (if t = Leaf then Inr (None, Node Leaf elm Leaf)
      else
        rbind (SPLAY c t) (\<lambda>t1.
          case t1 of
            Leaf \<Rightarrow> Inl (Undefined ''empty tree'')
          | Node l a r \<Rightarrow>
              rbind (c a) (\<lambda>cm.
                if cm < 0 then Inr (None, Node l elm (Node Leaf a r))
                else if cm > 0 then Inr (None, Node (Node l a Leaf) elm r)
                else Inr (Some a, t1))))"

fun leftmost :: "'a tree \<Rightarrow> 'a option" where
  "leftmost Leaf = None"
| "leftmost (Node l a r) = (if l = Leaf then Some a else leftmost l)"

text \<open>\<open>SPLAY_NEXT\<close> of an element of the tree.\<close>

definition SPLAY_NEXT :: "('a \<Rightarrow> int result) \<Rightarrow> 'a tree \<Rightarrow> ('a option \<times> 'a tree) result" where
  "SPLAY_NEXT c t =
     rbind (SPLAY c t) (\<lambda>t1.
       case t1 of Leaf \<Rightarrow> Inl (Undefined ''empty tree'') | Node l a r \<Rightarrow> Inr (leftmost r, t1))"

section \<open>Order\<close>

definition inL :: "('a tree \<times> 'a) list \<Rightarrow> 'a list" where
  "inL L = concat (map (\<lambda>(x, b). inorder x @ [b]) (rev L))"

definition inR :: "('a \<times> 'a tree) list \<Rightarrow> 'a list" where
  "inR R = concat (map (\<lambda>(b, x). b # inorder x) R)"

lemma inorder_left: "inorder (fold (\<lambda>(x, b) t. Node x b t) L l) = inL L @ inorder l"
  by (induction L arbitrary: l) (auto simp: inL_def)

lemma inorder_right: "inorder (fold (\<lambda>(b, x) t. Node t b x) R r) = inorder r @ inR R"
  by (induction R arbitrary: r) (auto simp: inR_def)

lemma inLR_simps [simp]:
  "inL [] = []" "inR [] = []" "inL ((x, b) # L) = inL L @ inorder x @ [b]" "inR ((b, x) # R) = b # inorder x @ inR R"
  by (simp_all add: inL_def inR_def)

text \<open>
  What the loop leaves: the root is the element looked for, or nothing lies between the element and the root.
\<close>

definition near :: "('a \<Rightarrow> int) \<Rightarrow> 'a list \<Rightarrow> 'a \<Rightarrow> 'a list \<Rightarrow> bool" where
  "near d xs a ys \<longleftrightarrow> d a = 0 \<or> (d a < 0 \<and> (\<forall>x \<in> set xs. 0 < d x)) \<or> (0 < d a \<and> (\<forall>y \<in> set ys. d y < 0))"

lemma assemble_near:
  assumes "\<forall>x \<in> set (inL L). 0 < d x" "\<forall>y \<in> set (inR R). d y < 0"
    "d a = 0 \<or> (d a < 0 \<and> l = Leaf) \<or> (0 < d a \<and> r = Leaf)"
  shows "\<exists>l' r'. SPLAY_ASSEMBLE l a r L R = Node l' a r' \<and> inorder l' = inL L @ inorder l \<and> inorder r' = inorder r @ inR R \<and>
    near d (inorder l') a (inorder r')"
  using assms by (auto simp: SPLAY_ASSEMBLE_def inorder_left inorder_right near_def simp del: set_inorder)

lemma splay_loop_near:
  assumes "t \<noteq> Leaf" "\<And>x. x \<in> set (inorder t) \<Longrightarrow> c x = Inr (d x)" "\<forall>x \<in> set (inL L). 0 < d x" "\<forall>y \<in> set (inR R). d y < 0"
    "sorted_wrt (\<lambda>x y. d x \<le> 0 \<longrightarrow> d y < 0) (inorder t)"
  shows "\<exists>l a r. splay_loop c t L R = Inr (Node l a r) \<and> inorder l @ a # inorder r = inL L @ inorder t @ inR R \<and>
    near d (inorder l) a (inorder r)"
  using assms
proof (induction c t L R rule: splay_loop.induct)
  case (2 c l a r L R)
  have ca: "c a = Inr (d a)" using "2.prems"(2) by simp
  have asm: "\<exists>l' a' r'. Inr (SPLAY_ASSEMBLE l2 b r2 L R) = (Inr (Node l' a' r') :: 'a tree result) \<and>
      inorder l' @ a' # inorder r' = inL L @ (inorder l2 @ b # inorder r2) @ inR R \<and> near d (inorder l') a' (inorder r')"
    if "d b = 0 \<or> (d b < 0 \<and> l2 = Leaf) \<or> (0 < d b \<and> r2 = Leaf)" for l2 b r2
    using assemble_near [OF "2.prems"(3,4) that] by fastforce
  consider "d a = 0" | "d a < 0" | "0 < d a" by linarith
  then show ?case
  proof cases
    case 1 then show ?thesis using asm [of a l r] by (simp add: splay_loop.simps ca)
  next
    case neg: 2
    show ?thesis
    proof (cases l)
      case Leaf then show ?thesis using asm [of a l r] neg by (simp add: splay_loop.simps ca)
    next
      case l: (Node ll b lr)
      have cb: "c b = Inr (d b)" using "2.prems"(2) l by simp
      have after: "\<forall>y \<in> set (inorder lr @ a # inorder r). d y < 0" if "d b \<le> 0"
        using "2.prems"(5) that by (auto simp: l sorted_wrt_append)
      have after_a: "\<forall>y \<in> set (inorder r). d y < 0" using "2.prems"(5) neg by (auto simp: sorted_wrt_append)
      show ?thesis
      proof (cases "d b < 0")
        case True
        show ?thesis
        proof (cases "ll = Leaf")
          case t: True
          then show ?thesis using asm [of b ll "Node lr a r"] neg True by (simp add: splay_loop.simps ca cb l)
        next
          case False
          have "\<exists>l' a' r'. splay_loop c ll L ((b, Node lr a r) # R) = Inr (Node l' a' r') \<and>
              inorder l' @ a' # inorder r' = inL L @ inorder ll @ inR ((b, Node lr a r) # R) \<and> near d (inorder l') a' (inorder r')"
            by (rule "2.IH"(1) [OF ca _ _ l cb])
              (use neg True False "2.prems" after in \<open>auto simp: l sorted_wrt_append\<close>)
          then show ?thesis using neg True False by (simp add: splay_loop.simps ca cb l)
        qed
      next
        case False
        have "\<exists>l' a' r'. splay_loop c l L ((a, r) # R) = Inr (Node l' a' r') \<and>
            inorder l' @ a' # inorder r' = inL L @ inorder l @ inR ((a, r) # R) \<and> near d (inorder l') a' (inorder r')"
          by (rule "2.IH"(2) [OF ca _ _ l cb]) (use neg False "2.prems" after_a in \<open>auto simp: l sorted_wrt_append\<close>)
        then show ?thesis using neg False by (simp add: splay_loop.simps ca cb l)
      qed
    qed
  next
    case pos: 3
    show ?thesis
    proof (cases r)
      case Leaf then show ?thesis using asm [of a l r] pos by (simp add: splay_loop.simps ca)
    next
      case r: (Node rl b rr)
      have cb: "c b = Inr (d b)" using "2.prems"(2) r by simp
      have before: "\<forall>x \<in> set (inorder l @ a # inorder rl). 0 < d x" if "0 \<le> d b"
        using "2.prems"(5) that by (fastforce simp: r sorted_wrt_append not_less)
      have before_a: "\<forall>x \<in> set (inorder l). 0 < d x" using "2.prems"(5) pos by (fastforce simp: sorted_wrt_append)
      show ?thesis
      proof (cases "0 < d b")
        case True
        show ?thesis
        proof (cases "rr = Leaf")
          case t: True
          then show ?thesis using asm [of b "Node l a rl" rr] pos True by (simp add: splay_loop.simps ca cb r)
        next
          case False
          have "\<exists>l' a' r'. splay_loop c rr ((Node l a rl, b) # L) R = Inr (Node l' a' r') \<and>
              inorder l' @ a' # inorder r' = inL ((Node l a rl, b) # L) @ inorder rr @ inR R \<and> near d (inorder l') a' (inorder r')"
            by (rule "2.IH"(3) [OF ca _ _ r cb])
              (use pos True False "2.prems" before in \<open>auto simp: r sorted_wrt_append\<close>)
          then show ?thesis using pos True False by (simp add: splay_loop.simps ca cb r)
        qed
      next
        case False
        have "\<exists>l' a' r'. splay_loop c r ((l, a) # L) R = Inr (Node l' a' r') \<and>
            inorder l' @ a' # inorder r' = inL ((l, a) # L) @ inorder r @ inR R \<and> near d (inorder l') a' (inorder r')"
          by (rule "2.IH"(4) [OF ca _ _ r cb]) (use pos False "2.prems" before_a in \<open>auto simp: r sorted_wrt_append\<close>)
        then show ?thesis using pos False by (simp add: splay_loop.simps ca cb r)
      qed
    qed
  qed
qed simp

lemma splay_insert:
  assumes c: "\<And>x. x \<in> set (inorder t) \<Longrightarrow> c x = Inr (d x)" and s: "sorted_wrt (\<lambda>x y. d x \<le> 0 \<longrightarrow> d y < 0) (inorder t)"
  shows "(\<exists>a t'. SPLAY_INSERT c elm t = Inr (Some a, t') \<and> a \<in> set (inorder t) \<and> d a = 0 \<and> inorder t' = inorder t) \<or>
    (\<exists>l r. SPLAY_INSERT c elm t = Inr (None, Node l elm r) \<and> inorder t = inorder l @ inorder r \<and>
       (\<forall>x \<in> set (inorder l). 0 < d x) \<and> (\<forall>y \<in> set (inorder r). d y < 0))"
proof (cases "t = Leaf")
  case False
  obtain l a r where t: "SPLAY c t = Inr (Node l a r)" "inorder t = inorder l @ a # inorder r" "near d (inorder l) a (inorder r)"
    using splay_loop_near [OF False c _ _ s, of "[]" "[]"] unfolding SPLAY_def by auto
  have ca: "c a = Inr (d a)" using c t(2) by simp
  have before: "\<forall>x \<in> set (inorder l). 0 < d x" if "0 < d a"
    using s that unfolding t(2) by (fastforce simp: sorted_wrt_append simp del: set_inorder)
  have after: "\<forall>y \<in> set (inorder r). d y < 0" if "d a < 0"
    using s that unfolding t(2) by (auto simp: sorted_wrt_append simp del: set_inorder)
  consider "d a = 0" | "d a < 0" | "0 < d a" by linarith
  then show ?thesis
  proof cases
    case 1
    have "SPLAY_INSERT c elm t = Inr (Some a, Node l a r)" using False t(1) ca 1 by (simp add: SPLAY_INSERT_def)
    then show ?thesis using 1 t(2) by (intro disjI1 exI [of _ a] exI [of _ "Node l a r"]) simp
  next
    case 2
    have "SPLAY_INSERT c elm t = Inr (None, Node l elm (Node Leaf a r))" using False t(1) ca 2 by (simp add: SPLAY_INSERT_def)
    moreover have "\<forall>x \<in> set (inorder l). 0 < d x" using t(3) 2 by (auto simp: near_def)
    ultimately show ?thesis using 2 t(2) after
      by (intro disjI2 exI [of _ l] exI [of _ "Node Leaf a r"]) auto
  next
    case 3
    have "SPLAY_INSERT c elm t = Inr (None, Node (Node l a Leaf) elm r)" using False t(1) ca 3 by (simp add: SPLAY_INSERT_def)
    moreover have "\<forall>y \<in> set (inorder r). d y < 0" using t(3) 3 by (auto simp: near_def)
    ultimately show ?thesis using 3 t(2) before
      by (intro disjI2 exI [of _ "Node l a Leaf"] exI [of _ r]) auto
  qed
qed (auto simp: SPLAY_INSERT_def)

lemma leftmost_inorder: "leftmost t = (case inorder t of [] \<Rightarrow> None | x # xs \<Rightarrow> Some x)"
proof (induction t rule: leftmost.induct)
  case (2 l a r) then show ?case by (cases "inorder l") auto
qed simp

lemma splay_next:
  assumes "c elm = Inr 0"
  shows "SPLAY_NEXT c (Node l elm r) = Inr (case inorder r of [] \<Rightarrow> None | y # ys \<Rightarrow> Some y, Node l elm r)"
  using assms by (simp add: SPLAY_NEXT_def SPLAY_def splay_loop.simps SPLAY_ASSEMBLE_def leftmost_inorder)

end
