(* ===== verification/Pmap.thy ===== *)
theory Pmap
  imports Phys_Mem_Props
begin

text \<open>
  The page tables of an address space, src/kernel/platform/malta/pmap.c: a page directory of 1024 entries, page table
  fragments of 1024 entries, both in pages of the physical page allocator. An entry is a frame and the bits of the hardware;
  the frame number \<open>PTE_PFN(paddr)\<close> is the frame itself. The page table is read at \<open>PT_BASE\<close>, that is through the active
  address space, and the kernel only works on the active one; the model keeps it with its pmap. Invalidating entries of the
  TLB leaves no trace here: what the hardware does is \<open>translate\<close>, on the tables.
\<close>

type_synonym frame = "nat \<times> nat"

record pte =
  pte_pfn :: "frame option"
  pte_bits :: u32

record pmap =
  pm_pde :: "u32 \<Rightarrow> pte"
  pm_pte :: "u32 \<Rightarrow> pte"
  pm_pde_page :: frame
  pm_pte_pages :: "frame list"
  pm_start :: u32
  pm_end :: u32
  pm_asid :: u8

definition PTE_DIRTY :: u32 where "PTE_DIRTY = 4"
definition PTE_VALID :: u32 where "PTE_VALID = 2"
definition PTE_GLOBAL :: u32 where "PTE_GLOBAL = 1"
definition PTE_PROT_MASK :: u32 where "PTE_PROT_MASK = 0xc0000006"

definition VM_PROT_READ :: u32 where "VM_PROT_READ = 1"
definition VM_PROT_WRITE :: u32 where "VM_PROT_WRITE = 2"
definition VM_PROT_EXEC :: u32 where "VM_PROT_EXEC = 4"

definition PTE_INDEX :: "u32 \<Rightarrow> u32" where "PTE_INDEX x = drop_bit 12 (x AND 0xfffff000)"
definition PDE_INDEX :: "u32 \<Rightarrow> u32" where "PDE_INDEX x = drop_bit 22 (x AND 0xffc00000)"

definition is_valid :: "pte \<Rightarrow> bool" where "is_valid p \<longleftrightarrow> pte_bits p AND PTE_VALID \<noteq> 0"

definition in_user_space :: "u32 \<Rightarrow> bool" where "in_user_space addr \<longleftrightarrow> addr < 0x80000000"
definition in_kernel_space :: "u32 \<Rightarrow> bool" where "in_kernel_space addr \<longleftrightarrow> 0xc0000000 \<le> addr \<and> addr < 0xfffff000"

text \<open>\<open>pm_alloc(1)\<close>, whose result is used unchecked: the null page is behaviour C leaves undefined.\<close>

definition alloc_frame :: "pm_seg list \<Rightarrow> (frame \<times> pm_seg list) result" where
  "alloc_frame segs =
     rbind (pm_alloc 1 segs) (\<lambda>(r, segs1). case r of None \<Rightarrow> Inl (Undefined ''NULL page'') | Some f \<Rightarrow> Inr (f, segs1))"

definition free_frame :: "frame \<Rightarrow> pm_seg list \<Rightarrow> pm_seg list result" where
  "free_frame f segs = map_sum id fst (pm_free f segs)"

fun free_frames :: "frame list \<Rightarrow> pm_seg list \<Rightarrow> pm_seg list result" where
  "free_frames [] segs = Inr segs"
| "free_frames (f # fs) segs = rbind (free_frame f segs) (free_frames fs)"

definition get_new_asid :: "u8 \<Rightarrow> (u8 \<times> u8) result" where
  "get_new_asid asid_counter = (if asid_counter < 0xff then Inr (asid_counter, asid_counter + 1) else Inl (Panic ''Out of asids!''))"

text \<open>A pmap, with the counter of address space ids and the physical memory.\<close>

definition pmap_setup :: "u32 \<Rightarrow> u32 \<Rightarrow> u8 \<times> pm_seg list \<Rightarrow> (pmap \<times> u8 \<times> pm_seg list) result" where
  "pmap_setup start stop = (\<lambda>(asids, segs).
     rbind (alloc_frame segs) (\<lambda>(f, segs1).
     rbind (get_new_asid asids) (\<lambda>(asid, asids1).
       Inr (\<lparr>pm_pde = (\<lambda>i. \<lparr>pte_pfn = None, pte_bits = (if in_kernel_space (i * 1024 * 4096) then PTE_GLOBAL else 0)\<rparr>),
             pm_pte = (\<lambda>_. \<lparr>pte_pfn = None, pte_bits = 0\<rparr>), pm_pde_page = f, pm_pte_pages = [],
             pm_start = start, pm_end = stop, pm_asid = asid\<rparr>, asids1, segs1))))"

definition pmap_new :: "u8 \<times> pm_seg list \<Rightarrow> (pmap \<times> u8 \<times> pm_seg list) result" where
  "pmap_new = pmap_setup 0 0x80000000"

definition pmap_delete :: "pmap \<Rightarrow> pm_seg list \<Rightarrow> pm_seg list result" where
  "pmap_delete pm segs = rbind (free_frames (pm_pte_pages pm) segs) (free_frame (pm_pde_page pm))"

definition PTE_OF :: "pmap \<Rightarrow> u32 \<Rightarrow> pte" where "PTE_OF pm addr = pm_pte pm (PTE_INDEX addr)"
definition PDE_OF :: "pmap \<Rightarrow> u32 \<Rightarrow> pte" where "PDE_OF pm addr = pm_pde pm (PDE_INDEX addr)"

definition pmap_is_mapped :: "pmap \<Rightarrow> u32 \<Rightarrow> bool result" where
  "pmap_is_mapped pm vaddr =
     rassert (vaddr AND 0xfff = 0) (Assertion ''is_aligned(vaddr, PAGESIZE)'')
       (Inr (is_valid (PDE_OF pm vaddr) \<and> is_valid (PTE_OF pm vaddr)))"

text \<open>
  The addresses \<open>start\<close>, \<open>start + d\<close>, \<dots> below \<open>stop\<close> that a loop visits. The ranges lie in user space, so the address
  does not wrap around.
\<close>

definition addr_steps :: "nat \<Rightarrow> u32 \<Rightarrow> u32 \<Rightarrow> u32 list" where
  "addr_steps d start stop = map (\<lambda>i. start + of_nat (i * d)) [0 ..< (unat stop - unat start + d - 1) div d]"

text \<open>Both loops step by what a fragment covers, so one page table entry in 1024 is looked at.\<close>

definition pmap_is_range_mapped :: "pmap \<Rightarrow> u32 \<Rightarrow> u32 \<Rightarrow> bool result" where
  "pmap_is_range_mapped pm start stop =
     rassert (start AND 0xfff = 0 \<and> stop AND 0xfff = 0) (Assertion ''is_aligned(start, PAGESIZE) && is_aligned(end, PAGESIZE)'')
     (rassert (start < stop) (Assertion ''start < end'')
       (Inr ((\<forall>addr \<in> set (addr_steps (1024 * 4096) start stop). is_valid (PDE_OF pm addr)) \<and>
             (\<forall>addr \<in> set (addr_steps (1024 * 4096) start stop). is_valid (PTE_OF pm addr)))))"

definition pmap_add_pde :: "u32 \<Rightarrow> pmap \<times> pm_seg list \<Rightarrow> (pmap \<times> pm_seg list) result" where
  "pmap_add_pde vaddr = (\<lambda>(pm, segs).
     rassert (\<not> is_valid (PDE_OF pm vaddr)) (Assertion ''!is_valid(PDE_OF(pmap, vaddr))'')
       (rbind (alloc_frame segs) (\<lambda>(f, segs1).
          Inr (pm\<lparr>pm_pte_pages := pm_pte_pages pm @ [f],
                 pm_pde := (pm_pde pm)(PDE_INDEX vaddr := \<lparr>pte_pfn = Some f, pte_bits = PTE_VALID OR PTE_DIRTY OR PTE_GLOBAL\<rparr>),
                 pm_pte := (\<lambda>i. if drop_bit 10 i = PDE_INDEX vaddr then \<lparr>pte_pfn = None, pte_bits = PTE_GLOBAL\<rparr> else pm_pte pm i)\<rparr>, segs1))))"

definition vm_prot_map :: "u32 \<Rightarrow> u32" where
  "vm_prot_map prot =
     (if prot = 0 then 0
      else if prot AND VM_PROT_WRITE \<noteq> 0 then PTE_VALID OR PTE_DIRTY
      else PTE_VALID)"

definition pmap_set_pte :: "u32 \<Rightarrow> frame \<Rightarrow> u32 \<Rightarrow> pmap \<times> pm_seg list \<Rightarrow> (pmap \<times> pm_seg list) result" where
  "pmap_set_pte vaddr f prot = (\<lambda>(pm, segs).
     rbind (if is_valid (PDE_OF pm vaddr) then Inr (pm, segs) else pmap_add_pde vaddr (pm, segs)) (\<lambda>(pm1, segs1).
     rassert (prot < 8) (Undefined ''vm_prot_map index'')
       (Inr (pm1\<lparr>pm_pte := (pm_pte pm1)(PTE_INDEX vaddr :=
               \<lparr>pte_pfn = Some f, pte_bits = vm_prot_map prot OR (if in_kernel_space vaddr then PTE_GLOBAL else 0)\<rparr>)\<rparr>, segs1))))"

definition pmap_clear_pte :: "u32 \<Rightarrow> pmap \<Rightarrow> pmap" where
  "pmap_clear_pte vaddr pm = pm\<lparr>pm_pte := (pm_pte pm)(PTE_INDEX vaddr := \<lparr>pte_pfn = None, pte_bits = 0\<rparr>)\<rparr>"

definition pmap_change_pte :: "u32 \<Rightarrow> u32 \<Rightarrow> pmap \<Rightarrow> pmap" where
  "pmap_change_pte prot vaddr pm =
     pm\<lparr>pm_pte := (pm_pte pm)(PTE_INDEX vaddr :=
       (PTE_OF pm vaddr)\<lparr>pte_bits := (pte_bits (PTE_OF pm vaddr) AND NOT PTE_PROT_MASK) OR vm_prot_map prot\<rparr>)\<rparr>"

text \<open>The pages of a range, with consecutive frames.\<close>

fun set_ptes :: "u32 list \<Rightarrow> frame \<Rightarrow> u32 \<Rightarrow> pmap \<times> pm_seg list \<Rightarrow> (pmap \<times> pm_seg list) result" where
  "set_ptes [] f prot st = Inr st"
| "set_ptes (a # as) f prot st = rbind (pmap_set_pte a f prot st) (set_ptes as (fst f, Suc (snd f)) prot)"

definition pmap_range_ok :: "pmap \<Rightarrow> u32 \<Rightarrow> u32 \<Rightarrow> bool" where
  "pmap_range_ok pm start stop \<longleftrightarrow> start < stop \<and> pm_start pm \<le> start \<and> stop \<le> pm_end pm"

definition pmap_map :: "u32 \<Rightarrow> u32 \<Rightarrow> frame \<Rightarrow> u32 \<Rightarrow> pmap \<times> pm_seg list \<Rightarrow> (pmap \<times> pm_seg list) result" where
  "pmap_map start stop f prot = (\<lambda>(pm, segs).
     rassert (start AND 0xfff = 0 \<and> stop AND 0xfff = 0) (Assertion ''is_aligned(start, PAGESIZE) && is_aligned(end, PAGESIZE)'')
     (rassert (pmap_range_ok pm start stop) (Assertion ''start < end && start >= pmap->start && end <= pmap->end'')
       (rbind (pmap_is_range_mapped pm start stop) (\<lambda>mapped.
          if mapped then Inl (Panic ''pmap: trying to re-map an already mapped area!'')
          else set_ptes (addr_steps 4096 start stop) f prot (pm, segs)))))"

definition pmap_unmap :: "u32 \<Rightarrow> u32 \<Rightarrow> pmap \<Rightarrow> pmap result" where
  "pmap_unmap start stop pm =
     rassert (start AND 0xfff = 0 \<and> stop AND 0xfff = 0) (Assertion ''is_aligned(start, PAGESIZE) && is_aligned(end, PAGESIZE)'')
     (rassert (pmap_range_ok pm start stop) (Assertion ''start < end && start >= pmap->start && end <= pmap->end'')
       (rbind (pmap_is_range_mapped pm start stop) (\<lambda>mapped.
        rassert mapped (Assertion ''pmap_is_range_mapped(pmap, start, end)'')
          (Inr (fold pmap_clear_pte (addr_steps 4096 start stop) pm)))))"

definition pmap_protect :: "u32 \<Rightarrow> u32 \<Rightarrow> u32 \<Rightarrow> pmap \<Rightarrow> pmap result" where
  "pmap_protect start stop prot pm =
     rassert (start AND 0xfff = 0 \<and> stop AND 0xfff = 0) (Assertion ''is_aligned(start, PAGESIZE) && is_aligned(end, PAGESIZE)'')
     (rassert (pmap_range_ok pm start stop) (Assertion ''start < end && start >= pmap->start && end <= pmap->end'')
       (rbind (pmap_is_range_mapped pm start stop) (\<lambda>mapped.
        rassert mapped (Assertion ''pmap_is_range_mapped(pmap, start, end)'')
          (Inr (fold (pmap_change_pte prot) (addr_steps 4096 start stop) pm)))))"

text \<open>What the hardware finds: the frame of a page, if the access is allowed.\<close>

definition translate :: "pmap \<Rightarrow> bool \<Rightarrow> u32 \<Rightarrow> frame option" where
  "translate pm wr vaddr =
     (if is_valid (PDE_OF pm vaddr) \<and> is_valid (PTE_OF pm vaddr) \<and> (wr \<longrightarrow> pte_bits (PTE_OF pm vaddr) AND PTE_DIRTY \<noteq> 0)
      then pte_pfn (PTE_OF pm vaddr) else None)"

section \<open>Mapping one page\<close>

lemma one_step:
  assumes "a < b" "unat b - unat a \<le> d"
  shows "addr_steps d a b = [a]"
proof -
  define k where "k = unat b - unat a"
  have k: "0 < k" "k \<le> d" using assms by (auto simp: k_def word_less_nat_alt)
  then have "(k + d - 1) div d = 1" by (intro div_nat_eqI) auto
  then show ?thesis by (simp add: addr_steps_def k_def)
qed

end
