(* ===== verification/Vm.thy ===== *)
theory Vm
  imports Splay Pmap
begin

text \<open>
  Virtual memory: maps of address spaces (src/kernel/lib/mm/vm_map.c), memory objects and their pages (vm_object.c,
  vm_pager.c) and the regions of a process (proc/ProcessMemoryMap.cpp). Maps, entries and objects are shared by pointers, so
  they live in stores and are named by numbers; a freed one is not in its store. Frames come from the physical page
  allocator; \<open>vw_mem\<close> is what they hold. The regions of a process are in a hash map from names, here the list of its pairs.
  The pools that maps, entries, objects and regions are allocated from are taken to have room.
\<close>

section \<open>State\<close>

record vm_map_entry =
  ve_object :: "nat option"
  ve_prot :: u32
  ve_start :: u32
  ve_end :: u32

text \<open>The pages of an object by their offset, in the order of the list and of the red-black tree.\<close>

record vm_object =
  vo_pages :: "(u32 \<times> frame) list"
  vo_npages :: nat

record vm_map =
  vm_list :: "nat list"
  vm_tree :: "nat tree"
  vm_nentries :: nat
  vm_pmap :: pmap

record vm_world =
  vw_maps :: "nat \<rightharpoonup> vm_map"
  vw_entries :: "nat \<rightharpoonup> vm_map_entry"
  vw_objects :: "nat \<rightharpoonup> vm_object"
  vw_regions :: "nat \<Rightarrow> (string \<times> nat) list"
  vw_uspace :: "nat option"
  vw_next :: nat
  vw_asids :: u8
  vw_phys :: "pm_seg list"
  vw_mem :: "frame \<Rightarrow> u8 list"

definition map_at :: "nat \<Rightarrow> vm_world \<Rightarrow> vm_map result" where
  "map_at m w = (case vw_maps w m of None \<Rightarrow> Inl (Undefined ''freed map'') | Some x \<Rightarrow> Inr x)"

definition entry_at :: "nat \<Rightarrow> vm_world \<Rightarrow> vm_map_entry result" where
  "entry_at e w = (case vw_entries w e of None \<Rightarrow> Inl (Undefined ''freed map entry'') | Some x \<Rightarrow> Inr x)"

definition object_at :: "nat \<Rightarrow> vm_world \<Rightarrow> vm_object result" where
  "object_at p w = (case vw_objects w p of None \<Rightarrow> Inl (Undefined ''freed object'') | Some x \<Rightarrow> Inr x)"

definition put_map :: "nat \<Rightarrow> vm_map \<Rightarrow> vm_world \<Rightarrow> vm_world" where
  "put_map m x w = w\<lparr>vw_maps := (vw_maps w)(m \<mapsto> x)\<rparr>"

definition put_entry :: "nat \<Rightarrow> vm_map_entry \<Rightarrow> vm_world \<Rightarrow> vm_world" where
  "put_entry e x w = w\<lparr>vw_entries := (vw_entries w)(e \<mapsto> x)\<rparr>"

definition put_object :: "nat \<Rightarrow> vm_object \<Rightarrow> vm_world \<Rightarrow> vm_world" where
  "put_object p x w = w\<lparr>vw_objects := (vw_objects w)(p \<mapsto> x)\<rparr>"

section \<open>Objects\<close>

definition vm_object_alloc :: "vm_world \<Rightarrow> nat \<times> vm_world" where
  "vm_object_alloc w = (vw_next w, put_object (vw_next w) \<lparr>vo_pages = [], vo_npages = 0\<rparr> (w\<lparr>vw_next := Suc (vw_next w)\<rparr>))"

text \<open>\<open>pm_free\<close> clears the page.\<close>

definition free_pages_of :: "frame list \<Rightarrow> vm_world \<Rightarrow> vm_world result" where
  "free_pages_of fs w =
     rbind (free_frames fs (vw_phys w)) (\<lambda>segs.
       Inr (w\<lparr>vw_phys := segs, vw_mem := (\<lambda>f. if f \<in> set fs then replicate PAGESIZE 0 else vw_mem w f)\<rparr>))"

definition vm_object_free :: "nat \<Rightarrow> vm_world \<Rightarrow> vm_world result" where
  "vm_object_free p w =
     rbind (object_at p w) (\<lambda>obj.
     rbind (free_pages_of (map snd (vo_pages obj)) w) (\<lambda>w1.
       Inr (w1\<lparr>vw_objects := (vw_objects w1)(p := None)\<rparr>)))"

definition vm_object_find_page :: "vm_object \<Rightarrow> u32 \<Rightarrow> frame option" where
  "vm_object_find_page obj offset = map_of (vo_pages obj) offset"

text \<open>A page goes before the first one with a larger offset; an offset that is there is refused.\<close>

definition vm_object_add_page :: "u32 \<Rightarrow> frame \<Rightarrow> nat \<Rightarrow> vm_object \<Rightarrow> (bool \<times> vm_object) result" where
  "vm_object_add_page offset f sz obj =
     rassert (offset AND 0xfff = 0) (Assertion ''is_aligned(page->vm_offset, PAGESIZE)'')
     (rassert (sz = 1) (Assertion ''page->size == 1'')
       (if offset \<in> fst ` set (vo_pages obj) then Inr (False, obj)
        else Inr (True, obj\<lparr>vo_npages := Suc (vo_npages obj),
               vo_pages := takeWhile (\<lambda>p. fst p < offset) (vo_pages obj) @ (offset, f) # dropWhile (\<lambda>p. fst p < offset) (vo_pages obj)\<rparr>)))"

definition vm_object_remove_page :: "nat \<Rightarrow> u32 \<Rightarrow> frame \<Rightarrow> vm_world \<Rightarrow> vm_world result" where
  "vm_object_remove_page p offset f w =
     rbind (object_at p w) (\<lambda>obj.
     rbind (free_pages_of [f] w) (\<lambda>w1.
       Inr (put_object p (obj\<lparr>vo_pages := remove1 (offset, f) (vo_pages obj), vo_npages := vo_npages obj - 1\<rparr>) w1)))"

text \<open>The default pager writes to the page without looking whether there was one.\<close>

definition default_pager_fault :: "nat \<Rightarrow> u32 \<Rightarrow> vm_world \<Rightarrow> (frame \<times> vm_world) result" where
  "default_pager_fault p offset w =
     rbind (alloc_frame (vw_phys w)) (\<lambda>(f, segs).
     rbind (object_at p w) (\<lambda>obj.
     rbind (vm_object_add_page offset f (pg_size (pages (segs ! fst f) ! snd f)) obj) (\<lambda>(_, obj1).
       Inr (f, put_object p obj1 (w\<lparr>vw_phys := segs\<rparr>)))))"

section \<open>Maps\<close>

definition vm_map_entry_cmp :: "u32 \<Rightarrow> u32 \<Rightarrow> int" where
  "vm_map_entry_cmp a b = (if a < b then -1 else sint (a - b))"

definition entry_cmp :: "vm_world \<Rightarrow> u32 \<Rightarrow> nat \<Rightarrow> int result" where
  "entry_cmp w start x = rbind (entry_at x w) (\<lambda>b. Inr (vm_map_entry_cmp start (ve_start b)))"

definition vm_map_new :: "vm_world \<Rightarrow> (nat \<times> vm_world) result" where
  "vm_map_new w =
     rbind (pmap_new (vw_asids w, vw_phys w)) (\<lambda>(pm, asids, segs).
       Inr (vw_next w, put_map (vw_next w) \<lparr>vm_list = [], vm_tree = Leaf, vm_nentries = 0, vm_pmap = pm\<rparr>
              (w\<lparr>vw_next := Suc (vw_next w), vw_asids := asids, vw_phys := segs\<rparr>)))"

fun insert_before :: "nat \<Rightarrow> nat \<Rightarrow> nat list \<Rightarrow> nat list result" where
  "insert_before y e [] = Inl (Undefined ''not in the list'')"
| "insert_before y e (x # xs) = (if x = y then Inr (e # x # xs) else rbind (insert_before y e xs) (\<lambda>ys. Inr (x # ys)))"

definition vm_map_insert_entry :: "nat \<Rightarrow> nat \<Rightarrow> vm_world \<Rightarrow> (bool \<times> vm_world) result" where
  "vm_map_insert_entry m e w =
     rbind (map_at m w) (\<lambda>mp.
     rbind (entry_at e w) (\<lambda>en.
     rbind (SPLAY_INSERT (entry_cmp w (ve_start en)) e (vm_tree mp)) (\<lambda>(old, t1).
       if old \<noteq> None then Inr (False, put_map m (mp\<lparr>vm_tree := t1\<rparr>) w)
       else
         rbind (SPLAY_NEXT (entry_cmp w (ve_start en)) t1) (\<lambda>(nx, t2).
         rbind (case nx of None \<Rightarrow> Inr (vm_list mp @ [e]) | Some y \<Rightarrow> insert_before y e (vm_list mp)) (\<lambda>l1.
           Inr (True, put_map m (mp\<lparr>vm_tree := t2, vm_list := l1, vm_nentries := Suc (vm_nentries mp)\<rparr>) w))))))"

fun find_entry_from :: "vm_world \<Rightarrow> u32 \<Rightarrow> nat list \<Rightarrow> nat option result" where
  "find_entry_from w vaddr [] = Inr None"
| "find_entry_from w vaddr (e # es) =
     rbind (entry_at e w) (\<lambda>en.
       if ve_start en \<le> vaddr \<and> vaddr < ve_end en then Inr (Some e) else find_entry_from w vaddr es)"

definition vm_map_find_entry :: "nat \<Rightarrow> u32 \<Rightarrow> vm_world \<Rightarrow> nat option result" where
  "vm_map_find_entry m vaddr w = rbind (map_at m w) (\<lambda>mp. find_entry_from w vaddr (vm_list mp))"

text \<open>The entry is taken out of the list, but not out of the tree.\<close>

definition vm_map_remove_entry :: "nat \<Rightarrow> nat \<Rightarrow> vm_world \<Rightarrow> vm_world result" where
  "vm_map_remove_entry m e w =
     rbind (map_at m w) (\<lambda>mp.
     rbind (entry_at e w) (\<lambda>en.
       case ve_object en of
         None \<Rightarrow> Inl (Undefined ''NULL object'')
       | Some p \<Rightarrow>
           rbind (vm_object_free p w) (\<lambda>w1.
           rassert (e \<in> set (vm_list mp)) (Undefined ''not in the list'')
             (Inr ((put_map m (mp\<lparr>vm_nentries := vm_nentries mp - 1, vm_list := remove1 e (vm_list mp)\<rparr>) w1)
                    \<lparr>vw_entries := (vw_entries w1)(e := None)\<rparr>)))))"

fun remove_entries :: "nat \<Rightarrow> nat \<Rightarrow> vm_world \<Rightarrow> vm_world result" where
  "remove_entries m 0 w = Inr w"
| "remove_entries m (Suc n) w =
     rbind (map_at m w) (\<lambda>mp.
       case vm_list mp of
         [] \<Rightarrow> Inl (Undefined ''NULL entry'')
       | e # es \<Rightarrow> rbind (vm_map_remove_entry m e w) (remove_entries m n))"

text \<open>\<open>pmap_delete\<close> gives back the pages of the tables.\<close>

definition vm_map_delete :: "nat \<Rightarrow> vm_world \<Rightarrow> vm_world result" where
  "vm_map_delete m w =
     rbind (map_at m w) (\<lambda>mp.
     rbind (remove_entries m (vm_nentries mp) w) (\<lambda>w1.
     rbind (pmap_delete (vm_pmap mp) (vw_phys w1)) (\<lambda>segs.
       Inr (w1\<lparr>vw_maps := (vw_maps w1)(m := None), vw_phys := segs,
         vw_mem := (\<lambda>f. if f \<in> set (pm_pde_page (vm_pmap mp) # pm_pte_pages (vm_pmap mp)) then replicate PAGESIZE 0 else vw_mem w1 f)\<rparr>))))"

text \<open>The result of the insertion is not looked at: an entry whose start is taken is returned without being in the map.\<close>

definition vm_map_add_entry :: "nat \<Rightarrow> u32 \<Rightarrow> u32 \<Rightarrow> u32 \<Rightarrow> vm_world \<Rightarrow> (nat \<times> vm_world) result" where
  "vm_map_add_entry m start stop prot w =
     rbind (map_at m w) (\<lambda>mp.
     rassert (start \<ge> pm_start (vm_pmap mp)) (Assertion ''start >= map->pmap->start'')
     (rassert (stop \<le> pm_end (vm_pmap mp)) (Assertion ''end <= map->pmap->end'')
     (rassert (start AND 0xfff = 0) (Assertion ''is_aligned(start, PAGESIZE)'')
     (rassert (stop AND 0xfff = 0) (Assertion ''is_aligned(end, PAGESIZE)'')
       (let e = vw_next w;
            w1 = put_entry e \<lparr>ve_object = None, ve_prot = prot, ve_start = start, ve_end = stop\<rparr> (w\<lparr>vw_next := Suc e\<rparr>)
        in rbind (vm_map_insert_entry m e w1) (\<lambda>(_, w2). Inr (e, w2)))))))"

text \<open>The search for a gap, over the bounds of the entries in order.\<close>

fun browse_gaps :: "u32 \<Rightarrow> u32 \<Rightarrow> u32 \<Rightarrow> (u32 \<times> u32) list \<Rightarrow> u32 option" where
  "browse_gaps pmap_end len start [] = None"
| "browse_gaps pmap_end len start ((s, e) # rest) =
     (let gap_end = (case rest of [] \<Rightarrow> pmap_end | (s2, e2) # es2 \<Rightarrow> s2);
          start1 = (if start < e then e else start)
      in if start1 + len \<le> gap_end then Some start1 else browse_gaps pmap_end len start1 rest)"

definition findspace :: "u32 \<Rightarrow> u32 \<Rightarrow> (u32 \<times> u32) list \<Rightarrow> u32 \<Rightarrow> u32 \<Rightarrow> u32 option" where
  "findspace pmap_start pmap_end es start0 len =
     (let start = (if start0 < pmap_start then pmap_start else start0) in
      if start + len > pmap_end then None
      else
        case es of
          [] \<Rightarrow> Some start
        | (s, e) # rest \<Rightarrow> if start + len \<le> s then Some start else browse_gaps pmap_end len start es)"

fun entry_bounds :: "vm_world \<Rightarrow> nat list \<Rightarrow> (u32 \<times> u32) list result" where
  "entry_bounds w [] = Inr []"
| "entry_bounds w (e # es) =
     rbind (entry_at e w) (\<lambda>en. rbind (entry_bounds w es) (\<lambda>bs. Inr ((ve_start en, ve_end en) # bs)))"

definition vm_map_findspace :: "nat \<Rightarrow> u32 \<Rightarrow> u32 \<Rightarrow> vm_world \<Rightarrow> u32 option result" where
  "vm_map_findspace m start len w =
     rassert (start AND 0xfff = 0) (Assertion ''is_aligned(start, PAGESIZE)'')
     (rassert (len AND 0xfff = 0) (Assertion ''is_aligned(length, PAGESIZE)'')
       (rbind (map_at m w) (\<lambda>mp.
        rbind (entry_bounds w (vm_list mp)) (\<lambda>bs.
          Inr (findspace (pm_start (vm_pmap mp)) (pm_end (vm_pmap mp)) bs start len)))))"

text \<open>The entry that follows in the list.\<close>

fun next_entry :: "nat \<Rightarrow> nat list \<Rightarrow> nat option" where
  "next_entry e [] = None"
| "next_entry e (x # xs) = (if x = e then (case xs of [] \<Rightarrow> None | y # ys \<Rightarrow> Some y) else next_entry e xs)"

definition gap_end_after :: "nat \<Rightarrow> vm_map \<Rightarrow> vm_world \<Rightarrow> u32 result" where
  "gap_end_after e mp w =
     (case next_entry e (vm_list mp) of
        None \<Rightarrow> Inr (pm_end (vm_pmap mp))
      | Some x \<Rightarrow> rbind (entry_at x w) (\<lambda>xe. Inr (ve_start xe)))"

definition vm_map_resize :: "nat \<Rightarrow> nat \<Rightarrow> u32 \<Rightarrow> vm_world \<Rightarrow> (bool \<times> vm_world) result" where
  "vm_map_resize m e new_end w =
     rassert (new_end AND 0xfff = 0) (Assertion ''is_aligned(new_end, PAGESIZE)'')
       (rbind (map_at m w) (\<lambda>mp.
        rbind (entry_at e w) (\<lambda>en.
        rassert (new_end \<ge> ve_end en) (Assertion ''new_end >= entry->end'')
          (if new_end > ve_end en then
             rbind (gap_end_after e mp w) (\<lambda>gap_end.
               if new_end > gap_end then Inr (False, w)
               else Inr (True, put_entry e (en\<lparr>ve_end := new_end\<rparr>) w))
           else if new_end < ve_start en then Inr (False, w)
           else Inr (True, put_entry e (en\<lparr>ve_end := new_end\<rparr>) w)))))"

definition map_page :: "nat \<Rightarrow> u32 \<Rightarrow> frame \<Rightarrow> u32 \<Rightarrow> vm_world \<Rightarrow> vm_world result" where
  "map_page m page f prot w =
     rbind (map_at m w) (\<lambda>mp.
     rbind (pmap_map page (page + 4096) f prot (vm_pmap mp, vw_phys w)) (\<lambda>(pm, segs).
       Inr (put_map m (mp\<lparr>vm_pmap := pm\<rparr>) (w\<lparr>vw_phys := segs\<rparr>))))"

definition vm_page_fault :: "nat \<Rightarrow> u32 \<Rightarrow> u32 \<Rightarrow> vm_world \<Rightarrow> (bool \<times> vm_world) result" where
  "vm_page_fault m fault_addr fault_type w =
     rbind (vm_map_find_entry m fault_addr w) (\<lambda>r.
       case r of
         None \<Rightarrow> Inr (False, w)
       | Some e \<Rightarrow>
           rbind (entry_at e w) (\<lambda>en.
             if ve_prot en = 0 then Inr (False, w)
             else if ve_prot en AND VM_PROT_WRITE = 0 \<and> fault_type = VM_PROT_WRITE then Inr (False, w)
             else if ve_prot en AND VM_PROT_READ = 0 \<and> fault_type = VM_PROT_READ then Inr (False, w)
             else
               case ve_object en of
                 None \<Rightarrow> Inl (Assertion ''obj != NULL'')
               | Some p \<Rightarrow>
                   rbind (object_at p w) (\<lambda>obj.
                     let fault_page = fault_addr AND NOT 0xfff; offset = fault_page - ve_start en in
                     rbind (case vm_object_find_page obj offset of
                              Some f \<Rightarrow> Inr (f, w) | None \<Rightarrow> default_pager_fault p offset w) (\<lambda>(f, w1).
                     rbind (map_page m fault_page f (ve_prot en) w1) (\<lambda>w2. Inr (True, w2))))))"

text \<open>
  The part of \<open>tlb_exception_handler\<close> for an address outside of the page table itself: the active map is asked. The map of the
  kernel has no entries. False is the segmentation fault.
\<close>

definition tlb_exception_handler :: "bool \<Rightarrow> u32 \<Rightarrow> vm_world \<Rightarrow> (bool \<times> vm_world) result" where
  "tlb_exception_handler wr vaddr w =
     (let kernel = (if 0xc0400000 \<le> vaddr \<and> vaddr < 0xfffff000 then Inr (False, w)
                    else Inl (Panic ''No virtual address space defined''))
      in case vw_uspace w of
           None \<Rightarrow> kernel
         | Some m \<Rightarrow>
             rbind (map_at m w) (\<lambda>mp.
               if pm_start (vm_pmap mp) \<le> vaddr \<and> vaddr < pm_end (vm_pmap mp)
               then vm_page_fault m vaddr (if wr then VM_PROT_WRITE else VM_PROT_READ) w
               else kernel))"

text \<open>An access by the processor, with the active map: the frame it reaches, or none when the thread is killed.\<close>

definition access :: "nat \<Rightarrow> bool \<Rightarrow> u32 \<Rightarrow> vm_world \<Rightarrow> (frame option \<times> vm_world) result" where
  "access m wr vaddr w =
     rbind (map_at m w) (\<lambda>mp.
       case translate (vm_pmap mp) wr vaddr of
         Some f \<Rightarrow> Inr (Some f, w)
       | None \<Rightarrow>
           rbind (tlb_exception_handler wr vaddr w) (\<lambda>(ok, w1).
             if ok then rbind (map_at m w1) (\<lambda>mp1. Inr (translate (vm_pmap mp1) wr vaddr, w1))
             else Inr (None, w1)))"

section \<open>Cloning\<close>

text \<open>\<open>memcpy\<close> of a page to an address of the new map, which is the active one.\<close>

definition copy_page :: "nat \<Rightarrow> u32 \<Rightarrow> frame \<Rightarrow> vm_world \<Rightarrow> vm_world result" where
  "copy_page n dst src w =
     rbind (access n True dst w) (\<lambda>(r, w1).
       case r of
         None \<Rightarrow> Inl (Panic ''Killing pid'')
       | Some g \<Rightarrow> Inr (w1\<lparr>vw_mem := (vw_mem w1)(g := vw_mem w1 src)\<rparr>))"

fun clone_pages :: "nat \<Rightarrow> u32 \<Rightarrow> (u32 \<times> frame) list \<Rightarrow> vm_world \<Rightarrow> vm_world result" where
  "clone_pages n start [] w = Inr w"
| "clone_pages n start ((off, f) # ps) w = rbind (copy_page n (start + off) f w) (clone_pages n start ps)"

definition clone_entry :: "nat \<Rightarrow> nat \<Rightarrow> vm_world \<Rightarrow> vm_world result" where
  "clone_entry n it w =
     rbind (entry_at it w) (\<lambda>ie.
     rbind (vm_map_add_entry n (ve_start ie) (ve_end ie) (ve_prot ie) w) (\<lambda>(e, w1).
       case vm_object_alloc w1 of (p, w2) \<Rightarrow>
         rbind (entry_at e w2) (\<lambda>en.
           let w3 = put_entry e (en\<lparr>ve_object := Some p\<rparr>) w2 in
           case ve_object ie of
             None \<Rightarrow> Inl (Undefined ''NULL object'')
           | Some q \<Rightarrow> rbind (object_at q w3) (\<lambda>obj. clone_pages n (ve_start ie) (vo_pages obj) w3))))"

fun clone_entries :: "nat \<Rightarrow> nat list \<Rightarrow> vm_world \<Rightarrow> vm_world result" where
  "clone_entries n [] w = Inr w"
| "clone_entries n (it # its) w = rbind (clone_entry n it w) (clone_entries n its)"

definition vm_map_clone :: "nat \<Rightarrow> vm_world \<Rightarrow> (nat \<times> vm_world) result" where
  "vm_map_clone m w =
     rbind (vm_map_new w) (\<lambda>(n, w1).
     rbind (map_at m w1) (\<lambda>mp.
     rbind (clone_entries n (vm_list mp) (w1\<lparr>vw_uspace := Some n\<rparr>)) (\<lambda>w2.
       Inr (n, w2\<lparr>vw_uspace := vw_uspace w\<rparr>))))"

section \<open>Regions of a process\<close>

definition createMemoryRegion :: "nat \<Rightarrow> string \<Rightarrow> u32 \<Rightarrow> u32 \<Rightarrow> u32 \<Rightarrow> vm_world \<Rightarrow> (nat option \<times> vm_world) result" where
  "createMemoryRegion m name start stop prot w =
     (if map_of (vw_regions w m) name \<noteq> None then Inr (None, w)
      else
        rbind (vm_map_add_entry m start stop prot w) (\<lambda>(e, w1).
          case vm_object_alloc w1 of (p, w2) \<Rightarrow>
            rbind (entry_at e w2) (\<lambda>en.
              Inr (Some e, (put_entry e (en\<lparr>ve_object := Some p\<rparr>) w2)
                             \<lparr>vw_regions := (vw_regions w2)(m := vw_regions w2 m @ [(name, e)])\<rparr>))))"

definition createMemoryRegionInRange :: "nat \<Rightarrow> string \<Rightarrow> u32 \<Rightarrow> u32 \<Rightarrow> u32 \<Rightarrow> vm_world \<Rightarrow> (nat option \<times> vm_world) result" where
  "createMemoryRegionInRange m name start len prot w =
     rbind (vm_map_findspace m start len w) (\<lambda>r.
       case r of None \<Rightarrow> Inr (None, w) | Some addr \<Rightarrow> createMemoryRegion m name addr (addr + len) prot w)"

text \<open>Removing a region from the hash map runs its destructor.\<close>

definition destroyMemoryRegion :: "nat \<Rightarrow> string \<Rightarrow> vm_world \<Rightarrow> vm_world result" where
  "destroyMemoryRegion m name w =
     (case map_of (vw_regions w m) name of
        None \<Rightarrow> Inr w
      | Some e \<Rightarrow>
          vm_map_remove_entry m e (w\<lparr>vw_regions := (vw_regions w)(m := filter (\<lambda>r. fst r \<noteq> name) (vw_regions w m))\<rparr>))"

definition region_extend :: "nat \<Rightarrow> string \<Rightarrow> u32 \<Rightarrow> vm_world \<Rightarrow> (bool \<times> vm_world) result" where
  "region_extend m name endAddr w =
     (case map_of (vw_regions w m) name of
        None \<Rightarrow> Inr (False, w)
      | Some e \<Rightarrow>
          rbind (entry_at e w) (\<lambda>en.
            if endAddr \<ge> ve_start en \<and> endAddr \<le> ve_end en then Inr (True, w)
            else vm_map_resize m e endAddr w))"

text \<open>The copy constructor and the destructor of \<open>ProcessMemoryMap\<close>.\<close>

fun clone_regions :: "nat \<Rightarrow> (string \<times> nat) list \<Rightarrow> vm_world \<Rightarrow> vm_world result" where
  "clone_regions n [] w = Inr w"
| "clone_regions n ((name, e) # rs) w =
     rbind (entry_at e w) (\<lambda>en.
     rbind (vm_map_find_entry n (ve_start en) w) (\<lambda>r.
       case r of
         None \<Rightarrow> Inl (Assertion ''NULL != _data'')
       | Some d \<Rightarrow> clone_regions n rs (w\<lparr>vw_regions := (vw_regions w)(n := vw_regions w n @ [(name, d)])\<rparr>)))"

definition cloneMemoryMap :: "nat \<Rightarrow> vm_world \<Rightarrow> (nat \<times> vm_world) result" where
  "cloneMemoryMap m w =
     rbind (vm_map_clone m w) (\<lambda>(n, w1). rbind (clone_regions n (vw_regions w1 m) w1) (\<lambda>w2. Inr (n, w2)))"

fun destroy_regions :: "nat \<Rightarrow> string list \<Rightarrow> vm_world \<Rightarrow> vm_world result" where
  "destroy_regions m [] w = Inr w"
| "destroy_regions m (name # names) w = rbind (destroyMemoryRegion m name w) (destroy_regions m names)"

definition destroyMemoryMap :: "nat \<Rightarrow> vm_world \<Rightarrow> vm_world result" where
  "destroyMemoryMap m w = rbind (destroy_regions m (map fst (vw_regions w m)) w) (vm_map_delete m)"

definition vm_map_activate :: "nat option \<Rightarrow> vm_world \<Rightarrow> vm_world" where
  "vm_map_activate m w = w\<lparr>vw_uspace := m\<rparr>"

end
