(* ===== verification/Vm_Props.thy ===== *)
theory Vm_Props
  imports Vm
begin

text \<open>
  Properties of virtual memory: the search for a gap finds the lowest one, and giving a process regions keeps its map well formed:
  the list of entries is the splay tree in order, and the entries do not overlap.
\<close>

section \<open>Gaps\<close>

text \<open>Entries in order and apart, within the bounds.\<close>

fun spaced :: "u32 \<Rightarrow> u32 \<Rightarrow> (u32 \<times> u32) list \<Rightarrow> bool" where
  "spaced lo hi [] \<longleftrightarrow> lo \<le> hi"
| "spaced lo hi ((s, e) # es) \<longleftrightarrow> lo \<le> s \<and> s \<le> e \<and> spaced e hi es"

definition fits :: "u32 \<Rightarrow> (u32 \<times> u32) list \<Rightarrow> u32 \<Rightarrow> u32 \<Rightarrow> u32 \<Rightarrow> bool" where
  "fits hi es start len a \<longleftrightarrow>
     start \<le> a \<and> unat a + unat len \<le> unat hi \<and> (\<forall>(s, e) \<in> set es. unat a + unat len \<le> unat s \<or> e \<le> a)"

definition lowest :: "(u32 \<Rightarrow> bool) \<Rightarrow> u32 option \<Rightarrow> bool" where
  "lowest P r \<longleftrightarrow> (case r of None \<Rightarrow> \<forall>a. \<not> P a | Some a \<Rightarrow> P a \<and> (\<forall>b. P b \<longrightarrow> a \<le> b))"

lemma spaced_bounds: "spaced lo hi es \<Longrightarrow> lo \<le> hi \<and> (\<forall>(s, e) \<in> set es. lo \<le> s \<and> s \<le> e \<and> e \<le> hi)"
  by (induction lo hi es rule: spaced.induct) (auto intro: order_trans)

lemma add_le: "unat a + unat b < 2 ^ 32 \<Longrightarrow> a + b \<le> c \<longleftrightarrow> unat a + unat b \<le> unat c" for a b c :: u32
  by (simp add: word_le_nat_alt unat_word_ariths)

lemma browse_gaps_lowest:
  assumes "spaced lo hi es" "es \<noteq> []" "unat hi + unat len < 2 ^ 32" "unat start + unat len < 2 ^ 32"
    "unat (fst (hd es)) < unat start + unat len"
  shows "lowest (fits hi es start len) (browse_gaps hi len start es)"
  using assms
proof (induction hi len start es arbitrary: lo rule: browse_gaps.induct)
  case (2 hi len start s e rest)
  let ?g = "case rest of [] \<Rightarrow> hi | (s2, e2) # es2 \<Rightarrow> s2"
  let ?st = "if start < e then e else start"
  have sp: "s \<le> e" "spaced e hi rest" using "2.prems"(1) by auto
  have e: "e \<le> hi" using spaced_bounds [OF sp(2)] by simp
  have nov: "unat ?st + unat len < 2 ^ 32" using "2.prems"(3,4) e by (auto simp: word_le_nat_alt)
  have g: "?st + len \<le> ?g \<longleftrightarrow> unat ?st + unat len \<le> unat ?g" by (rule add_le [OF nov])
  have step: "fits hi ((s, e) # rest) start len b \<longleftrightarrow> fits hi rest ?st len b" for b
    using "2.prems"(5) sp(1) by (auto simp: fits_def word_le_nat_alt word_less_nat_alt)
  show ?case
  proof (cases "?st + len \<le> ?g")
    case True
    have "fits hi rest ?st len ?st"
    proof (cases rest)
      case Nil then show ?thesis using True g by (simp add: fits_def)
    next
      case (Cons x es2)
      obtain s2 e2 where x: "x = (s2, e2)" by fastforce
      have le: "unat ?st + unat len \<le> unat s2" using True g Cons x by simp
      have b: "e \<le> s2" "\<forall>(s', e') \<in> set rest. s2 \<le> s'" "s2 \<le> hi"
        using sp(2) spaced_bounds [of e2 hi es2] Cons x by (auto intro: order_trans)
      show ?thesis unfolding fits_def using le b by (fastforce simp: word_le_nat_alt)
    qed
    moreover have "?st \<le> b" if "fits hi rest ?st len b" for b using that by (simp add: fits_def)
    ultimately show ?thesis using True by (auto simp: lowest_def step Let_def)
  next
    case False
    then have r: "browse_gaps hi len start ((s, e) # rest) = browse_gaps hi len ?st rest" by (simp add: Let_def)
    show ?thesis
    proof (cases rest)
      case Nil
      have "\<not> fits hi rest ?st len b" for b
        using False g Nil unfolding fits_def by (auto simp: word_le_nat_alt split: if_splits)
      then show ?thesis unfolding r lowest_def step by (simp add: Nil)
    next
      case (Cons x es2)
      have "lowest (fits hi rest ?st len) (browse_gaps hi len ?st rest)"
        by (rule "2.IH") (use False g Cons sp(2) nov "2.prems"(3) in \<open>auto simp: Let_def split: prod.splits\<close>)
      then show ?thesis unfolding r lowest_def step by simp
    qed
  qed
qed simp

lemma findspace_lowest:
  assumes "spaced lo hi es" "unat hi + unat len < 2 ^ 32" "unat start + unat len < 2 ^ 32"
  shows "lowest (fits hi es (max lo start) len) (findspace lo hi es start len)"
proof -
  let ?st = "max lo start"
  have lh: "lo \<le> hi" using spaced_bounds [OF assms(1)] by simp
  have m: "(if start < lo then lo else start) = ?st" by (auto simp: max_def)
  have nov: "unat ?st + unat len < 2 ^ 32" using assms(2,3) lh by (auto simp: max_def word_le_nat_alt)
  have hi: "?st + len > hi \<longleftrightarrow> unat hi < unat ?st + unat len" using add_le [OF nov, of hi] by (simp add: not_le [symmetric])
  show ?thesis
  proof (cases "?st + len > hi")
    case True
    then have "\<not> fits hi es ?st len a" for a using hi by (auto simp: fits_def word_le_nat_alt)
    then show ?thesis using True by (simp add: findspace_def m lowest_def Let_def)
  next
    case False
    note h = False hi
    show ?thesis
    proof (cases es)
      case Nil then show ?thesis using h by (auto simp: findspace_def m lowest_def fits_def Let_def)
    next
      case (Cons x rest)
      obtain s e where x: "x = (s, e)" by fastforce
      have le: "?st + len \<le> s \<longleftrightarrow> unat ?st + unat len \<le> unat s" by (rule add_le [OF nov])
      show ?thesis
      proof (cases "?st + len \<le> s")
        case True
        have "\<forall>(s', e') \<in> set es. s \<le> s'" using assms(1) spaced_bounds [of e hi rest] Cons x by (auto intro: order_trans)
        then have "fits hi es ?st len ?st" using h le True by (fastforce simp: fits_def word_le_nat_alt)
        moreover have "findspace lo hi es start len = Some ?st"
          using h(1) True by (simp add: findspace_def m Cons x Let_def not_less)
        ultimately show ?thesis by (simp add: lowest_def fits_def)
      next
        case f: False
        have "lowest (fits hi es ?st len) (browse_gaps hi len ?st es)"
          by (rule browse_gaps_lowest [OF assms(1) _ assms(2) nov]) (use f le Cons x in auto)
        moreover have "findspace lo hi es start len = browse_gaps hi len ?st es"
          using h(1) f by (auto simp: findspace_def m Cons x Let_def simp del: browse_gaps.simps)
        ultimately show ?thesis by simp
      qed
    qed
  qed
qed

section \<open>Well-formed maps\<close>

definition bound :: "vm_world \<Rightarrow> nat \<Rightarrow> u32 \<times> u32" where
  "bound w e = (case vw_entries w e of None \<Rightarrow> (0, 0) | Some en \<Rightarrow> (ve_start en, ve_end en))"

definition page_aligned :: "u32 \<Rightarrow> bool" where
  "page_aligned x \<longleftrightarrow> x AND 0xfff = 0"

text \<open>
  The list is the tree in order; its entries exist, are not empty, are page aligned, do not overlap and lie within the
  user part of the address space.
\<close>

definition map_good :: "nat \<Rightarrow> vm_world \<Rightarrow> bool" where
  "map_good m w \<longleftrightarrow> (\<exists>mp. vw_maps w m = Some mp \<and> inorder (vm_tree mp) = vm_list mp \<and> vm_nentries mp = length (vm_list mp) \<and>
     distinct (vm_list mp) \<and> (\<forall>e \<in> set (vm_list mp). e < vw_next w \<and> vw_entries w e \<noteq> None) \<and>
     spaced (pm_start (vm_pmap mp)) (pm_end (vm_pmap mp)) (map (bound w) (vm_list mp)) \<and>
     (\<forall>e \<in> set (vm_list mp). fst (bound w e) < snd (bound w e) \<and> page_aligned (fst (bound w e)) \<and> page_aligned (snd (bound w e))) \<and>
     page_aligned (pm_start (vm_pmap mp)) \<and> page_aligned (pm_end (vm_pmap mp)) \<and> pm_end (vm_pmap mp) \<le> 0x80000000)"

lemma entry_bounds_ok: "\<forall>e \<in> set es. vw_entries w e \<noteq> None \<Longrightarrow> entry_bounds w es = Inr (map (bound w) es)"
  by (induction es) (auto simp: entry_at_def bound_def)

lemma page_aligned_iff: "page_aligned x \<longleftrightarrow> 4096 dvd unat x"
proof -
  have "x AND 0xfff = take_bit 12 x" by (simp add: take_bit_eq_mask mask_eq_exp_minus_1)
  moreover have "unat (take_bit 12 x) = unat x mod 4096" by (simp add: take_bit_eq_mod unat_mod)
  ultimately have "page_aligned x \<longleftrightarrow> unat x mod 4096 = 0" by (simp add: page_aligned_def unat_eq_0 [symmetric])
  then show ?thesis by (simp add: dvd_eq_mod_eq_0)
qed

lemma page_aligned_add: "page_aligned a \<Longrightarrow> page_aligned b \<Longrightarrow> page_aligned (a + b)"
  by (simp add: page_aligned_iff unat_word_ariths dvd_mod)

text \<open>Below \<open>2^31\<close> the comparison of entries is the order of their starts.\<close>

lemma cmp_sign:
  assumes "unat a < 2 ^ 31" "unat b < 2 ^ 31"
  shows "vm_map_entry_cmp a b < 0 \<longleftrightarrow> a < b" "vm_map_entry_cmp a b = 0 \<longleftrightarrow> a = b" "0 < vm_map_entry_cmp a b \<longleftrightarrow> b < a"
proof -
  have d: "unat (a - b) = unat a - unat b" if "b \<le> a" using that by (rule unat_sub)
  define k where "k = unat a - unat b"
  have k: "sint (a - b) = int k" "k = 0 \<longleftrightarrow> a = b" "0 < k \<longleftrightarrow> b < a" if "b \<le> a"
    using sint_small [of "a - b"] d [OF that] assms that
    by (simp_all add: k_def word_le_nat_alt word_less_nat_alt word_unat_eq_iff)
  show "vm_map_entry_cmp a b < 0 \<longleftrightarrow> a < b" "vm_map_entry_cmp a b = 0 \<longleftrightarrow> a = b" "0 < vm_map_entry_cmp a b \<longleftrightarrow> b < a"
    using k by (auto simp: vm_map_entry_cmp_def not_less)
qed

lemma insert_before_append: "y \<notin> set xs \<Longrightarrow> insert_before y e (xs @ y # ys) = Inr (xs @ e # y # ys)"
  by (induction xs) auto

lemma spaced_sorted:
  "spaced lo hi es \<Longrightarrow> \<forall>b \<in> set es. fst b < snd b \<Longrightarrow> sorted_wrt (\<lambda>x y. snd x \<le> fst y \<and> fst x < fst y) es"
proof (induction lo hi es rule: spaced.induct)
  case (2 lo hi s e es)
  have "\<forall>b \<in> set es. e \<le> fst b" using spaced_bounds [of e hi es] "2.prems"(1) by auto
  then show ?case using "2.IH" "2.prems" by auto
qed simp

lemma spaced_insert:
  "spaced lo hi (xs @ ys) \<Longrightarrow> lo \<le> a \<Longrightarrow> a \<le> b \<Longrightarrow> b \<le> hi \<Longrightarrow> \<forall>x \<in> set xs. snd x \<le> a \<Longrightarrow> \<forall>y \<in> set ys. b \<le> fst y \<Longrightarrow>
     spaced lo hi (xs @ (a, b) # ys)"
proof (induction xs arbitrary: lo)
  case Nil
  show ?case
  proof (cases ys)
    case (Cons y ys') then show ?thesis using Nil by (cases y) auto
  qed (use Nil in simp)
qed auto

lemma insert_entry_ok:
  assumes mp: "vw_maps w m = Some mp" "inorder (vm_tree mp) = vm_list mp" "distinct (vm_list mp)"
      "\<forall>x \<in> set (vm_list mp). vw_entries w x \<noteq> None"
    and sorted: "sorted_wrt (\<lambda>x y. fst (bound w x) < fst (bound w y)) (vm_list mp)"
    and small: "\<forall>x \<in> set (vm_list mp). unat (fst (bound w x)) < 2 ^ 31" "unat st < 2 ^ 31"
    and e: "vw_entries w e = Some en" "ve_start en = st" "\<forall>x \<in> set (vm_list mp). fst (bound w x) \<noteq> st"
  shows "\<exists>t l1 l2. vm_map_insert_entry m e w =
      Inr (True, put_map m (mp\<lparr>vm_tree := t, vm_list := l1 @ e # l2, vm_nentries := Suc (vm_nentries mp)\<rparr>) w) \<and>
    vm_list mp = l1 @ l2 \<and> inorder t = l1 @ e # l2 \<and> (\<exists>l r. t = Node l e r) \<and>
    (\<forall>x \<in> set l1. fst (bound w x) < st) \<and> (\<forall>y \<in> set l2. st < fst (bound w y))"
proof -
  let ?c = "entry_cmp w st" and ?d = "\<lambda>x. vm_map_entry_cmp st (fst (bound w x))"
  have c: "?c x = Inr (?d x)" if "x \<in> set (inorder (vm_tree mp))" for x
    using that mp(2,4) by (auto simp: entry_cmp_def entry_at_def bound_def)
  have sign: "?d x < 0 \<longleftrightarrow> st < fst (bound w x)" "?d x = 0 \<longleftrightarrow> st = fst (bound w x)" "0 < ?d x \<longleftrightarrow> fst (bound w x) < st"
    if "x \<in> set (vm_list mp)" for x using cmp_sign [OF small(2), of "fst (bound w x)"] small(1) that by auto
  have so: "sorted_wrt (\<lambda>x y. ?d x \<le> 0 \<longrightarrow> ?d y < 0) (inorder (vm_tree mp))"
    unfolding mp(2)
  proof (rule sorted_wrt_mono_rel [OF _ sorted])
    fix x y assume xy: "x \<in> set (vm_list mp)" "y \<in> set (vm_list mp)" "fst (bound w x) < fst (bound w y)"
    show "?d x \<le> 0 \<longrightarrow> ?d y < 0"
    proof
      assume "?d x \<le> 0"
      then have "st \<le> fst (bound w x)" using sign(3) [OF xy(1)] by (simp add: not_less [symmetric])
      then show "?d y < 0" using sign(1) [OF xy(2)] xy(3) by (simp add: le_less_trans)
    qed
  qed
  have nz: "?d x \<noteq> 0" if "x \<in> set (vm_list mp)" for x using sign(2) [OF that] e(3) that by metis
  obtain l r where ins: "SPLAY_INSERT ?c e (vm_tree mp) = Inr (None, Node l e r)" "vm_list mp = inorder l @ inorder r"
      "\<forall>x \<in> set (inorder l). 0 < ?d x" "\<forall>y \<in> set (inorder r). ?d y < 0"
    using splay_insert [OF c so, of e] nz unfolding mp(2) by blast
  have ce: "?c e = Inr 0" using e(1,2) by (simp add: entry_cmp_def entry_at_def vm_map_entry_cmp_def)
  note nx = splay_next [of ?c e l r, OF ce]
  have lst: "(case case inorder r of [] \<Rightarrow> None | y # ys \<Rightarrow> Some y of None \<Rightarrow> Inr (vm_list mp @ [e]) | Some y \<Rightarrow> insert_before y e (vm_list mp)) =
      Inr (inorder l @ e # inorder r)"
  proof (cases "inorder r")
    case (Cons y ys)
    then have "y \<notin> set (inorder l)" using mp(3) ins(2) by simp
    then show ?thesis using Cons ins(2) insert_before_append [of y "inorder l" e ys] by simp
  qed (simp add: ins(2))
  have "vm_map_insert_entry m e w =
      Inr (True, put_map m (mp\<lparr>vm_tree := Node l e r, vm_list := inorder l @ e # inorder r, vm_nentries := Suc (vm_nentries mp)\<rparr>) w)"
    using mp(1) e(1,2) ins(1) nx lst by (simp add: vm_map_insert_entry_def map_at_def entry_at_def)
  moreover have "\<forall>x \<in> set (inorder l). fst (bound w x) < st" "\<forall>y \<in> set (inorder r). st < fst (bound w y)"
    using ins(2-4) sign by auto
  ultimately show ?thesis using ins(2) by (intro exI [of _ "Node l e r"] exI [of _ "inorder l"] exI [of _ "inorder r"]) simp
qed

definition layout :: "nat \<Rightarrow> vm_world \<Rightarrow> (u32 \<times> u32) list" where
  "layout m w = (case vw_maps w m of None \<Rightarrow> [] | Some mp \<Rightarrow> map (bound w) (vm_list mp))"

lemma add_entry_ok:
  assumes good: "map_good m w" and mp: "vw_maps w m = Some mp"
    and ab: "page_aligned a" "page_aligned b" "a < b" "pm_start (vm_pmap mp) \<le> a" "b \<le> pm_end (vm_pmap mp)"
    and free: "\<forall>(s, e) \<in> set (layout m w). b \<le> s \<or> e \<le> a"
  obtains w' l r where "vm_map_add_entry m a b prot w = Inr (vw_next w, w')" "map_good m w'"
    "set (layout m w') = insert (a, b) (set (layout m w))"
    "vw_entries w' = (vw_entries w)(vw_next w \<mapsto> \<lparr>ve_object = None, ve_prot = prot, ve_start = a, ve_end = b\<rparr>)"
    "vw_next w' = Suc (vw_next w)" "vw_regions w' = vw_regions w" "vw_objects w' = vw_objects w" "vw_phys w' = vw_phys w"
    "map_option vm_tree (vw_maps w' m) = Some (Node l (vw_next w) r)"
proof -
  have g: "inorder (vm_tree mp) = vm_list mp" "vm_nentries mp = length (vm_list mp)" "distinct (vm_list mp)"
      "\<forall>e \<in> set (vm_list mp). e < vw_next w \<and> vw_entries w e \<noteq> None"
      "spaced (pm_start (vm_pmap mp)) (pm_end (vm_pmap mp)) (map (bound w) (vm_list mp))"
      "\<forall>e \<in> set (vm_list mp). fst (bound w e) < snd (bound w e) \<and> page_aligned (fst (bound w e)) \<and> page_aligned (snd (bound w e))"
      "page_aligned (pm_start (vm_pmap mp))" "page_aligned (pm_end (vm_pmap mp))" "pm_end (vm_pmap mp) \<le> 0x80000000"
    using good mp unfolding map_good_def by auto
  define e where "e = vw_next w"
  define en where "en = \<lparr>ve_object = None, ve_prot = prot, ve_start = a, ve_end = b\<rparr>"
  define w1 where "w1 = put_entry e en (w\<lparr>vw_next := Suc e\<rparr>)"
  have fresh: "e \<notin> set (vm_list mp)" using g(4) by (auto simp: e_def)
  have bd: "bound w1 x = bound w x" if "x \<in> set (vm_list mp)" for x
    using that fresh by (auto simp: w1_def put_entry_def bound_def)
  have be: "bound w1 e = (a, b)" by (simp add: w1_def put_entry_def bound_def en_def)
  have lay: "layout m w = map (bound w) (vm_list mp)" by (simp add: layout_def mp)
  have sm: "unat x < 2 ^ 31" if "x < y" "y \<le> pm_end (vm_pmap mp)" for x y :: u32
    using that g(9) by (simp add: word_le_nat_alt word_less_nat_alt)
  have bnds: "fst (bound w x) < snd (bound w x)" "snd (bound w x) \<le> pm_end (vm_pmap mp)" if "x \<in> set (vm_list mp)" for x
    using that g(6) spaced_bounds [OF g(5)] by (fastforce simp: prod.case_eq_if)+
  have so: "sorted_wrt (\<lambda>x y. fst (bound w x) < fst (bound w y)) (vm_list mp)"
    using spaced_sorted [OF g(5)] g(6) by (auto simp: sorted_wrt_map elim: sorted_wrt_mono_rel [rotated])
  have so1: "sorted_wrt (\<lambda>x y. fst (bound w1 x) < fst (bound w1 y)) (vm_list mp)"
    by (rule sorted_wrt_mono_rel [OF _ so]) (simp add: bd)
  have ne: "fst (bound w x) \<noteq> a" if "x \<in> set (vm_list mp)" for x
    using free that bnds(1) [OF that] ab(3) unfolding lay by (fastforce simp: prod.case_eq_if)
  have "\<exists>t l1 l2. vm_map_insert_entry m e w1 =
      Inr (True, put_map m (mp\<lparr>vm_tree := t, vm_list := l1 @ e # l2, vm_nentries := Suc (vm_nentries mp)\<rparr>) w1) \<and>
    vm_list mp = l1 @ l2 \<and> inorder t = l1 @ e # l2 \<and> (\<exists>l r. t = Node l e r) \<and>
    (\<forall>x \<in> set l1. fst (bound w1 x) < a) \<and> (\<forall>y \<in> set l2. a < fst (bound w1 y))"
  proof (rule insert_entry_ok [where en = en])
    show "vw_maps w1 m = Some mp" using mp by (simp add: w1_def put_entry_def)
    show "\<forall>x \<in> set (vm_list mp). vw_entries w1 x \<noteq> None" using g(4) by (simp add: w1_def put_entry_def)
    show "\<forall>x \<in> set (vm_list mp). unat (fst (bound w1 x)) < 2 ^ 31" using sm bnds by (auto simp: bd)
    show "unat a < 2 ^ 31" using sm ab(3,5) by blast
    show "vw_entries w1 e = Some en" "ve_start en = a" by (simp_all add: w1_def put_entry_def en_def)
    show "\<forall>x \<in> set (vm_list mp). fst (bound w1 x) \<noteq> a" using ne by (simp add: bd)
  qed (use g(1,3) so1 in simp_all)
  then obtain t l1 l2 l r where ins: "vm_map_insert_entry m e w1 =
      Inr (True, put_map m (mp\<lparr>vm_tree := t, vm_list := l1 @ e # l2, vm_nentries := Suc (vm_nentries mp)\<rparr>) w1)"
    "vm_list mp = l1 @ l2" "inorder t = l1 @ e # l2" "t = Node l e r"
    "\<forall>x \<in> set l1. fst (bound w1 x) < a" "\<forall>y \<in> set l2. a < fst (bound w1 y)" by blast
  define w2 where "w2 = put_map m (mp\<lparr>vm_tree := t, vm_list := l1 @ e # l2, vm_nentries := Suc (vm_nentries mp)\<rparr>) w1"
  have bd2: "bound w2 x = bound w1 x" for x by (simp add: w2_def put_map_def bound_def)
  have fr: "b \<le> fst (bound w x) \<or> snd (bound w x) \<le> a" if "x \<in> set (vm_list mp)" for x
    using free that unfolding lay by (fastforce simp: prod.case_eq_if)
  have left: "snd (bound w x) \<le> a" if "x \<in> set l1" for x
  proof -
    have "x \<in> set (vm_list mp)" "fst (bound w1 x) < a" using that ins(2,5) by auto
    then have "x \<in> set (vm_list mp)" "fst (bound w x) < b" using bd ab(3) by (auto intro: less_trans)
    then show ?thesis using fr [of x] by (simp add: not_le [symmetric])
  qed
  have right: "b \<le> fst (bound w y)" if "y \<in> set l2" for y
  proof -
    have "y \<in> set (vm_list mp)" "a < fst (bound w1 y)" using that ins(2,6) by auto
    then have y: "y \<in> set (vm_list mp)" "a < fst (bound w y)" using bd by auto
    have "a < snd (bound w y)" using y(2) bnds(1) [OF y(1)] by (rule less_trans)
    then show ?thesis using fr [OF y(1)] by (simp add: not_le [symmetric])
  qed
  have map2: "map (bound w2) (l1 @ e # l2) = map (bound w) l1 @ (a, b) # map (bound w) l2"
    using bd ins(2) by (simp add: bd2 be)
  have "spaced (pm_start (vm_pmap mp)) (pm_end (vm_pmap mp)) (map (bound w2) (l1 @ e # l2))"
    unfolding map2 by (rule spaced_insert) (use g(5) ins(2) ab left right in auto)
  moreover have "vw_maps w2 m = Some (mp\<lparr>vm_tree := t, vm_list := l1 @ e # l2, vm_nentries := Suc (vm_nentries mp)\<rparr>)"
    by (simp add: w2_def put_map_def)
  moreover have "\<forall>x \<in> set (l1 @ e # l2). x < vw_next w2 \<and> vw_entries w2 x \<noteq> None"
    using g(4) ins(2) by (auto simp: w2_def w1_def put_map_def put_entry_def e_def less_Suc_eq)
  moreover have "\<forall>x \<in> set (l1 @ e # l2). fst (bound w2 x) < snd (bound w2 x) \<and> page_aligned (fst (bound w2 x)) \<and> page_aligned (snd (bound w2 x))"
    using g(6) ins(2) bd be ab(1-3) by (auto simp: bd2)
  moreover have "distinct (l1 @ e # l2)" using g(3) ins(2) fresh by auto
  ultimately have good2: "map_good m w2" using g(2,7-9) ins(2,3) unfolding map_good_def by simp
  have lay2: "set (layout m w2) = insert (a, b) (set (layout m w))"
  proof -
    have "layout m w2 = map (bound w2) (l1 @ e # l2)" by (simp add: layout_def w2_def put_map_def)
    then show ?thesis unfolding map2 lay ins(2) by auto
  qed
  have "vm_map_add_entry m a b prot w = Inr (e, w2)"
    using mp ab ins(1) by (simp add: vm_map_add_entry_def map_at_def rassert_def page_aligned_def w1_def [unfolded e_def en_def, symmetric]
        e_def [symmetric] w2_def Let_def en_def [symmetric] w1_def [symmetric])
  then have "vm_map_add_entry m a b prot w = Inr (vw_next w, w2)" by (simp add: e_def)
  then show thesis
    by (rule that [of w2 l r]) (use good2 lay2 ins(4) in \<open>simp_all add: w2_def w1_def put_map_def put_entry_def e_def en_def\<close>)
qed

lemma browse_gaps_aligned:
  "browse_gaps hi len start es = Some a \<Longrightarrow> a = start \<or> a \<in> snd ` set es"
proof (induction hi len start es rule: browse_gaps.induct)
  case (2 hi len start s e rest)
  let ?st = "if start < e then e else start"
  let ?g = "case rest of [] \<Rightarrow> hi | (s2, e2) # es2 \<Rightarrow> s2"
  show ?case
  proof (cases "?st + len \<le> ?g")
    case True
    then have "browse_gaps hi len start ((s, e) # rest) = Some ?st" by (simp add: Let_def)
    then have "a = ?st" using "2.prems" by simp
    then show ?thesis by (simp split: if_splits)
  next
    case False
    then have "browse_gaps hi len start ((s, e) # rest) = browse_gaps hi len ?st rest" by (simp add: Let_def)
    then have "browse_gaps hi len ?st rest = Some a" using "2.prems" by simp
    from "2.IH" [OF refl refl False this] have "a = ?st \<or> a \<in> snd ` set rest" .
    then show ?thesis by (auto simp del: browse_gaps.simps split: if_splits)
  qed
qed simp

lemma findspace_aligned:
  assumes "findspace lo hi es start len = Some a" "page_aligned lo" "page_aligned start" "\<forall>b \<in> set es. page_aligned (snd b)"
  shows "page_aligned a"
proof -
  define st where "st = (if start < lo then lo else start)"
  have st: "page_aligned st" using assms(2,3) by (simp add: st_def)
  have "a = st \<or> browse_gaps hi len st es = Some a"
    using assms(1) unfolding findspace_def st_def [symmetric] Let_def
    by (cases es) (auto simp del: browse_gaps.simps split: if_splits)
  then show ?thesis using browse_gaps_aligned [of hi len st es a] st assms(4) by auto
qed

section \<open>Regions\<close>

lemma map_good_cong:
  assumes "map_good m w" "vw_maps w' m = vw_maps w m" "\<And>e. bound w' e = bound w e"
    "\<And>e. vw_entries w e \<noteq> None \<Longrightarrow> vw_entries w' e \<noteq> None" "vw_next w \<le> vw_next w'"
  shows "map_good m w'"
proof -
  have b: "bound w' = bound w" using assms(3) by blast
  have "e < vw_next w' \<and> vw_entries w' e \<noteq> None" if "e < vw_next w \<and> vw_entries w e \<noteq> None" for e
    using that assms(4,5) by (meson order.strict_trans2)
  note live = this
  obtain mp where mp: "vw_maps w m = Some mp" using assms(1) unfolding map_good_def by blast
  show ?thesis using assms(1) live unfolding map_good_def assms(2) b mp by simp
qed

lemma create_region_ok:
  assumes good: "map_good m w" and mp: "vw_maps w m = Some mp"
    and ab: "page_aligned a" "page_aligned b" "a < b" "pm_start (vm_pmap mp) \<le> a" "b \<le> pm_end (vm_pmap mp)"
    and free: "\<forall>(s, e) \<in> set (layout m w). b \<le> s \<or> e \<le> a"
    and name: "map_of (vw_regions w m) name = None"
  shows "\<exists>w'. createMemoryRegion m name a b prot w = Inr (Some (vw_next w), w') \<and> map_good m w' \<and>
    set (layout m w') = insert (a, b) (set (layout m w)) \<and> map_of (vw_regions w' m) name = Some (vw_next w) \<and> bound w' (vw_next w) = (a, b)"
proof -
  define e where "e = vw_next w"
  define en where "en = \<lparr>ve_object = None, ve_prot = prot, ve_start = a, ve_end = b\<rparr>"
  obtain w1 where w1: "vm_map_add_entry m a b prot w = Inr (e, w1)" "map_good m w1"
      "set (layout m w1) = insert (a, b) (set (layout m w))" "vw_entries w1 = (vw_entries w)(e \<mapsto> en)"
      "vw_regions w1 = vw_regions w"
    using add_entry_ok [OF good mp ab free, of prot, folded e_def, folded en_def] .
  define w2 where "w2 = snd (vm_object_alloc w1)"
  define w3 where "w3 = (put_entry e (en\<lparr>ve_object := Some (vw_next w1)\<rparr>) w2)\<lparr>vw_regions := (vw_regions w2)(m := vw_regions w2 m @ [(name, e)])\<rparr>"
  have c: "createMemoryRegion m name a b prot w = Inr (Some e, w3)"
    using name w1 by (simp add: createMemoryRegion_def vm_object_alloc_def w3_def w2_def entry_at_def put_object_def)
  have b: "bound w3 x = bound w1 x" for x
    using w1(4) by (simp add: w3_def w2_def vm_object_alloc_def put_object_def put_entry_def bound_def en_def)
  have mm: "vw_maps w3 m = vw_maps w1 m" by (simp add: w3_def w2_def vm_object_alloc_def put_object_def put_entry_def)
  have good3: "map_good m w3"
    by (rule map_good_cong [OF w1(2) mm b]) (simp_all add: w3_def w2_def vm_object_alloc_def put_object_def put_entry_def)
  have lay: "layout m w3 = layout m w1" using b by (simp add: layout_def mm split: option.split)
  have "map_of (vw_regions w3 m) name = Some e"
    using name w1(5) by (simp add: w3_def w2_def vm_object_alloc_def put_object_def put_entry_def map_add_def)
  moreover have "bound w3 e = (a, b)" unfolding b using w1(4) by (simp add: bound_def en_def)
  ultimately show ?thesis using c good3 w1(3) by (intro exI [of _ w3]) (simp add: lay e_def)
qed

lemma region_in_good_map:
  assumes "map_good m w" "vw_maps w m = Some mp" "map_of (vw_regions w m) name = None"
    and "page_aligned start" "page_aligned len" "0 < len" "unat len < 2 ^ 31" "unat start + unat len < 2 ^ 32"
  shows "case createMemoryRegionInRange m name start len prot w of
      Inl e \<Rightarrow> False
    | Inr (None, w') \<Rightarrow> w' = w \<and> (\<forall>a. \<not> fits (pm_end (vm_pmap mp)) (layout m w) (max (pm_start (vm_pmap mp)) start) len a)
    | Inr (Some e, w') \<Rightarrow> map_good m w' \<and> map_of (vw_regions w' m) name = Some e \<and>
        (\<exists>a. bound w' e = (a, a + len) \<and> set (layout m w') = insert (a, a + len) (set (layout m w)) \<and>
          fits (pm_end (vm_pmap mp)) (layout m w) (max (pm_start (vm_pmap mp)) start) len a \<and>
          (\<forall>b. fits (pm_end (vm_pmap mp)) (layout m w) (max (pm_start (vm_pmap mp)) start) len b \<longrightarrow> a \<le> b))"
proof -
  let ?lo = "pm_start (vm_pmap mp)" and ?hi = "pm_end (vm_pmap mp)"
  have g: "\<forall>e \<in> set (vm_list mp). vw_entries w e \<noteq> None" "spaced ?lo ?hi (layout m w)"
      "\<forall>e \<in> set (vm_list mp). page_aligned (snd (bound w e))" "page_aligned ?lo" "?hi \<le> 0x80000000"
    using assms(1,2) unfolding map_good_def layout_def by auto
  have hi: "unat ?hi + unat len < 2 ^ 32" using g(5) assms(7) by (simp add: word_le_nat_alt)
  let ?r = "findspace ?lo ?hi (layout m w) start len"
  have f: "vm_map_findspace m start len w = Inr ?r"
    using assms(2,4,5) entry_bounds_ok [OF g(1)] by (simp add: vm_map_findspace_def rassert_def page_aligned_def map_at_def layout_def)
  note low = findspace_lowest [OF g(2) hi assms(8)]
  show ?thesis
  proof (cases ?r)
    case None then show ?thesis using low f by (simp add: createMemoryRegionInRange_def lowest_def)
  next
    case (Some a)
    then have fa: "fits ?hi (layout m w) (max ?lo start) len a" and least: "\<forall>b. fits ?hi (layout m w) (max ?lo start) len b \<longrightarrow> a \<le> b"
      using low by (simp_all add: lowest_def)
    have al: "page_aligned a" using findspace_aligned [OF Some] g(3,4) assms(2,4) by (auto simp: layout_def)
    have nov: "unat a + unat len \<le> unat ?hi" "?lo \<le> a" using fa by (auto simp: fits_def)
    have s: "unat (a + len) = unat a + unat len" using nov(1) hi by (simp add: unat_word_ariths)
    have "\<exists>w'. createMemoryRegion m name a (a + len) prot w = Inr (Some (vw_next w), w') \<and> map_good m w' \<and>
      set (layout m w') = insert (a, a + len) (set (layout m w)) \<and> map_of (vw_regions w' m) name = Some (vw_next w) \<and> bound w' (vw_next w) = (a, a + len)"
      by (rule create_region_ok [OF assms(1,2) al page_aligned_add [OF al assms(5)] _ nov(2) _ _ assms(3)])
        (use s nov assms(6) fa in \<open>auto simp: word_less_nat_alt word_le_nat_alt fits_def\<close>)
    then show ?thesis using f Some fa least by (auto simp: createMemoryRegionInRange_def)
  qed
qed

text \<open>A map as it is made, and after regions of whole pages were asked for in it.\<close>

inductive map_runs :: "nat \<Rightarrow> vm_world \<Rightarrow> bool" where
  new_map: "vm_map_new w = Inr (m, w') \<Longrightarrow> map_runs m w'"
| region: "map_runs m w \<Longrightarrow> page_aligned start \<Longrightarrow> page_aligned len \<Longrightarrow> 0 < len \<Longrightarrow> unat len < 2 ^ 31 \<Longrightarrow>
    unat start + unat len < 2 ^ 32 \<Longrightarrow> createMemoryRegionInRange m name start len prot w = Inr (r, w') \<Longrightarrow> map_runs m w'"

lemma new_map_good: "vm_map_new w = Inr (m, w') \<Longrightarrow> map_good m w'"
  by (auto simp: vm_map_new_def pmap_new_def pmap_setup_def rbind_Inr put_map_def map_good_def page_aligned_def split: prod.splits)

lemma region_name_taken:
  assumes "map_good m w" "map_of (vw_regions w m) name \<noteq> None" "page_aligned start" "page_aligned len"
  shows "createMemoryRegionInRange m name start len prot w = Inr (None, w)"
proof -
  obtain mp where mp: "vw_maps w m = Some mp" "\<forall>e \<in> set (vm_list mp). vw_entries w e \<noteq> None"
    using assms(1) unfolding map_good_def by auto
  then have "\<exists>r. vm_map_findspace m start len w = Inr r"
    using entry_bounds_ok [OF mp(2)] assms(3,4) by (simp add: vm_map_findspace_def rassert_def page_aligned_def map_at_def)
  then show ?thesis using assms(2) by (auto simp: createMemoryRegionInRange_def createMemoryRegion_def split: option.split)
qed

lemma runs_good: "map_runs m w \<Longrightarrow> map_good m w"
proof (induction rule: map_runs.induct)
  case (region m w start len name prot r w')
  then obtain mp where mp: "vw_maps w m = Some mp" unfolding map_good_def by blast
  show ?case
  proof (cases "map_of (vw_regions w m) name")
    case None
    note g = region_in_good_map [OF region.IH mp None region.hyps(2-6), of prot]
    then show ?thesis using region.hyps(7) region.IH by (cases r) auto
  next
    case (Some e)
    then show ?thesis using region_name_taken [OF region.IH _ region.hyps(2,3)] region.hyps(7) region.IH by simp
  qed
qed (rule new_map_good)


text \<open>A new map, with the only page of memory as its page directory, and the map after its first region.\<close>

definition one_page :: "bool \<Rightarrow> pm_seg" where
  "one_page free =
     \<lparr>seg_start = 0, seg_end = 4096, freeq = [if free then [0] else [], [], [], [], [], [], [], [], [], [], [], [], [], [], [], []],
      npages = 1, pages = [\<lparr>pg_paddr = 0, pg_vaddr = 0, pg_size = 1, pm_reserved = False, pm_allocated = \<not> free, pm_managed = free\<rparr>]\<rparr>"

definition user_pmap :: pmap where
  "user_pmap =
     \<lparr>pm_pde = (\<lambda>i. \<lparr>pte_pfn = None, pte_bits = (if in_kernel_space (i * 1024 * 4096) then PTE_GLOBAL else 0)\<rparr>),
      pm_pte = (\<lambda>_. \<lparr>pte_pfn = None, pte_bits = 0\<rparr>), pm_pde_page = (0, 0), pm_pte_pages = [], pm_start = 0, pm_end = 0x80000000, pm_asid = 0\<rparr>"

definition no_maps :: vm_world where
  "no_maps =
     \<lparr>vw_maps = Map.empty, vw_entries = Map.empty, vw_objects = Map.empty, vw_regions = (\<lambda>_. []), vw_uspace = None, vw_next = 0,
      vw_asids = 0, vw_phys = [one_page True], vw_mem = (\<lambda>_. [])\<rparr>"

definition new_world :: vm_world where
  "new_world = no_maps\<lparr>vw_maps := [0 \<mapsto> \<lparr>vm_list = [], vm_tree = Leaf, vm_nentries = 0, vm_pmap = user_pmap\<rparr>],
     vw_next := 1, vw_asids := 1, vw_phys := [one_page False]\<rparr>"

definition code_world :: vm_world where
  "code_world = snd (projr (createMemoryRegionInRange 0 ''code'' 0x400000 0x1000 5 new_world))"

lemma one_page_alloc: "pm_alloc 1 [one_page True] = Inr (Some (0, 0), [one_page False])"
  by code_simp

lemma new_world_made: "vm_map_new no_maps = Inr (0, new_world)"
  using one_page_alloc
  by (simp add: vm_map_new_def pmap_new_def pmap_setup_def alloc_frame_def get_new_asid_def no_maps_def new_world_def user_pmap_def put_map_def)

lemma code_world_made:
  "createMemoryRegionInRange 0 ''code'' 0x400000 0x1000 5 new_world = Inr (Some 1, code_world)"
  "vw_maps code_world 0 = Some \<lparr>vm_list = [1], vm_tree = Node Leaf 1 Leaf, vm_nentries = 1, vm_pmap = user_pmap\<rparr>"
  "layout 0 code_world = [(0x400000, 0x401000)]" "vw_regions code_world 0 = [(''code'', 1)]"
  by (simp_all add: code_world_def createMemoryRegionInRange_def vm_map_findspace_def rassert_def map_at_def new_world_def no_maps_def
      findspace_def user_pmap_def createMemoryRegion_def vm_map_add_entry_def vm_map_insert_entry_def put_entry_def entry_at_def
      put_map_def SPLAY_INSERT_def SPLAY_NEXT_def SPLAY_def splay_loop.simps SPLAY_ASSEMBLE_def entry_cmp_def vm_map_entry_cmp_def
      vm_object_alloc_def put_object_def layout_def bound_def)

lemma code_world_runs: "map_runs 0 code_world"
  by (rule map_runs.region [OF map_runs.new_map [OF new_world_made] _ _ _ _ _ code_world_made(1)]) (simp_all add: page_aligned_def)

lemma data_fits:
  "fits 0x80000000 [(0x400000, 0x401000)] 0x3ff000 0x2000 0x401000"
  "fits 0x80000000 [(0x400000, 0x401000)] 0x3ff000 0x2000 a \<Longrightarrow> 0x401000 \<le> a"
  by (auto simp: fits_def word_le_nat_alt)


end
