(* ===== verification/Spec2Isabelle.thy ===== *)
theory Spec2Isabelle
  imports Phys_Mem_Props Kmalloc_Props Hash_Map_Props Tcp_Socket_Props Scheduler_Props File_Desc_Props Vfs_Props Net_Props Vm_Props
begin

text \<open>
  A verification of gzOS, a kernel for 32-bit big-endian MIPS written in C and C++. Paths below are relative to src/kernel/.

  \<^bold>\<open>The program.\<close> The physical page allocator (lib/mm/physmem.c) gives pages to page tables (platform/malta/pmap.c), to memory
  objects (lib/mm/vm_object.c) and to the arenas of the kernel heap (lib/malloc/malloc.c). Maps of address spaces (lib/mm/vm_map.c) and
  the regions of processes (lib/kernel/proc/ProcessMemoryMap.cpp) sit on them. Threads are chosen by a scheduler with an exchangeable policy
  (lib/kernel/proc/). Processes use descriptors (lib/kernel/vfs/FileDescriptor.cpp and others) for files of the virtual file system
  (lib/kernel/vfs/VirtualFileSystem.cpp), pipes (lib/kernel/ipc/Pipe.cpp) and sockets. The network stack (lib/network/) passes buffers from
  the PCnet driver through Ethernet, ARP, IP, ICMP, UDP and TCP. Queues and hash maps (lib/primitives/) are shared by all of them.

  \<^bold>\<open>How code becomes definitions.\<close> A struct or class is a record, an enumeration a datatype, a function that changes state takes the
  state and returns the new one. Pointers to shared objects are numbers or addresses into stores. A failed assertion, a panic and behaviour the
  language leaves undefined are the faults of \<open>Gz_Prelude\<close>, the left side of \<open>'a result\<close>. Words keep their width where wrap-around
  matters. Definitions have the names of the source, with the class in front or a suffix where names would clash. Code outside of the
  repository and choices of the environment are parameters: whether memory pools have room, random ports, the frames a device
  sends, the value of \<open>__builtin_ctz(0)\<close>, what other threads do while a call waits.

  \<^bold>\<open>Memory.\<close> \<open>Phys_Mem\<close> models physmem.c: segments, the queues of free blocks and the page array. \<open>Phys_Mem_Inv\<close> has the invariant of the buddy
  system; \<open>Phys_Mem_Props\<close> shows that segments are set up and reserved exactly, that allocation and freeing refine sets of free
  pages, completely as far as merged buddies go, and interprets the contract \<open>Page_Allocator\<close>, from which follows that clients never lose
  or share a page. \<open>Kmalloc\<close> models malloc.c with headers and contents as maps from addresses; \<open>Kmalloc_Inv\<close> describes an arena as a row of
  tiles, and \<open>Kmalloc_Props\<close> shows that the heap refines a list of tiles, for aligned blocks and resizing too. \<open>Splay\<close>, \<open>Pmap\<close> and \<open>Vm\<close>
  model the splay tree of primitives/sys/tree.h, page tables, and maps, objects, page faults, cloning and regions; \<open>Vm_Props\<close> shows that
  a region is placed at the lowest free range and that list and tree of a map agree.

  \<^bold>\<open>Containers.\<close> \<open>Crc32\<close> and \<open>Hash_Map\<close> model hashmap.c and hashmap.h: the table-driven sum is the polynomial division, the loops of
  put and rehash end, and \<open>Hash_Map_Props\<close> interprets the contract \<open>Key_Map\<close> as far as the code keeps it and shows where it does not. \<open>Basic_Queue\<close>
  models basic_queue.h.

  \<^bold>\<open>Threads.\<close> \<open>Sched_Policy\<close> models the multi-level feedback queue and round robin as values of one record of operations,
  \<open>Scheduler\<close> the scheduler, processes and signals. \<open>Scheduler_Props\<close> has the contract of a policy as a locale with both policies as
  interpretations, the invariant of runs, fairness of round robin, and two ways in which threads are lost or the scheduler stops.

  \<^bold>\<open>Files.\<close> \<open>Path\<close> models Path.h and shows that a sanitised path is the normal form of where the path leads. \<open>Pipe\<close> models pipes with calls cut
  at the points where threads can be interrupted. \<open>File_Desc\<close> models descriptors, their tables and sharing, \<open>File_Desc_Props\<close> shows
  when ends of pipes are closed, how numbers are given, and that what was written is read. \<open>Vfs\<close> models nodes, lookup, creation and mounts,
  \<open>Vfs_Props\<close> that a created node is found, in every tree that can arise from the start of the kernel on.

  \<^bold>\<open>Network.\<close> \<open>Checksum\<close> models checksum.c and compares it with RFC 1071. \<open>Tcp\<close> models sessions with their states, \<open>Tcp_Socket\<close> sockets,
  segments as bytes and the input task; \<open>Tcp_Props\<close> has the contract of a session invariant as a locale with two interpretations, and shows
  that bytes are sent and received as streams and that two sessions connect; \<open>Tcp_Socket_Props\<close> shows that segments survive the way to
  bytes and back. \<open>Nbuf\<close>, \<open>Net\<close>, \<open>Arp\<close> and \<open>Ip\<close> model buffers and the layers; \<open>Net_Owner\<close>, \<open>Net_Safe\<close> and \<open>Net_Run\<close> follow the ownership of
  buffers through every function, and \<open>Net_Props\<close> concludes that none is used after it was freed and that a datagram
  arrives.

  \<^bold>\<open>Bounds and fuel.\<close> Loops over lists are recursive on the list or on a count of elements, with termination proofs where they are
  not. Only \<open>hashmap_put\<close> takes fuel, as put and rehash call each other while memory for larger tables lasts: when no table has more than \<open>L\<close>
  slots, \<open>2 * (L - n) + 2\<close> is enough for a table of \<open>n\<close>, and the theorems show that the call returns. Mount points are followed for as many steps as
  there are nodes. Segments of physical memory have at most \<open>2^16\<close> pages in a block, heap requests are below \<open>2^32 - 32\<close> bytes; the statements say so.

  \<^bold>\<open>What is not modelled.\<close> Interrupts and preemption inside a function, except where a theory says that a call is cut: steps of runs are
  atomic. Device registers, the TLB and caches, assembly, the console and the other drivers. FatFs and Duktape are third-party code; the
  ELF loader, the ramdisk, the process file system, timers, the work queue and the entry points of system calls are left out, as are user programs. Printing is
  left out everywhere.
\<close>

end
